(* ===== verification/Prelude.thy ===== *)
theory Prelude
  imports Main "HOL-Library.Word" "HOL-Library.List_Lexorder" "HOL-Library.Multiset"
begin

text \<open>
  Prelude: the types and generic lemmas every component shares.

  \<^item> A JavaScript string is a list of UTF-16 code units (\<open>jstring\<close>, a list of 16-bit words),
    so that \<open>length\<close>, \<open>slice\<close>, \<open>indexOf\<close> and \<open>charCodeAt\<close> count what the source counts.
    \<open>js ''...''\<close> is the ASCII literal.
  \<^item> A thrown error is a value: \<open>Err code message\<close> in the left of the sum \<open>'a res\<close>. The code is
    the prefix of the thrown message that the source branches on (\<open>message.startsWith(...)\<close>).
  \<^item> \<open>find_index\<close>, \<open>find_last_index\<close> and \<open>slice\<close> are the array operations of the source with
    \<open>None\<close> for the result \<open>-1\<close>.
\<close>

section \<open>Named theorem collections\<close>

named_theorems js_eval \<open>equations that evaluate strings and records in a witness\<close>
named_theorems list_ops \<open>facts on the array operations of the source\<close>

section \<open>Strings of UTF-16 code units\<close>

type_synonym u16 = "16 word"
type_synonym jstring = "u16 list"

definition js :: "string \<Rightarrow> jstring" where
  "js s = map of_char s"

lemma unat_of_char_u16: "unat (of_char c :: u16) = of_char c"
proof -
  have "(of_char c :: nat) < 256" by simp
  then have small: "(of_char c :: nat) < 2 ^ 16" by (rule less_trans) simp
  have "unat (of_nat (of_char c) :: u16) = of_char c mod 2 ^ 16"
    by (simp only: unat_of_nat) simp
  with small show ?thesis by (simp only: of_nat_of_char) (simp only: mod_less)
qed

lemma of_char_u16_inj: "(of_char c :: u16) = of_char d \<longleftrightarrow> c = d"
proof
  assume "(of_char c :: u16) = of_char d"
  then have "unat (of_char c :: u16) = unat (of_char d :: u16)" by simp
  then show "c = d" by (simp add: unat_of_char_u16)
qed simp

lemma js_eq_iff [simp]: "js a = js b \<longleftrightarrow> a = b"
  unfolding js_def by (rule inj_map_eq_map) (auto simp: inj_on_def of_char_u16_inj)

lemma js_Nil [simp]: "js [] = []"
  by (simp add: js_def)

lemma js_eq_Nil_iff [simp]: "js a = [] \<longleftrightarrow> a = []" "[] = js a \<longleftrightarrow> a = []"
  by (auto simp: js_def)

lemma length_js [simp]: "length (js a) = length a"
  by (simp add: js_def)

lemma js_append: "js (a @ b) = js a @ js b"
  by (simp add: js_def)

text \<open>Surrogate code units: the two halves of a character outside the basic plane.\<close>

definition high_surrogate :: "u16 \<Rightarrow> bool" where
  "high_surrogate u \<longleftrightarrow> 0xd800 \<le> u \<and> u \<le> 0xdbff"

definition low_surrogate :: "u16 \<Rightarrow> bool" where
  "low_surrogate u \<longleftrightarrow> 0xdc00 \<le> u \<and> u \<le> 0xdfff"

text \<open>
  The white space of \<open>\s\<close> and of \<open>String.prototype.trim\<close>: the WhiteSpace and LineTerminator
  code points of the language standard.
\<close>

definition is_space :: "u16 \<Rightarrow> bool" where
  "is_space u \<longleftrightarrow> u \<in> {0x09, 0x0a, 0x0b, 0x0c, 0x0d, 0x20, 0xa0, 0x1680, 0x2028, 0x2029, 0x202f,
     0x205f, 0x3000, 0xfeff} \<or> 0x2000 \<le> u \<and> u \<le> 0x200a"

definition slice :: "nat \<Rightarrow> nat \<Rightarrow> 'a list \<Rightarrow> 'a list" where
  "slice a b xs = take (b - a) (drop a xs)"

definition starts_with :: "'a list \<Rightarrow> 'a list \<Rightarrow> bool" where
  "starts_with p s \<longleftrightarrow> take (length p) s = p"

definition ends_with :: "'a list \<Rightarrow> 'a list \<Rightarrow> bool" where
  "ends_with p s \<longleftrightarrow> length p \<le> length s \<and> drop (length s - length p) s = p"

fun index_of :: "'a list \<Rightarrow> 'a list \<Rightarrow> nat option" where
  "index_of w [] = (if w = [] then Some 0 else None)"
| "index_of w (x # xs) =
     (if starts_with w (x # xs) then Some 0 else map_option Suc (index_of w xs))"

text \<open>\<open>s.indexOf(w, p)\<close>: a start beyond the end is clamped to the end.\<close>

definition index_from :: "'a list \<Rightarrow> 'a list \<Rightarrow> nat \<Rightarrow> nat option" where
  "index_from w s p = (let q = min p (length s) in map_option ((+) q) (index_of w (drop q s)))"

definition contains :: "'a list \<Rightarrow> 'a list \<Rightarrow> bool" where
  "contains w s \<longleftrightarrow> index_of w s \<noteq> None"

fun join :: "'a list \<Rightarrow> 'a list list \<Rightarrow> 'a list" where
  "join sep [] = []"
| "join sep [x] = x"
| "join sep (x # y # ys) = x @ sep @ join sep (y # ys)"

text \<open>\<open>s.replace(/\s+/g, " ")\<close> for an arbitrary class of units and replacement.\<close>

fun collapse_run :: "('a \<Rightarrow> bool) \<Rightarrow> 'a \<Rightarrow> bool \<Rightarrow> 'a list \<Rightarrow> 'a list" where
  "collapse_run p r inside [] = []"
| "collapse_run p r inside (x # xs) =
     (if p x then (if inside then collapse_run p r True xs else r # collapse_run p r True xs)
      else x # collapse_run p r False xs)"

definition collapse :: "('a \<Rightarrow> bool) \<Rightarrow> 'a \<Rightarrow> 'a list \<Rightarrow> 'a list" where
  "collapse p r s = collapse_run p r False s"

definition trim :: "jstring \<Rightarrow> jstring" where
  "trim s = rev (dropWhile is_space (rev (dropWhile is_space s)))"

section \<open>Errors as values\<close>

text \<open>
  The classes the core throws: the prefix of the message up to the colon. \<open>PlainError\<close> stands
  for a message with no such prefix, \<open>TypeErr\<close> for a \<open>TypeError\<close>, \<open>Aborted\<close> for the reason an
  abort signal throws and \<open>Foreign\<close> for an error of the host passed through.
\<close>

datatype ecode =
    CONTEXT_NOTE_INVALID | CONTEXT_NOTE_SCOPE | CONTEXT_NOTE_QUOTE | CONTEXT_NOTE_BUDGET
  | CONTEXT_NOTE_VERSION | CONTEXT_NOTE_REPAIR_LOSS | CONTEXT_SOURCE_CHANGED
  | CONTEXT_SOURCE_PREFIX | CONTEXT_CONTINUATION_MISSING | CONTEXT_CAPACITY | CONTEXT_CONFIG
  | CONTEXT_NO_CUT | CONTEXT_NO_NEW_SOURCE | CONTEXT_TOOL_BOUNDARY | CONTEXT_PREVIEW_UNSUPPORTED
  | CONTEXT_PREPARATION_INPUT | CONTEXT_PREPARATION_WRITER | CONTEXT_PREPARATION_PROVENANCE
  | CONTEXT_WRITER_CAPACITY | CONTEXT_WRITER_FAILED | CONTEXT_WRITER_UNAVAILABLE
  | CONTEXT_WRITER_ACCOUNTING | HISTORY_QUERY_INVALID | HISTORY_CURSOR_INVALID
  | HISTORY_QUERY_REQUIRED | HISTORY_ENTRY_REQUIRED | HISTORY_SCOPE_DENIED | HISTORY_KIND_REQUIRED
  | HISTORY_SOURCE_INVALID | HISTORY_PERSISTENCE_REQUIRED
  | TypeErr | PlainError | Aborted | Foreign

datatype err = Err (err_code: ecode) (err_message: jstring)

type_synonym 'a res = "err + 'a"

definition throw :: "ecode \<Rightarrow> string \<Rightarrow> 'a res" where
  "throw c m = Inl (Err c (js m))"

definition bind_res :: "'a res \<Rightarrow> ('a \<Rightarrow> 'b res) \<Rightarrow> 'b res" where
  "bind_res m f = (case m of Inl e \<Rightarrow> Inl e | Inr x \<Rightarrow> f x)"

text \<open>\<open>fails c r\<close>: the call threw an error of class \<open>c\<close>.\<close>

definition fails :: "ecode \<Rightarrow> 'a res \<Rightarrow> bool" where
  "fails c r \<longleftrightarrow> (case r of Inl e \<Rightarrow> err_code e = c | Inr _ \<Rightarrow> False)"

fun map_res :: "('a \<Rightarrow> 'b res) \<Rightarrow> 'a list \<Rightarrow> 'b list res" where
  "map_res f [] = Inr []"
| "map_res f (x # xs) = bind_res (f x) (\<lambda>y. bind_res (map_res f xs) (\<lambda>ys. Inr (y # ys)))"

text \<open>A \<open>for ... of\<close> loop whose body may throw.\<close>

fun each :: "('a \<Rightarrow> unit res) \<Rightarrow> 'a list \<Rightarrow> unit res" where
  "each f [] = Inr ()"
| "each f (x # xs) = bind_res (f x) (\<lambda>_. each f xs)"

lemma throw_simps [simp]:
  "throw c m \<noteq> Inr x" "Inr x \<noteq> throw c m" "fails c (throw d m) \<longleftrightarrow> c = d" "isl (throw c m)"
  by (auto simp: throw_def fails_def)

lemma fails_simps [simp]:
  "\<not> fails c (Inr x)" "fails c (Inl e) \<longleftrightarrow> err_code e = c"
  by (auto simp: fails_def)

lemma bind_res_simps [simp]:
  "bind_res (Inl e) f = Inl e" "bind_res (Inr x) f = f x" "bind_res (throw c m) f = throw c m"
  by (auto simp: bind_res_def throw_def)

lemma bind_res_eq_Inr: "bind_res m f = Inr y \<longleftrightarrow> (\<exists>x. m = Inr x \<and> f x = Inr y)"
  by (cases m) (auto simp: bind_res_def)

lemma bind_res_eq_InrE [elim!]:
  assumes "bind_res m f = Inr y"
  obtains x where "m = Inr x" and "f x = Inr y"
  using assms by (auto simp: bind_res_eq_Inr)

lemma bind_res_split:
  "P (bind_res m f) \<longleftrightarrow> (\<forall>e. m = Inl e \<longrightarrow> P (Inl e)) \<and> (\<forall>x. m = Inr x \<longrightarrow> P (f x))"
  by (cases m) (auto simp: bind_res_def)

lemma map_res_Inr: "map_res f xs = Inr ys \<longleftrightarrow> list_all2 (\<lambda>x y. f x = Inr y) xs ys"
proof (induction xs arbitrary: ys)
  case Nil
  then show ?case by auto
next
  case (Cons x xs)
  show ?case
    by (cases ys) (auto simp: bind_res_eq_Inr Cons.IH list_all2_Cons1)
qed

lemma each_Inr: "each f xs = Inr u \<longleftrightarrow> (\<forall>x \<in> set xs. f x = Inr ())"
  by (induction xs) (auto simp: bind_res_eq_Inr)

lemma each_append: "each f (xs @ ys) = bind_res (each f xs) (\<lambda>_. each f ys)"
proof (induction xs)
  case (Cons x xs)
  then show ?case by (cases "f x") auto
qed simp

lemma map_res_all: "(\<And>x. x \<in> set xs \<Longrightarrow> f x = Inr (g x)) \<Longrightarrow> map_res f xs = Inr (map g xs)"
  by (induction xs) auto

section \<open>Array operations\<close>

fun find_index :: "('a \<Rightarrow> bool) \<Rightarrow> 'a list \<Rightarrow> nat option" where
  "find_index p [] = None"
| "find_index p (x # xs) = (if p x then Some 0 else map_option Suc (find_index p xs))"

fun find_last_index :: "('a \<Rightarrow> bool) \<Rightarrow> 'a list \<Rightarrow> nat option" where
  "find_last_index p [] = None"
| "find_last_index p (x # xs) =
     (case find_last_index p xs of Some i \<Rightarrow> Some (Suc i)
      | None \<Rightarrow> if p x then Some 0 else None)"

text \<open>The value at an index, \<open>undefined\<close> out of range: \<open>xs[i]\<close> of the source.\<close>

definition nth_opt :: "'a list \<Rightarrow> nat \<Rightarrow> 'a option" where
  "nth_opt xs i = (if i < length xs then Some (xs ! i) else None)"

text \<open>The elements of a list paired with their indices: \<open>xs.entries()\<close>.\<close>

definition indexed :: "'a list \<Rightarrow> (nat \<times> 'a) list" where
  "indexed xs = zip [0..<length xs] xs"

text \<open>The elements of a list in first-occurrence order, once each: \<open>[...new Set(xs)]\<close>.\<close>

fun dedup_seen :: "'a list \<Rightarrow> 'a list \<Rightarrow> 'a list" where
  "dedup_seen seen [] = []"
| "dedup_seen seen (x # xs) =
     (if x \<in> set seen then dedup_seen seen xs else x # dedup_seen (x # seen) xs)"

definition dedup :: "'a list \<Rightarrow> 'a list" where
  "dedup xs = dedup_seen [] xs"

text \<open>\<open>new Map(pairs)\<close>: a later pair replaces an earlier one with the same key.\<close>

definition map_last :: "('k \<times> 'v) list \<Rightarrow> 'k \<Rightarrow> 'v option" where
  "map_last ps = map_of (rev ps)"

lemma find_index_Some:
  "find_index p xs = Some i \<longleftrightarrow> i < length xs \<and> p (xs ! i) \<and> (\<forall>j < i. \<not> p (xs ! j))"
proof (induction xs arbitrary: i)
  case Nil
  then show ?case by simp
next
  case (Cons x xs)
  show ?case
  proof (cases i)
    case 0
    then show ?thesis by auto
  next
    case (Suc k)
    then show ?thesis using Cons.IH[of k] by (auto simp: less_Suc_eq_0_disj)
  qed
qed

lemma find_index_None: "find_index p xs = None \<longleftrightarrow> (\<forall>x \<in> set xs. \<not> p x)"
  by (induction xs) auto

lemma find_last_index_None: "find_last_index p xs = None \<longleftrightarrow> (\<forall>x \<in> set xs. \<not> p x)"
  by (induction xs) (auto split: option.splits)

lemma all_Suc_shift: "(\<forall>j. Suc k < j \<longrightarrow> j < Suc n \<longrightarrow> P j) \<longleftrightarrow> (\<forall>j. k < j \<longrightarrow> j < n \<longrightarrow> P (Suc j))"
  by (metis Suc_less_eq Suc_less_eq2)

lemma find_last_index_Some:
  "find_last_index p xs = Some i \<longleftrightarrow>
     i < length xs \<and> p (xs ! i) \<and> (\<forall>j. i < j \<longrightarrow> j < length xs \<longrightarrow> \<not> p (xs ! j))"
proof (induction xs arbitrary: i)
  case Nil
  then show ?case by simp
next
  case (Cons x xs)
  show ?case
  proof (cases "find_last_index p xs")
    case None
    then have none: "\<forall>y \<in> set xs. \<not> p y" by (simp add: find_last_index_None)
    show ?thesis
    proof (cases i)
      case 0
      with None none show ?thesis by (auto simp: nth_Cons' all_set_conv_all_nth)
    next
      case (Suc k)
      with None none show ?thesis by (auto simp: all_set_conv_all_nth)
    qed
  next
    case (Some l)
    with Cons.IH[of l] have l: "l < length xs" "p (xs ! l)"
      and later: "\<forall>j. l < j \<longrightarrow> j < length xs \<longrightarrow> \<not> p (xs ! j)" by auto
    show ?thesis
    proof (cases i)
      case 0
      with Some l show ?thesis by (auto intro!: exI[of _ "Suc l"])
    next
      case (Suc k)
      have "find_last_index p xs = Some k \<longleftrightarrow> l = k" using Some by simp
      then show ?thesis using Suc Some Cons.IH[of k]
        by (auto simp: nth_Cons' all_Suc_shift)
    qed
  qed
qed

lemma set_dedup_seen: "set (dedup_seen seen xs) = set xs - set seen"
  by (induction xs arbitrary: seen) auto

lemma set_dedup [simp]: "set (dedup xs) = set xs"
  by (simp add: dedup_def set_dedup_seen)

lemma distinct_dedup_seen: "distinct (dedup_seen seen xs)"
  by (induction xs arbitrary: seen) (auto simp: set_dedup_seen)

lemma distinct_dedup [simp]: "distinct (dedup xs)"
  by (simp add: dedup_def distinct_dedup_seen)

lemma length_indexed [simp]: "length (indexed xs) = length xs"
  by (simp add: indexed_def)

lemma indexed_nth [simp]: "i < length xs \<Longrightarrow> indexed xs ! i = (i, xs ! i)"
  by (simp add: indexed_def)

lemma in_set_indexed: "(i, x) \<in> set (indexed xs) \<longleftrightarrow> i < length xs \<and> xs ! i = x"
  unfolding in_set_conv_nth by auto

lemma indexed_snoc: "indexed (xs @ [x]) = indexed xs @ [(length xs, x)]"
  by (simp add: indexed_def)

lemma map_snd_indexed [simp]: "map snd (indexed xs) = xs"
  by (simp add: indexed_def)

lemma ball_indexed: "(\<forall>p \<in> set (indexed xs). P (snd p)) \<longleftrightarrow> (\<forall>x \<in> set xs. P x)"
proof -
  have "set xs = snd ` set (indexed xs)" by (metis map_snd_indexed set_map)
  then show ?thesis by simp
qed

lemma nth_opt_Some: "nth_opt xs i = Some x \<longleftrightarrow> i < length xs \<and> xs ! i = x"
  by (auto simp: nth_opt_def)

lemma starts_with_iff: "starts_with p s \<longleftrightarrow> (\<exists>r. s = p @ r)"
  unfolding starts_with_def by (metis append_eq_conv_conj append_take_drop_id)

lemma ends_with_iff: "ends_with p s \<longleftrightarrow> (\<exists>r. s = r @ p)"
  unfolding ends_with_def by (metis append_eq_conv_conj append_take_drop_id diff_diff_cancel
    diff_le_self length_append length_drop le_add2 add_diff_cancel_right')

lemma index_of_Some:
  "index_of w s = Some i \<longleftrightarrow>
     i \<le> length s \<and> starts_with w (drop i s) \<and> (\<forall>j < i. \<not> starts_with w (drop j s))"
proof (induction s arbitrary: i)
  case Nil
  then show ?case by (auto simp: starts_with_def)
next
  case (Cons x xs)
  show ?case
  proof (cases i)
    case 0
    then show ?thesis by auto
  next
    case (Suc k)
    then show ?thesis using Cons.IH[of k] by (auto simp: less_Suc_eq_0_disj)
  qed
qed

lemma index_of_None:
  "index_of w s = None \<longleftrightarrow> (\<forall>i \<le> length s. \<not> starts_with w (drop i s))"
proof (induction s)
  case Nil
  then show ?case by (auto simp: starts_with_def)
next
  case (Cons x xs)
  have "(\<forall>i \<le> length (x # xs). \<not> starts_with w (drop i (x # xs))) \<longleftrightarrow>
      \<not> starts_with w (x # xs) \<and> (\<forall>i \<le> length xs. \<not> starts_with w (drop i xs))"
    by (metis Suc_le_mono drop0 drop_Suc_Cons length_Cons not0_implies_Suc zero_le)
  with Cons.IH show ?case by simp
qed

lemma includes_iff: "contains w s \<longleftrightarrow> (\<exists>a b. s = a @ w @ b)"
proof
  assume "contains w s"
  then obtain i where "index_of w s = Some i" by (auto simp: contains_def)
  then have "starts_with w (drop i s)" by (simp add: index_of_Some)
  then obtain r where "drop i s = w @ r" by (auto simp: starts_with_iff)
  then have "s = take i s @ w @ r" by (metis append_take_drop_id)
  then show "\<exists>a b. s = a @ w @ b" by blast
next
  assume "\<exists>a b. s = a @ w @ b"
  then obtain a b where s: "s = a @ w @ b" by blast
  then have "starts_with w (drop (length a) s)" "length a \<le> length s"
    by (auto simp: starts_with_iff)
  then show "contains w s" unfolding contains_def
    using index_of_None[of w s] by blast
qed

lemma slice_append_drop: "slice a b s @ drop (max a b) s = drop a s"
proof (cases "a \<le> b")
  case True
  then have "drop b s = drop (b - a) (drop a s)" by simp
  with True show ?thesis unfolding slice_def by (simp only: max_absorb2 append_take_drop_id)
qed (simp add: slice_def)

lemma length_slice: "length (slice a b s) = min (b - a) (length s - a)"
  by (simp add: slice_def)

lemma set_collapse_run: "x \<in> set (collapse_run p r inside s) \<Longrightarrow> x = r \<or> \<not> p x"
  by (induction p r inside s rule: collapse_run.induct) (auto split: if_splits)

lemma collapse_no_class: "\<not> p r \<Longrightarrow> x \<in> set (collapse p r s) \<Longrightarrow> \<not> p x"
  unfolding collapse_def by (drule set_collapse_run) auto

end
