(* ===== verification/Utf8.thy ===== *)
theory Utf8
  imports Prelude
begin

text \<open>
  UTF-8: what \<open>Buffer.byteLength(text, "utf8")\<close> counts and what \<open>hash.update(text)\<close> feeds to the
  digest. A lone surrogate is encoded as U+FFFD, as Node does. The lemmas bound the byte length
  by the unit length and show that the encoding loses nothing on strings without lone surrogates.
\<close>

section \<open>Encoding\<close>

type_synonym byte = "8 word"

definition pair_point :: "u16 \<Rightarrow> u16 \<Rightarrow> nat" where
  "pair_point u v = 0x10000 + (unat u - 0xd800) * 0x400 + (unat v - 0xdc00)"

definition unit_point :: "u16 \<Rightarrow> nat" where
  "unit_point u = (if high_surrogate u \<or> low_surrogate u then 0xfffd else unat u)"

fun code_points :: "jstring \<Rightarrow> nat list" where
  "code_points [] = []"
| "code_points [u] = [unit_point u]"
| "code_points (u # v # s) =
     (if high_surrogate u \<and> low_surrogate v then pair_point u v # code_points s
      else unit_point u # code_points (v # s))"

definition utf8_char :: "nat \<Rightarrow> byte list" where
  "utf8_char c =
     (if c < 0x80 then [of_nat c]
      else if c < 0x800 then [of_nat (0xc0 + c div 0x40), of_nat (0x80 + c mod 0x40)]
      else if c < 0x10000 then
        [of_nat (0xe0 + c div 0x1000), of_nat (0x80 + c div 0x40 mod 0x40), of_nat (0x80 + c mod 0x40)]
      else
        [of_nat (0xf0 + c div 0x40000), of_nat (0x80 + c div 0x1000 mod 0x40),
         of_nat (0x80 + c div 0x40 mod 0x40), of_nat (0x80 + c mod 0x40)])"

definition utf8 :: "jstring \<Rightarrow> byte list" where
  "utf8 s = concat (map utf8_char (code_points s))"

definition byte_length :: "jstring \<Rightarrow> nat" where
  "byte_length s = length (utf8 s)"

text \<open>No lone surrogate: the string is a sequence of Unicode scalar values.\<close>

fun well_formed :: "jstring \<Rightarrow> bool" where
  "well_formed [] = True"
| "well_formed [u] = (\<not> high_surrogate u \<and> \<not> low_surrogate u)"
| "well_formed (u # v # s) =
     (if high_surrogate u then low_surrogate v \<and> well_formed s
      else \<not> low_surrogate u \<and> well_formed (v # s))"

section \<open>Length\<close>

lemma high_not_low: "high_surrogate u \<Longrightarrow> \<not> low_surrogate u"
proof
  assume "high_surrogate u" and "low_surrogate u"
  then have "(0xdc00::u16) \<le> 0xdbff" unfolding high_surrogate_def low_surrogate_def
    by (meson order_trans)
  then show False by simp
qed

lemma unat_high: "high_surrogate u \<Longrightarrow> 0xd800 \<le> unat u \<and> unat u \<le> 0xdbff"
  by (simp add: high_surrogate_def word_le_nat_alt)

lemma unat_low: "low_surrogate u \<Longrightarrow> 0xdc00 \<le> unat u \<and> unat u \<le> 0xdfff"
  by (simp add: low_surrogate_def word_le_nat_alt)

lemma unat_u16: "unat (u :: u16) < 0x10000"
  using unsigned_less[of u] by simp

lemma unit_point_less: "unit_point u < 0x10000"
  using unat_u16[of u] by (simp add: unit_point_def)

lemma pair_point_bounds:
  assumes "high_surrogate u" and "low_surrogate v"
  shows "0x10000 \<le> pair_point u v" and "pair_point u v < 0x110000"
  using unat_high[OF assms(1)] unat_low[OF assms(2)] by (auto simp: pair_point_def)

lemma length_utf8_char: "1 \<le> length (utf8_char c)" "c < 0x10000 \<Longrightarrow> length (utf8_char c) \<le> 3"
  "length (utf8_char c) \<le> 4"
  by (auto simp: utf8_char_def)

lemma length_utf8_pair: "high_surrogate u \<Longrightarrow> low_surrogate v \<Longrightarrow> length (utf8_char (pair_point u v)) = 4"
  using pair_point_bounds[of u v] by (simp add: utf8_char_def)

lemma length_utf8_lone: "high_surrogate u \<or> low_surrogate u \<Longrightarrow> length (utf8_char (unit_point u)) = 3"
  by (simp add: unit_point_def utf8_char_def)

lemma byte_length_Nil [simp]: "byte_length [] = 0"
  by (simp add: byte_length_def utf8_def)

lemma byte_length_rec:
  "byte_length [u] = length (utf8_char (unit_point u))"
  "byte_length (u # v # s) =
     (if high_surrogate u \<and> low_surrogate v then 4 + byte_length s
      else length (utf8_char (unit_point u)) + byte_length (v # s))"
  by (auto simp: byte_length_def utf8_def length_utf8_pair)

lemma byte_length_upper: "byte_length s \<le> 3 * length s"
proof (induction s rule: code_points.induct)
  case (3 u v s)
  then show ?case using length_utf8_char(2)[OF unit_point_less[of u]] by (auto simp: byte_length_rec)
qed (auto simp: byte_length_rec length_utf8_char unit_point_less)

lemma byte_length_lower: "length s \<le> byte_length s"
proof (induction s rule: code_points.induct)
  case (3 u v s)
  then show ?case using length_utf8_char(1)[of "unit_point u"] by (auto simp: byte_length_rec)
qed (use length_utf8_char(1) in \<open>auto simp: byte_length_rec\<close>)

lemma byte_length_Cons_le: "byte_length s \<le> byte_length (u # s)"
proof (cases s)
  case (Cons v t)
  show ?thesis
  proof (cases "high_surrogate u \<and> low_surrogate v")
    case True
    then have "byte_length (v # t) \<le> 3 + byte_length t"
      using length_utf8_lone[of v] high_not_low[of v] by (cases t) (auto simp: byte_length_rec)
    with True Cons show ?thesis by (simp add: byte_length_rec)
  qed (auto simp: Cons byte_length_rec)
qed simp

lemma byte_length_append_le: "byte_length (a @ b) \<le> byte_length a + byte_length b"
proof (induction a rule: code_points.induct)
  case (2 u)
  show ?case
  proof (cases b)
    case (Cons v t)
    show ?thesis
    proof (cases "high_surrogate u \<and> low_surrogate v")
      case True
      have "byte_length t \<le> byte_length (v # t)" by (rule byte_length_Cons_le)
      then show ?thesis using True Cons length_utf8_lone[of u] length_utf8_lone[of v]
          high_not_low[of v]
        by (cases t) (auto simp: byte_length_rec)
    qed (auto simp: Cons byte_length_rec)
  qed simp
next
  case (3 u v s)
  then show ?case by (auto simp: byte_length_rec)
qed simp

lemma byte_length_prefix: "byte_length a \<le> byte_length (a @ b)"
proof (induction a rule: code_points.induct)
  case (2 u)
  show ?case
  proof (cases b)
    case (Cons v t)
    then show ?thesis using length_utf8_lone[of u] by (auto simp: byte_length_rec)
  qed simp
next
  case (3 u v s)
  then show ?case by (auto simp: byte_length_rec)
qed simp

lemma byte_length_take_mono: "i \<le> j \<Longrightarrow> byte_length (take i s) \<le> byte_length (take j s)"
  using byte_length_prefix[of "take i s" "take (j - i) (drop i s)"]
  by (metis le_add_diff_inverse take_add)

section \<open>Injectivity\<close>

lemma unat_of_nat_byte: "n < 256 \<Longrightarrow> unat (of_nat n :: byte) = n"
  by (simp add: unat_of_nat)

definition decode_char :: "byte list \<Rightarrow> (nat \<times> byte list) option" where
  "decode_char bs =
     (case bs of [] \<Rightarrow> None
      | b # r \<Rightarrow>
        (if unat b < 0x80 then Some (unat b, r)
         else if unat b < 0xe0 then
           (case r of x # r' \<Rightarrow> Some ((unat b - 0xc0) * 0x40 + (unat x - 0x80), r') | _ \<Rightarrow> None)
         else if unat b < 0xf0 then
           (case r of x # y # r' \<Rightarrow>
              Some ((unat b - 0xe0) * 0x1000 + (unat x - 0x80) * 0x40 + (unat y - 0x80), r') | _ \<Rightarrow> None)
         else
           (case r of x # y # z # r' \<Rightarrow>
              Some ((unat b - 0xf0) * 0x40000 + (unat x - 0x80) * 0x1000 + (unat y - 0x80) * 0x40
                + (unat z - 0x80), r') | _ \<Rightarrow> None)))"

lemma split_three: "c div 0x1000 * 0x1000 + c div 0x40 mod 0x40 * 0x40 + c mod 0x40 = (c :: nat)"
proof -
  have "c div 0x1000 = c div 0x40 div 0x40" by (simp add: div_mult2_eq[symmetric])
  then show ?thesis
    using div_mult_mod_eq[of c "0x40"] div_mult_mod_eq[of "c div 0x40" "0x40"] by linarith
qed

lemma split_four: "c div 0x40000 * 0x40000 + c div 0x1000 mod 0x40 * 0x1000
    + c div 0x40 mod 0x40 * 0x40 + c mod 0x40 = (c :: nat)"
proof -
  have "c div 0x40000 = c div 0x1000 div 0x40" by (simp add: div_mult2_eq[symmetric])
  then show ?thesis
    using split_three[of c] div_mult_mod_eq[of "c div 0x1000" "0x40"] by linarith
qed

lemma decode_utf8_char:
  assumes "c < 0x110000"
  shows "decode_char (utf8_char c @ r) = Some (c, r)"
proof -
  consider "c < 0x80" | "0x80 \<le> c" "c < 0x800" | "0x800 \<le> c" "c < 0x10000" | "0x10000 \<le> c" "c < 0x110000"
    using assms by linarith
  then show ?thesis
  proof cases
    case 1
    then show ?thesis by (simp add: utf8_char_def decode_char_def unat_of_nat_byte)
  next
    case 2
    then have "c div 0x40 < 0x20" by (simp add: div_less_iff_less_mult)
    with 2 show ?thesis
      by (simp add: utf8_char_def decode_char_def unat_of_nat_byte del: of_nat_add)
  next
    case 3
    then have "c div 0x1000 < 0x10" by (simp add: div_less_iff_less_mult)
    moreover have "c div 0x1000 * 0x1000 + c div 0x40 mod 0x40 * 0x40 + c mod 0x40 = c"
      by (rule split_three)
    moreover have "\<not> c < 0x80" "\<not> c < 0x800" using 3 by auto
    ultimately show ?thesis using 3
      by (simp add: utf8_char_def decode_char_def unat_of_nat_byte del: of_nat_add)
  next
    case 4
    then have "c div 0x40000 < 0x10" by (simp add: div_less_iff_less_mult)
    moreover have "c div 0x40000 * 0x40000 + c div 0x1000 mod 0x40 * 0x1000
        + c div 0x40 mod 0x40 * 0x40 + c mod 0x40 = c"
      by (rule split_four)
    moreover have "\<not> c < 0x80" "\<not> c < 0x800" "\<not> c < 0x10000" using 4 by auto
    ultimately show ?thesis using 4
      by (simp add: utf8_char_def decode_char_def unat_of_nat_byte del: of_nat_add)
  qed
qed

lemma concat_utf8_inj:
  assumes "\<forall>c \<in> set xs. c < 0x110000" and "\<forall>c \<in> set ys. c < 0x110000"
    and "concat (map utf8_char xs) = concat (map utf8_char ys)"
  shows "xs = ys"
  using assms
proof (induction xs arbitrary: ys)
  case Nil
  show ?case
  proof (cases ys)
    case (Cons y zs)
    with Nil length_utf8_char(1)[of y] show ?thesis by auto
  qed simp
next
  case (Cons x xs)
  then obtain y zs where ys: "ys = y # zs"
    using length_utf8_char(1)[of x] by (cases ys) auto
  with Cons.prems have "decode_char (utf8_char x @ concat (map utf8_char xs)) =
      decode_char (utf8_char y @ concat (map utf8_char zs))" by simp
  moreover have "x < 0x110000" "y < 0x110000" using Cons.prems ys by auto
  ultimately have "x = y" and "concat (map utf8_char xs) = concat (map utf8_char zs)"
    by (simp_all add: decode_utf8_char)
  moreover from this Cons.prems ys have "xs = zs" by (intro Cons.IH) simp_all
  ultimately show ?case using ys by simp
qed

lemma code_points_less: "c \<in> set (code_points s) \<Longrightarrow> c < 0x110000"
proof (induction s rule: code_points.induct)
  case (2 u)
  then show ?case using unit_point_less[of u] by auto
next
  case (3 u v s)
  then show ?case using unit_point_less[of u] pair_point_bounds(2)[of u v] by (auto split: if_splits)
qed auto

fun point_units :: "nat list \<Rightarrow> jstring" where
  "point_units [] = []"
| "point_units (c # cs) =
     (if c < 0x10000 then of_nat c # point_units cs
      else of_nat (0xd800 + (c - 0x10000) div 0x400) # of_nat (0xdc00 + (c - 0x10000) mod 0x400)
        # point_units cs)"

lemma point_units_pair:
  assumes "high_surrogate u" and "low_surrogate v"
  shows "point_units (pair_point u v # cs) = u # v # point_units cs"
proof -
  define h l where "h = unat u - 0xd800" and "l = unat v - 0xdc00"
  have "l < 0x400" and u: "unat u = 0xd800 + h" and v: "unat v = 0xdc00 + l"
    using unat_high[OF assms(1)] unat_low[OF assms(2)] by (auto simp: h_def l_def)
  have p: "pair_point u v - 0x10000 = h * 0x400 + l" "\<not> pair_point u v < 0x10000"
    by (auto simp: pair_point_def h_def l_def)
  have "(h * 0x400 + l) div 0x400 = h" "(h * 0x400 + l) mod 0x400 = l"
    using \<open>l < 0x400\<close> by auto
  then have "point_units (pair_point u v # cs) = of_nat (unat u) # of_nat (unat v) # point_units cs"
    unfolding u v using p by (simp del: of_nat_add of_nat_unat)
  then show ?thesis by simp
qed

lemma point_units_code_points: "well_formed s \<Longrightarrow> point_units (code_points s) = s"
proof (induction s rule: well_formed.induct)
  case (2 u)
  then show ?case using unat_u16[of u] by (simp add: unit_point_def)
next
  case (3 u v s)
  show ?case
  proof (cases "high_surrogate u")
    case True
    with 3 show ?thesis by (simp add: point_units_pair del: point_units.simps(2))
  next
    case False
    with 3 show ?thesis using unat_u16[of u] by (simp add: unit_point_def)
  qed
qed simp

lemma code_points_inj:
  "well_formed a \<Longrightarrow> well_formed b \<Longrightarrow> code_points a = code_points b \<Longrightarrow> a = b"
  by (metis point_units_code_points)

lemma utf8_inj: "well_formed a \<Longrightarrow> well_formed b \<Longrightarrow> utf8 a = utf8 b \<Longrightarrow> a = b"
  unfolding utf8_def by (rule code_points_inj) (auto intro!: concat_utf8_inj dest: code_points_less)

text \<open>Units outside the surrogate range, ASCII ones among them, are encoded one by one.\<close>

definition plain_unit :: "u16 \<Rightarrow> bool" where
  "plain_unit u \<longleftrightarrow> \<not> high_surrogate u \<and> \<not> low_surrogate u"

lemma well_formed_plain: "\<forall>u \<in> set s. plain_unit u \<Longrightarrow> well_formed s"
  by (induction s rule: well_formed.induct) (auto simp: plain_unit_def)

lemma well_formed_append:
  "well_formed a \<Longrightarrow> well_formed b \<Longrightarrow> well_formed (a @ b)"
proof (induction a rule: well_formed.induct)
  case (2 u)
  then show ?case by (cases b) auto
qed (auto split: if_splits)

lemma code_points_append: "well_formed a \<Longrightarrow> code_points (a @ b) = code_points a @ code_points b"
proof (induction a rule: well_formed.induct)
  case (2 u)
  then show ?case by (cases b) auto
next
  case (3 u v s)
  then show ?case by (auto dest: high_not_low split: if_splits)
qed auto

lemma utf8_append: "well_formed a \<Longrightarrow> utf8 (a @ b) = utf8 a @ utf8 b"
  by (simp add: utf8_def code_points_append)

lemma byte_length_append: "well_formed a \<Longrightarrow> byte_length (a @ b) = byte_length a + byte_length b"
  by (simp add: byte_length_def utf8_append)

lemma js_plain: "u \<in> set (js s) \<Longrightarrow> plain_unit u"
proof -
  assume "u \<in> set (js s)"
  then obtain c where c: "u = of_char c" by (auto simp: js_def)
  have "(of_char c :: nat) < 256" by simp
  then have "unat u < 256" by (simp add: c unat_of_char_u16)
  then show ?thesis by (auto simp: plain_unit_def dest: unat_high unat_low)
qed

lemma well_formed_js [simp]: "well_formed (js s)"
  by (rule well_formed_plain) (auto dest: js_plain)

end
