(* ===== verification/Json.thy ===== *)
theory Json
  imports Utf8
begin

text \<open>
  JavaScript values as the core reads and writes them, and \<open>JSON.stringify\<close>.

  \<^item> A number is \<open>JInt i\<close> when ECMAScript prints it as plain decimal digits, \<open>JDec t\<close> when it prints
    it with a fraction or an exponent (\<open>t\<close> is that text, which determines the number), and
    \<open>JNonFinite\<close> for NaN and the infinities.
  \<^item> An object is its own properties in enumeration order (\<open>js_object\<close> gives that order:
    array indices first, then insertion order, a repeated key keeping its first place).
  \<^item> \<open>JUndef\<close> is \<open>undefined\<close>: dropped from an object and printed as \<open>null\<close> in an array.
\<close>

section \<open>Values\<close>

datatype jsnum = JInt int | JDec jstring | JNonFinite

datatype jsval =
    JUndef
  | JNull
  | JBool bool
  | JNum jsnum
  | JStr jstring
  | JArr "jsval list"
  | JObj "(jstring \<times> jsval) list"

text \<open>\<open>isRecord\<close> of identity.ts: an object that is neither null nor an array.\<close>

definition isRecord :: "jsval \<Rightarrow> bool" where
  "isRecord v = (case v of JObj _ \<Rightarrow> True | _ \<Rightarrow> False)"

text \<open>Property access \<open>v.key\<close> on a record; an absent property is \<open>undefined\<close>.\<close>

definition jget :: "jsval \<Rightarrow> jstring \<Rightarrow> jsval" where
  "jget v k = (case v of JObj ps \<Rightarrow> (case map_of ps k of Some x \<Rightarrow> x | None \<Rightarrow> JUndef) | _ \<Rightarrow> JUndef)"

abbreviation jfield :: "jsval \<Rightarrow> string \<Rightarrow> jsval" where
  "jfield v k \<equiv> jget v (js k)"

definition keys_of :: "jsval \<Rightarrow> jstring list" where
  "keys_of v = (case v of JObj ps \<Rightarrow> map fst ps | _ \<Rightarrow> [])"

fun as_str :: "jsval \<Rightarrow> jstring option" where
  "as_str (JStr s) = Some s"
| "as_str _ = None"

fun as_arr :: "jsval \<Rightarrow> jsval list option" where
  "as_arr (JArr xs) = Some xs"
| "as_arr _ = None"

fun as_int :: "jsval \<Rightarrow> int option" where
  "as_int (JNum (JInt i)) = Some i"
| "as_int _ = None"

text \<open>\<open>Number.isSafeInteger\<close>.\<close>

definition max_safe_integer :: int where
  "max_safe_integer = 9007199254740991"

definition is_safe_integer :: "jsval \<Rightarrow> bool" where
  "is_safe_integer v = (case as_int v of Some i \<Rightarrow> \<bar>i\<bar> \<le> max_safe_integer | None \<Rightarrow> False)"

section \<open>Property order\<close>

fun digits_value :: "nat \<Rightarrow> jstring \<Rightarrow> nat option" where
  "digits_value acc [] = Some acc"
| "digits_value acc (u # s) =
     (if 0x30 \<le> u \<and> u \<le> 0x39 then digits_value (10 * acc + (unat u - 0x30)) s else None)"

text \<open>An array index: the canonical decimal text of a number below \<open>2\<^sup>32 - 1\<close>.\<close>

definition index_key :: "jstring \<Rightarrow> nat option" where
  "index_key k =
     (if k = [] \<or> (hd k = 0x30 \<and> tl k \<noteq> []) then None
      else case digits_value 0 k of Some n \<Rightarrow> if n < 4294967295 then Some n else None | None \<Rightarrow> None)"

fun obj_put :: "jstring \<Rightarrow> 'v \<Rightarrow> (jstring \<times> 'v) list \<Rightarrow> (jstring \<times> 'v) list" where
  "obj_put k v [] = [(k, v)]"
| "obj_put k v ((l, w) # ps) = (if l = k then (k, v) # ps else (l, w) # obj_put k v ps)"

text \<open>Writing the pairs one after the other keeps one property per key, in first-write order.\<close>

definition write_props :: "(jstring \<times> 'v) list \<Rightarrow> (jstring \<times> 'v) list" where
  "write_props ps = fold (\<lambda>p. obj_put (fst p) (snd p)) ps []"

definition is_index :: "jstring \<times> 'v \<Rightarrow> bool" where
  "is_index p \<longleftrightarrow> index_key (fst p) \<noteq> None"

definition key_order :: "(jstring \<times> 'v) list \<Rightarrow> (jstring \<times> 'v) list" where
  "key_order qs = sort_key (\<lambda>p. the (index_key (fst p))) (filter is_index qs) @ filter (\<lambda>p. \<not> is_index p) qs"

definition js_object :: "(jstring \<times> 'v) list \<Rightarrow> (jstring \<times> 'v) list" where
  "js_object ps = key_order (write_props ps)"

section \<open>Printing\<close>

definition hex_digit :: "nat \<Rightarrow> u16" where
  "hex_digit n = (if n < 10 then of_nat (0x30 + n) else of_nat (0x57 + n))"

definition unicode_escape :: "u16 \<Rightarrow> jstring" where
  "unicode_escape u = (let n = unat u in
     [0x5c, 0x75, hex_digit (n div 0x1000), hex_digit (n div 0x100 mod 0x10),
      hex_digit (n div 0x10 mod 0x10), hex_digit (n mod 0x10)])"

definition quote_unit :: "u16 \<Rightarrow> jstring" where
  "quote_unit u =
     (if u = 0x22 then [0x5c, 0x22] else if u = 0x5c then [0x5c, 0x5c]
      else if u = 0x08 then [0x5c, 0x62] else if u = 0x0c then [0x5c, 0x66]
      else if u = 0x0a then [0x5c, 0x6e] else if u = 0x0d then [0x5c, 0x72]
      else if u = 0x09 then [0x5c, 0x74]
      else if u < 0x20 \<or> high_surrogate u \<or> low_surrogate u then unicode_escape u
      else [u])"

fun quote_units :: "jstring \<Rightarrow> jstring" where
  "quote_units [] = []"
| "quote_units [u] = quote_unit u"
| "quote_units (u # v # s) =
     (if high_surrogate u \<and> low_surrogate v then u # v # quote_units s
      else quote_unit u @ quote_units (v # s))"

definition quote :: "jstring \<Rightarrow> jstring" where
  "quote s = 0x22 # quote_units s @ [0x22]"

fun nat_str :: "nat \<Rightarrow> jstring" where
  "nat_str n = (if n < 10 then [of_nat (0x30 + n)] else nat_str (n div 10) @ [of_nat (0x30 + n mod 10)])"

declare nat_str.simps [simp del]

definition int_str :: "int \<Rightarrow> jstring" where
  "int_str i = (if i < 0 then 0x2d # nat_str (nat (- i)) else nat_str (nat i))"

fun num_str :: "jsnum \<Rightarrow> jstring" where
  "num_str (JInt i) = int_str i"
| "num_str (JDec t) = t"
| "num_str JNonFinite = js ''null''"

fun stringify :: "jsval \<Rightarrow> jstring"
and elems_str :: "jsval list \<Rightarrow> jstring list"
and members_str :: "(jstring \<times> jsval) list \<Rightarrow> jstring list" where
  "stringify JUndef = js ''null''"
| "stringify JNull = js ''null''"
| "stringify (JBool b) = (if b then js ''true'' else js ''false'')"
| "stringify (JNum n) = num_str n"
| "stringify (JStr s) = quote s"
| "stringify (JArr xs) = [0x5b] @ join [0x2c] (elems_str xs) @ [0x5d]"
| "stringify (JObj ps) = [0x7b] @ join [0x2c] (members_str ps) @ [0x7d]"
| "elems_str [] = []"
| "elems_str (x # xs) = stringify x # elems_str xs"
| "members_str [] = []"
| "members_str ((k, v) # ps) =
     (if v = JUndef then members_str ps else (quote k @ [0x3a] @ stringify v) # members_str ps)"

text \<open>\<open>JSON.stringify\<close> itself: \<open>undefined\<close> for \<open>undefined\<close>.\<close>

definition stringify_opt :: "jsval \<Rightarrow> jstring option" where
  "stringify_opt v = (if v = JUndef then None else Some (stringify v))"

section \<open>Well-formed values\<close>

definition digit_unit :: "u16 \<Rightarrow> bool" where
  "digit_unit u \<longleftrightarrow> 0x30 \<le> u \<and> u \<le> 0x39"

text \<open>The units of a number's text: digits, sign, point and exponent mark.\<close>

definition number_unit :: "u16 \<Rightarrow> bool" where
  "number_unit u \<longleftrightarrow> digit_unit u \<or> u \<in> {0x2b, 0x2d, 0x2e, 0x45, 0x65}"

definition digits_text :: "jstring \<Rightarrow> bool" where
  "digits_text t \<longleftrightarrow> t \<noteq> [] \<and> (\<forall>u \<in> set t. digit_unit u)"

definition unsigned_text :: "jstring \<Rightarrow> jstring" where
  "unsigned_text t = (if t \<noteq> [] \<and> hd t = 0x2d then tl t else t)"

text \<open>The JSON grammar of numbers: an integer part with no leading zero, a fraction, an exponent.\<close>

definition exponent_text :: "jstring \<Rightarrow> bool" where
  "exponent_text t \<longleftrightarrow> t = [] \<or>
     (hd t = 0x65 \<or> hd t = 0x45) \<and>
     (let r = tl t in digits_text (if r \<noteq> [] \<and> (hd r = 0x2b \<or> hd r = 0x2d) then tl r else r))"

definition number_text :: "jstring \<Rightarrow> bool" where
  "number_text t =
     (let u = unsigned_text t; whole = takeWhile digit_unit u; r = dropWhile digit_unit u;
          frac = (if r \<noteq> [] \<and> hd r = 0x2e then takeWhile digit_unit (tl r) else []);
          r' = (if r \<noteq> [] \<and> hd r = 0x2e then dropWhile digit_unit (tl r) else r)
      in whole \<noteq> [] \<and> \<not> (hd whole = 0x30 \<and> tl whole \<noteq> []) \<and>
         (r \<noteq> [] \<and> hd r = 0x2e \<longrightarrow> frac \<noteq> []) \<and> exponent_text r')"

text \<open>A finite number: an integer, or the text of a number that is not plain digits.\<close>

fun num_ok :: "jsnum \<Rightarrow> bool" where
  "num_ok (JInt i) = (\<bar>i\<bar> < 10 ^ 21)"
| "num_ok (JDec t) = (number_text t \<and> (\<forall>u \<in> set t. number_unit u) \<and> \<not> digits_text (unsigned_text t))"
| "num_ok JNonFinite = False"

text \<open>
  A JSON value: no \<open>undefined\<close>, finite numbers, and objects that \<open>mk\<close> (the making of an object from
  its members) leaves alone: \<open>js_object\<close> for values in property order, \<open>id\<close> for any order.
\<close>

fun ok_by :: "((jstring \<times> jsval) list \<Rightarrow> (jstring \<times> jsval) list) \<Rightarrow> jsval \<Rightarrow> bool" where
  "ok_by mk JUndef = False"
| "ok_by mk JNull = True"
| "ok_by mk (JBool _) = True"
| "ok_by mk (JNum n) = num_ok n"
| "ok_by mk (JStr _) = True"
| "ok_by mk (JArr xs) = (\<forall>x \<in> set xs. ok_by mk x)"
| "ok_by mk (JObj ps) = (mk ps = ps \<and> (\<forall>p \<in> set ps. ok_by mk (snd p)))"

abbreviation json_ok :: "jsval \<Rightarrow> bool" where
  "json_ok \<equiv> ok_by js_object"

lemma ok_by_id: "ok_by mk v \<Longrightarrow> ok_by id v"
proof (induction v)
  case (JObj ps)
  have "ok_by id v" if "(k, v) \<in> set ps" for k v
    using JObj.prems that by (intro JObj.IH[OF that]) auto
  then show ?case by (auto simp: id_def)
qed auto

section \<open>Facts on access and order\<close>

lemma jget_JObj: "jget (JObj ps) k = (case map_of ps k of Some x \<Rightarrow> x | None \<Rightarrow> JUndef)"
  by (simp add: jget_def)

lemma jget_Cons [simp]: "jget (JObj ((l, v) # ps)) k = (if l = k then v else jget (JObj ps) k)"
  by (simp add: jget_def)

lemma jget_Nil [simp]: "jget (JObj []) k = JUndef"
  by (simp add: jget_def)

lemma isRecord_JObj [simp]: "isRecord (JObj ps)"
  by (simp add: isRecord_def)

lemma isRecord_iff: "isRecord v \<longleftrightarrow> (\<exists>ps. v = JObj ps)"
  by (cases v) (auto simp: isRecord_def)

lemma isRecord_simps [simp]:
  "\<not> isRecord JUndef" "\<not> isRecord JNull" "\<not> isRecord (JBool b)" "\<not> isRecord (JNum n)"
  "\<not> isRecord (JStr s)" "\<not> isRecord (JArr xs)"
  by (auto simp: isRecord_def)

lemma as_str_Some [simp]: "as_str v = Some s \<longleftrightarrow> v = JStr s"
  by (cases v) auto

lemma as_arr_Some [simp]: "as_arr v = Some xs \<longleftrightarrow> v = JArr xs"
  by (cases v) auto

lemma as_int_Some [simp]: "as_int v = Some i \<longleftrightarrow> v = JNum (JInt i)"
  by (cases v rule: as_int.cases) auto

lemma set_obj_put: "set (map fst (obj_put k v ps)) = insert k (set (map fst ps))"
  by (induction k v ps rule: obj_put.induct) auto

lemma distinct_obj_put: "distinct (map fst ps) \<Longrightarrow> distinct (map fst (obj_put k v ps))"
proof (induction k v ps rule: obj_put.induct)
  case (2 k v l w ps)
  then show ?case using set_obj_put[of k v ps] by auto
qed simp

lemma distinct_fold_obj_put:
  "distinct (map fst acc) \<Longrightarrow> distinct (map fst (fold (\<lambda>p. obj_put (fst p) (snd p)) ps acc))"
  by (induction ps arbitrary: acc) (auto simp: distinct_obj_put)

lemma obj_put_fresh: "k \<notin> fst ` set ps \<Longrightarrow> obj_put k v ps = ps @ [(k, v)]"
  by (induction k v ps rule: obj_put.induct) auto

lemma fold_obj_put_fresh:
  "distinct (map fst (acc @ ps)) \<Longrightarrow> fold (\<lambda>p. obj_put (fst p) (snd p)) ps acc = acc @ ps"
proof (induction ps arbitrary: acc)
  case (Cons p ps)
  from Cons.prems have "obj_put (fst p) (snd p) acc = acc @ [p]"
    using obj_put_fresh[of "fst p" acc "snd p"] by auto
  with Cons.IH[of "acc @ [p]"] Cons.prems show ?case by simp
qed simp

lemma write_props_distinct: "distinct (map fst (write_props ps))"
  by (simp add: write_props_def distinct_fold_obj_put)

lemma write_props_id: "distinct (map fst ps) \<Longrightarrow> write_props ps = ps"
  using fold_obj_put_fresh[of "[]" ps] by (simp add: write_props_def)

lemma mset_key_order: "mset (key_order qs) = mset qs"
  by (simp add: key_order_def)

lemma js_object_distinct: "distinct (map fst (js_object ps))"
proof -
  have "mset (map fst (js_object ps)) = mset (map fst (write_props ps))"
    by (metis js_object_def mset_key_order mset_map)
  then show ?thesis using write_props_distinct[of ps] by (metis mset_eq_imp_distinct_iff)
qed

lemma js_object_fixed_distinct: "js_object ps = ps \<Longrightarrow> distinct (map fst ps)"
  using js_object_distinct[of ps] by simp

lemma mset_js_object: "distinct (map fst ps) \<Longrightarrow> mset (js_object ps) = mset ps"
  by (simp add: js_object_def mset_key_order write_props_id)

text \<open>An object literal whose keys are distinct names is in property order.\<close>

lemma key_order_names: "\<forall>p \<in> set ps. index_key (fst p) = None \<Longrightarrow> key_order ps = ps"
  by (simp add: key_order_def is_index_def filter_empty_conv cong: filter_cong)

lemma js_object_names:
  "distinct (map fst ps) \<Longrightarrow> \<forall>p \<in> set ps. index_key (fst p) = None \<Longrightarrow> js_object ps = ps"
  by (simp add: js_object_def write_props_id key_order_names)

lemma index_key_name:
  "u # s = k \<Longrightarrow> \<not> digit_unit u \<Longrightarrow> index_key k = None"
  by (auto simp: index_key_def digit_unit_def)

end
