(* ===== verification/Records.thy ===== *)
theory Records
  imports Json
begin

text \<open>
  \<^bold>\<open>records.ts\<close>: the structural record model, and the readings of a record that the whole core
  shares (\<open>sourceText\<close>, \<open>sourceRole\<close>, \<open>inProgressRequests\<close> of notes.ts).

  A session record is a record of the common fields with its kind-specific payload as a datatype.
  Optional strings are options; opaque JSON payloads (blocks, details, data, replacement) stay
  values, with \<open>JUndef\<close> for an absent one. \<open>r_native\<close> is the object itself, as \<open>JSON.stringify\<close>
  of the host sees it; the other fields are the structural reading of that object.
\<close>

section \<open>Record types\<close>

type_synonym block = jsval

datatype content = Plain jstring | Blocks "block list"

record message =
  m_role :: jstring
  m_content :: "content option"
  m_stopReason :: "jstring option"
  m_errorMessage :: "jstring option"
  m_toolCallId :: "jstring option"
  m_toolName :: "jstring option"
  m_isError :: "bool option"
  m_command :: "jstring option"
  m_output :: "jstring option"
  m_exitCode :: "jsnum option"
  m_fullOutputPath :: "jstring option"
  m_excludeFromContext :: "bool option"

record compaction =
  c_summary :: jstring
  c_firstKeptEntryId :: jstring
  c_tokensBefore :: jsnum
  c_details :: jsval

datatype body =
    Message message
  | Compaction compaction
  | Custom (customType: jstring) (custom_data: jsval)
  | CustomMessage content
  | BranchSummary jstring
  | ContextEdit (targetId: jstring) (replacement: jsval)
  | OtherKind jstring

record session_record =
  r_id :: jstring
  r_parent :: "jstring option"
  r_time :: jstring
  r_body :: body
  r_native :: jsval

record 'm projected_record =
  sourceEntry :: jstring
  p_messages :: "'m list"

type_synonym 'm projection = "'m projected_record list"

fun body_type :: "body \<Rightarrow> jstring" where
  "body_type (Message _) = js ''message''"
| "body_type (Compaction _) = js ''compaction''"
| "body_type (Custom _ _) = js ''custom''"
| "body_type (CustomMessage _) = js ''custom_message''"
| "body_type (BranchSummary _) = js ''branch_summary''"
| "body_type (ContextEdit _ _) = js ''context_edit''"
| "body_type (OtherKind k) = k"

abbreviation r_type :: "session_record \<Rightarrow> jstring" where
  "r_type r \<equiv> body_type (r_body r)"

section \<open>Kind tests\<close>

definition is_compaction :: "session_record \<Rightarrow> bool" where
  "is_compaction r = (case r_body r of Compaction _ \<Rightarrow> True | _ \<Rightarrow> False)"

definition is_user :: "session_record \<Rightarrow> bool" where
  "is_user r = (case r_body r of Message m \<Rightarrow> m_role m = js ''user'' | _ \<Rightarrow> False)"

text \<open>A completed response: the boundary every turn-sensitive rule uses.\<close>

definition is_completed :: "session_record \<Rightarrow> bool" where
  "is_completed r = (case r_body r of
     Message m \<Rightarrow> m_role m = js ''assistant'' \<and> m_stopReason m = Some (js ''stop'') | _ \<Rightarrow> False)"

lemma is_user_not_compaction [simp]: "is_user r \<Longrightarrow> \<not> is_compaction r"
  by (auto simp: is_user_def is_compaction_def split: body.splits)

lemma is_user_not_completed [simp]: "is_user r \<Longrightarrow> \<not> is_completed r"
  by (auto simp: is_user_def is_completed_def split: body.splits)

section \<open>Content blocks\<close>

definition b_type :: "block \<Rightarrow> jstring" where
  "b_type b = (case jfield b ''type'' of JStr s \<Rightarrow> s | _ \<Rightarrow> [])"

text \<open>A string field of a block; joining an absent one prints nothing.\<close>

definition b_str :: "string \<Rightarrow> block \<Rightarrow> jstring" where
  "b_str k b = (case jfield b k of JStr s \<Rightarrow> s | _ \<Rightarrow> [])"

abbreviation b_text :: "block \<Rightarrow> jstring" where
  "b_text \<equiv> b_str ''text''"

definition opt_str :: "jstring option \<Rightarrow> jsval" where
  "opt_str s = (case s of None \<Rightarrow> JUndef | Some t \<Rightarrow> JStr t)"

definition opt_num :: "jsnum option \<Rightarrow> jsval" where
  "opt_num n = (case n of None \<Rightarrow> JUndef | Some k \<Rightarrow> JNum k)"

definition opt_bool :: "bool option \<Rightarrow> jsval" where
  "opt_bool b = (case b of None \<Rightarrow> JUndef | Some c \<Rightarrow> JBool c)"

lemma opt_inj [simp]:
  "opt_str a = opt_str b \<longleftrightarrow> a = b" "opt_num n = opt_num m \<longleftrightarrow> n = m" "opt_bool c = opt_bool d \<longleftrightarrow> c = d"
  by (auto simp: opt_str_def opt_num_def opt_bool_def split: option.splits)

section \<open>The readable text of a record\<close>

text \<open>A literal object whose keys are fixed names, in the order they are written.\<close>

definition obj :: "(string \<times> jsval) list \<Rightarrow> jsval" where
  "obj ps = JObj (map (apfst js) ps)"

definition block_text :: "block \<Rightarrow> jstring" where
  "block_text b =
     (if b_type b = js ''text'' then b_text b
      else if b_type b = js ''toolCall'' then
        stringify (obj [(''tool'', jfield b ''name''), (''arguments'', jfield b ''arguments'')])
      else js ''['' @ b_type b @ js '' content retained in original session; not inferred in text notes]'')"

definition part_text :: "block \<Rightarrow> jstring" where
  "part_text b = (if b_type b = js ''text'' then b_text b else js ''[image retained in original session]'')"

abbreviation newline :: jstring where
  "newline \<equiv> [0x0a]"

definition message_text :: "message \<Rightarrow> jstring" where
  "message_text m =
     (if m_role m = js ''bashExecution'' then
        stringify (obj [(''command'', opt_str (m_command m)), (''output'', opt_str (m_output m)),
          (''exitCode'', opt_num (m_exitCode m)), (''fullOutputPath'', opt_str (m_fullOutputPath m))])
      else (case m_content m of
          Some (Plain s) \<Rightarrow> s
        | Some (Blocks bs) \<Rightarrow> join newline (map block_text bs)
        | None \<Rightarrow> []))"

definition sourceText :: "session_record \<Rightarrow> jstring" where
  "sourceText r = (case r_body r of
       Message m \<Rightarrow> message_text m
     | CustomMessage (Plain s) \<Rightarrow> s
     | CustomMessage (Blocks bs) \<Rightarrow> join newline (map part_text bs)
     | BranchSummary s \<Rightarrow> s
     | _ \<Rightarrow> [])"

definition sourceRole :: "session_record \<Rightarrow> jstring" where
  "sourceRole r = (case r_body r of Message m \<Rightarrow> m_role m | b \<Rightarrow> body_type b)"

text \<open>Original requests since the last completed response.\<close>

definition inProgressRequests :: "session_record list \<Rightarrow> session_record list" where
  "inProgressRequests branch =
     filter is_user (case find_last_index is_completed branch of
         None \<Rightarrow> branch | Some i \<Rightarrow> drop (Suc i) branch)"

section \<open>Lookup by id\<close>

text \<open>\<open>branch.findIndex((entry) => entry.id === id)\<close>.\<close>

definition first_at :: "session_record list \<Rightarrow> jstring \<Rightarrow> nat option" where
  "first_at rs i = find_index (\<lambda>r. r_id r = i) rs"

text \<open>\<open>new Map(rs.map((entry) => [entry.id, entry])).get(id)\<close>: the last record with the id.\<close>

definition last_with_id :: "session_record list \<Rightarrow> jstring \<Rightarrow> session_record option" where
  "last_with_id rs i = map_last (map (\<lambda>r. (r_id r, r)) rs) i"

lemma last_with_id_Nil [simp]: "last_with_id [] i = None"
  by (simp add: last_with_id_def map_last_def)

lemma last_with_id_snoc: "last_with_id (rs @ [r]) i = (if r_id r = i then Some r else last_with_id rs i)"
  by (simp add: last_with_id_def map_last_def)

lemma last_with_id_Some: "last_with_id rs i = Some r \<Longrightarrow> r \<in> set rs \<and> r_id r = i"
  by (auto simp: last_with_id_def map_last_def dest!: map_of_SomeD)

lemma last_with_id_None: "last_with_id rs i = None \<longleftrightarrow> i \<notin> r_id ` set rs"
  by (auto simp: last_with_id_def map_last_def map_of_eq_None_iff image_image)

lemma last_with_id_unique:
  "distinct (map r_id rs) \<Longrightarrow> r \<in> set rs \<Longrightarrow> last_with_id rs (r_id r) = Some r"
  unfolding last_with_id_def map_last_def
  by (intro map_of_is_SomeI) (auto simp: rev_map comp_def distinct_rev[of "map r_id rs", symmetric] simp del: distinct_rev)

lemma first_at_less: "first_at rs i = Some k \<Longrightarrow> k < length rs \<and> r_id (rs ! k) = i"
  by (simp add: first_at_def find_index_Some)

lemma first_at_distinct:
  "distinct (map r_id rs) \<Longrightarrow> k < length rs \<Longrightarrow> first_at rs (r_id (rs ! k)) = Some k"
  by (auto simp: first_at_def find_index_Some distinct_conv_nth)

lemma inProgressRequests_no_completed:
  "\<forall>r \<in> set branch. \<not> is_completed r \<Longrightarrow> inProgressRequests branch = filter is_user branch"
  by (simp add: inProgressRequests_def iffD2[OF find_last_index_None])

lemma inProgressRequests_subset: "set (inProgressRequests branch) \<subseteq> {r \<in> set branch. is_user r}"
  by (auto simp: inProgressRequests_def split: option.splits dest: in_set_dropD)


section \<open>Sample records\<close>

text \<open>Concrete records the witnesses of the development apply its theorems to.\<close>

definition text_message :: "string \<Rightarrow> string \<Rightarrow> message" where
  "text_message role text = \<lparr>m_role = js role, m_content = Some (Plain (js text)), m_stopReason = None,
     m_errorMessage = None, m_toolCallId = None, m_toolName = None, m_isError = None, m_command = None,
     m_output = None, m_exitCode = None, m_fullOutputPath = None, m_excludeFromContext = None\<rparr>"

definition text_record :: "string \<Rightarrow> string \<Rightarrow> string \<Rightarrow> session_record" where
  "text_record i role text = \<lparr>r_id = js i, r_parent = None, r_time = js ''t'',
     r_body = Message (text_message role text), r_native = JObj []\<rparr>"

definition sample_user :: session_record where
  "sample_user = text_record ''u1'' ''user'' ''keep x''"

lemma text_record_simps [simp]:
  "r_id (text_record i role text) = js i" "r_native (text_record i role text) = JObj []"
  "r_body (text_record i role text) = Message (text_message role text)"
  "is_user (text_record i role text) \<longleftrightarrow> role = ''user''" "\<not> is_compaction (text_record i role text)"
  "\<not> is_completed (text_record i role text)"
  by (simp_all add: text_record_def is_user_def is_compaction_def is_completed_def text_message_def)

lemma sourceText_text_record: "role \<noteq> ''bashExecution'' \<Longrightarrow> sourceText (text_record i role text) = js text"
  by (simp add: sourceText_def message_text_def text_message_def)

lemma sample_user_simps [simp]: "r_id sample_user = js ''u1''" "sourceText sample_user = js ''keep x''"
  "r_native sample_user = JObj []" "is_user sample_user" "\<not> is_compaction sample_user"
  by (simp_all add: sample_user_def sourceText_text_record)

end
