(* ===== verification/Json_Parse.thy ===== *)
theory Json_Parse
  imports Json
begin

text \<open>
  \<open>JSON.parse\<close>: the grammar of RFC 8259 over UTF-16 code units. The value of a number's text
  (rounding to a double) is the parameter \<open>num\<close>; everything else is written out. The fuel of
  \<open>json_parse\<close>, one more than the length of the text, is enough because every nested call is
  made after at least one unit was read. \<open>json_parse_stringify\<close> is the round trip, and
  \<open>stringify_inj\<close> its consequence: a printed value determines the value.
\<close>

section \<open>Parser\<close>

definition json_space :: "u16 \<Rightarrow> bool" where
  "json_space u \<longleftrightarrow> u = 0x20 \<or> u = 0x09 \<or> u = 0x0a \<or> u = 0x0d"

definition skip_ws :: "jstring \<Rightarrow> jstring" where
  "skip_ws = dropWhile json_space"

definition hex_value :: "u16 \<Rightarrow> nat option" where
  "hex_value u =
     (if 0x30 \<le> u \<and> u \<le> 0x39 then Some (unat u - 0x30)
      else if 0x61 \<le> u \<and> u \<le> 0x66 then Some (unat u - 0x57)
      else if 0x41 \<le> u \<and> u \<le> 0x46 then Some (unat u - 0x37) else None)"

definition hex4 :: "u16 \<Rightarrow> u16 \<Rightarrow> u16 \<Rightarrow> u16 \<Rightarrow> u16 option" where
  "hex4 a b c d =
     (case (hex_value a, hex_value b, hex_value c, hex_value d) of
        (Some i, Some j, Some k, Some l) \<Rightarrow> Some (of_nat (i * 0x1000 + j * 0x100 + k * 0x10 + l))
      | _ \<Rightarrow> None)"

definition simple_escape :: "u16 \<Rightarrow> u16 option" where
  "simple_escape e =
     (if e = 0x22 \<or> e = 0x5c \<or> e = 0x2f then Some e
      else if e = 0x62 then Some 0x08 else if e = 0x66 then Some 0x0c
      else if e = 0x6e then Some 0x0a else if e = 0x72 then Some 0x0d
      else if e = 0x74 then Some 0x09 else None)"

text \<open>The rest of a string after its opening quote.\<close>

fun parse_str :: "jstring \<Rightarrow> (jstring \<times> jstring) option" where
  "parse_str [] = None"
| "parse_str (c # r) =
     (if c = 0x22 then Some ([], r)
      else if c = 0x5c then
        (case r of [] \<Rightarrow> None
         | e # r1 \<Rightarrow>
             (if e = 0x75 then
                (case r1 of h1 # h2 # h3 # h4 # r2 \<Rightarrow>
                   (case hex4 h1 h2 h3 h4 of None \<Rightarrow> None
                    | Some u \<Rightarrow> map_option (apfst ((#) u)) (parse_str r2))
                 | _ \<Rightarrow> None)
              else (case simple_escape e of None \<Rightarrow> None
                    | Some u \<Rightarrow> map_option (apfst ((#) u)) (parse_str r1))))
      else if c < 0x20 then None
      else map_option (apfst ((#) c)) (parse_str r))"

definition parse_num :: "(jstring \<Rightarrow> jsnum) \<Rightarrow> jstring \<Rightarrow> (jsval \<times> jstring) option" where
  "parse_num num s =
     (let t = takeWhile number_unit s
      in if number_text t then Some (JNum (num t), dropWhile number_unit s) else None)"

text \<open>\<open>mk\<close> makes an object of the members read: \<open>js_object\<close> in \<open>JSON.parse\<close>.\<close>

type_synonym members_maker = "(jstring \<times> jsval) list \<Rightarrow> (jstring \<times> jsval) list"

fun parse_val :: "members_maker \<Rightarrow> (jstring \<Rightarrow> jsnum) \<Rightarrow> nat \<Rightarrow> jstring \<Rightarrow> (jsval \<times> jstring) option"
and parse_elems :: "members_maker \<Rightarrow> (jstring \<Rightarrow> jsnum) \<Rightarrow> nat \<Rightarrow> jstring \<Rightarrow> (jsval list \<times> jstring) option"
and parse_members :: "members_maker \<Rightarrow> (jstring \<Rightarrow> jsnum) \<Rightarrow> nat \<Rightarrow> jstring \<Rightarrow> ((jstring \<times> jsval) list \<times> jstring) option"
where
  "parse_val mk num 0 s = None"
| "parse_val mk num (Suc f) s =
     (case skip_ws s of [] \<Rightarrow> None
      | c # r \<Rightarrow>
          (if c = 0x7b then
             (case skip_ws r of [] \<Rightarrow> None
              | d # r1 \<Rightarrow> (if d = 0x7d then Some (JObj [], r1)
                          else map_option (apfst (JObj \<circ> mk)) (parse_members mk num f (d # r1))))
           else if c = 0x5b then
             (case skip_ws r of [] \<Rightarrow> None
              | d # r1 \<Rightarrow> (if d = 0x5d then Some (JArr [], r1)
                          else map_option (apfst JArr) (parse_elems mk num f (d # r1))))
           else if c = 0x22 then map_option (apfst JStr) (parse_str r)
           else if starts_with (js ''true'') (c # r) then Some (JBool True, drop 4 (c # r))
           else if starts_with (js ''false'') (c # r) then Some (JBool False, drop 5 (c # r))
           else if starts_with (js ''null'') (c # r) then Some (JNull, drop 4 (c # r))
           else parse_num num (c # r)))"
| "parse_elems mk num 0 s = None"
| "parse_elems mk num (Suc f) s =
     (case parse_val mk num f s of None \<Rightarrow> None
      | Some (v, r) \<Rightarrow>
          (case skip_ws r of [] \<Rightarrow> None
           | d # r1 \<Rightarrow> (if d = 0x2c then map_option (apfst ((#) v)) (parse_elems mk num f r1)
                       else if d = 0x5d then Some ([v], r1) else None)))"
| "parse_members mk num 0 s = None"
| "parse_members mk num (Suc f) s =
     (case skip_ws s of [] \<Rightarrow> None
      | c # r \<Rightarrow>
          (if c \<noteq> 0x22 then None
           else case parse_str r of None \<Rightarrow> None
           | Some (k, r1) \<Rightarrow>
               (case skip_ws r1 of [] \<Rightarrow> None
                | d # r2 \<Rightarrow>
                    (if d \<noteq> 0x3a then None
                     else case parse_val mk num f r2 of None \<Rightarrow> None
                     | Some (v, r3) \<Rightarrow>
                         (case skip_ws r3 of [] \<Rightarrow> None
                          | e # r4 \<Rightarrow> (if e = 0x2c then map_option (apfst ((#) (k, v))) (parse_members mk num f r4)
                                      else if e = 0x7d then Some ([(k, v)], r4) else None))))))"

definition json_parse :: "(jstring \<Rightarrow> jsnum) \<Rightarrow> jstring \<Rightarrow> jsval option" where
  "json_parse num s =
     (case parse_val js_object num (Suc (length s)) s of
        Some (v, r) \<Rightarrow> (if skip_ws r = [] then Some v else None)
      | None \<Rightarrow> None)"

text \<open>A reader of numbers that returns what \<open>num_str\<close> printed.\<close>

definition read_num :: "jstring \<Rightarrow> jsnum" where
  "read_num t =
     (if digits_text (unsigned_text t) then
        (case digits_value 0 (unsigned_text t) of
           Some n \<Rightarrow> JInt (if unsigned_text t = t then int n else - int n) | None \<Rightarrow> JDec t)
      else JDec t)"

declare parse_str.simps(2) [simp del]

section \<open>Numbers\<close>

lemma unat_small: "n < 0x10000 \<Longrightarrow> unat (of_nat n :: u16) = n"
  by (simp add: unat_of_nat)

lemma digit_unit_of_nat: "d < 10 \<Longrightarrow> digit_unit (of_nat (0x30 + d))"
  unfolding digit_unit_def word_le_nat_alt by (subst (1 2) unat_small) auto

lemma digit_unit_bounds: "digit_unit u \<Longrightarrow> 0x30 \<le> unat u \<and> unat u \<le> 0x39"
  by (simp add: digit_unit_def word_le_nat_alt)

lemma nat_str_digits: "\<forall>u \<in> set (nat_str n). digit_unit u"
proof (induction n rule: nat_str.induct)
  case (1 n)
  then show ?case
    by (subst nat_str.simps) (auto intro: digit_unit_of_nat simp del: of_nat_add)
qed

lemma nat_str_not_Nil [simp]: "nat_str n \<noteq> []"
  by (subst nat_str.simps) simp

lemma digits_value_snoc:
  "digits_value acc s = Some n \<Longrightarrow> d < 10 \<Longrightarrow>
   digits_value acc (s @ [of_nat (0x30 + d)]) = Some (10 * n + d)"
proof (induction acc s rule: digits_value.induct)
  case (1 acc)
  then show ?case using digit_unit_of_nat[of d] unat_small[of "0x30 + d"]
    by (simp add: digit_unit_def del: of_nat_add)
qed (auto split: if_splits)

lemma digits_value_nat_str: "digits_value 0 (nat_str n) = Some n"
proof (induction n rule: nat_str.induct)
  case (1 n)
  show ?case
  proof (cases "n < 10")
    case True
    then show ?thesis using digits_value_snoc[of 0 "[]" 0 n]
      by (subst nat_str.simps) (simp del: of_nat_add)
  next
    case False
    with 1 have "digits_value 0 (nat_str (n div 10)) = Some (n div 10)" by simp
    from digits_value_snoc[OF this, of "n mod 10"] False show ?thesis
      by (subst nat_str.simps) (simp del: of_nat_add)
  qed
qed

lemma nat_str_hd_zero: "hd (nat_str n) = 0x30 \<Longrightarrow> n = 0"
proof (induction n rule: nat_str.induct)
  case (1 n)
  show ?case
  proof (cases "n < 10")
    case True
    then have "unat (of_nat (0x30 + n) :: u16) = 0x30 + n" by (intro unat_small) simp
    moreover have "of_nat (0x30 + n) = (0x30 :: u16)"
      using 1(2) True by (subst (asm) nat_str.simps) (simp del: of_nat_add)
    ultimately show ?thesis by simp
  next
    case False
    with 1(2) have "hd (nat_str (n div 10)) = 0x30" by (subst (asm) nat_str.simps) simp
    with 1(1) False have "n div 10 = 0" by simp
    with False show ?thesis by simp
  qed
qed

lemma nat_str_zero: "nat_str 0 = [0x30]"
  by (subst nat_str.simps) simp

lemma digit_not_minus: "digit_unit u \<Longrightarrow> u \<noteq> 0x2d"
  by (auto dest: digit_unit_bounds)

lemma hd_nat_str_digit: "digit_unit (hd (nat_str n))"
  using nat_str_digits[of n] by simp

lemma unsigned_nat_str: "unsigned_text (nat_str n) = nat_str n" "unsigned_text (0x2d # nat_str n) = nat_str n"
  using hd_nat_str_digit[of n] by (auto simp: unsigned_text_def dest: digit_not_minus)

lemma number_text_digits:
  assumes "unsigned_text t = nat_str n"
  shows "number_text t"
proof -
  have all: "takeWhile digit_unit (nat_str n) = nat_str n" "dropWhile digit_unit (nat_str n) = []"
    using nat_str_digits[of n] by auto
  have "\<not> (hd (nat_str n) = 0x30 \<and> tl (nat_str n) \<noteq> [])"
    using nat_str_hd_zero[of n] nat_str_zero by auto
  then show ?thesis unfolding number_text_def assms Let_def all by (simp add: exponent_text_def)
qed

lemma number_text_int_str: "number_text (int_str i)"
  by (auto simp: int_str_def intro!: number_text_digits unsigned_nat_str)

lemma digit_number_unit: "digit_unit u \<Longrightarrow> number_unit u"
  by (simp add: number_unit_def)

lemma int_str_units: "\<forall>u \<in> set (int_str i). number_unit u"
  using nat_str_digits digit_number_unit by (auto simp: int_str_def number_unit_def)

lemma read_num_int_str: "read_num (int_str i) = JInt i"
proof -
  have d: "digits_text (nat_str n)" for n using nat_str_digits[of n] by (simp add: digits_text_def)
  show ?thesis
  proof (cases "i < 0")
    case True
    then show ?thesis
      by (simp add: read_num_def int_str_def unsigned_nat_str d digits_value_nat_str not_Cons_self2)
  next
    case False
    then show ?thesis
      by (simp add: read_num_def int_str_def unsigned_nat_str d digits_value_nat_str)
  qed
qed

lemma read_num_num_str: "num_ok n \<Longrightarrow> read_num (num_str n) = n"
proof (cases n)
  case (JDec t)
  moreover assume "num_ok n"
  ultimately show ?thesis by (simp add: read_num_def)
qed (auto simp: read_num_int_str)

lemma number_text_num_str: "num_ok n \<Longrightarrow> number_text (num_str n)"
  by (cases n) (auto simp: number_text_int_str)

lemma num_str_units: "num_ok n \<Longrightarrow> \<forall>u \<in> set (num_str n). number_unit u"
  by (cases n) (auto simp: int_str_units)

lemma number_text_hd:
  assumes "number_text t"
  shows "t \<noteq> [] \<and> (digit_unit (hd t) \<or> hd t = 0x2d)"
proof -
  from assms have "takeWhile digit_unit (unsigned_text t) \<noteq> []"
    by (simp add: number_text_def Let_def)
  then have "unsigned_text t \<noteq> [] \<and> digit_unit (hd (unsigned_text t))"
    by (cases "unsigned_text t") (auto split: if_splits)
  then show ?thesis by (auto simp: unsigned_text_def split: if_splits)
qed

text \<open>What follows a printed value: nothing, or a unit that does not continue a number.\<close>

definition stops :: "jstring \<Rightarrow> bool" where
  "stops r \<longleftrightarrow> (r = [] \<or> \<not> number_unit (hd r))"

lemma takeWhile_stops:
  "\<forall>u \<in> set t. number_unit u \<Longrightarrow> stops r \<Longrightarrow>
   takeWhile number_unit (t @ r) = t \<and> dropWhile number_unit (t @ r) = r"
  by (cases r) (auto simp: stops_def takeWhile_append dropWhile_append)

lemma parse_num_num_str:
  "num_ok n \<Longrightarrow> num (num_str n) = n \<Longrightarrow> stops r \<Longrightarrow> parse_num num (num_str n @ r) = Some (JNum n, r)"
  using takeWhile_stops[OF num_str_units] number_text_num_str by (simp add: parse_num_def)

section \<open>Strings\<close>

lemma hex_value_digit: "n < 16 \<Longrightarrow> hex_value (hex_digit n) = Some n"
proof -
  assume n: "n < 16"
  have u: "unat (hex_digit n) = (if n < 10 then 0x30 + n else 0x57 + n)"
    using n unat_small[of "0x30 + n"] unat_small[of "0x57 + n"]
    by (auto simp: hex_digit_def simp del: of_nat_add)
  show ?thesis using n u unfolding hex_value_def word_le_nat_alt by auto
qed

lemma hex4_escape:
  "hex4 (hex_digit (unat u div 0x1000)) (hex_digit (unat u div 0x100 mod 0x10))
     (hex_digit (unat u div 0x10 mod 0x10)) (hex_digit (unat u mod 0x10)) = Some u"
proof -
  have lt: "unat u div 0x1000 < 16" using unat_u16[of u] by simp
  have "unat u div 0x100 = unat u div 0x10 div 0x10" "unat u div 0x1000 = unat u div 0x100 div 0x10"
    by (simp_all add: div_mult2_eq[symmetric])
  then have "unat u div 0x1000 * 0x1000 + unat u div 0x100 mod 0x10 * 0x100
      + unat u div 0x10 mod 0x10 * 0x10 + unat u mod 0x10 = unat u"
    using div_mult_mod_eq[of "unat u" "0x10"] div_mult_mod_eq[of "unat u div 0x10" "0x10"]
      div_mult_mod_eq[of "unat u div 0x100" "0x10"] by linarith
  then have "of_nat (unat u div 0x1000 * 0x1000 + unat u div 0x100 mod 0x10 * 0x100
      + unat u div 0x10 mod 0x10 * 0x10 + unat u mod 0x10) = (of_nat (unat u) :: u16)"
    by (simp only:)
  then show ?thesis using lt by (simp add: hex4_def hex_value_digit del: of_nat_add of_nat_mult)
qed

lemma parse_str_quote_unit:
  "parse_str (quote_unit u @ r) = map_option (apfst ((#) u)) (parse_str r)"
proof -
  have e: "parse_str (unicode_escape u @ r) = map_option (apfst ((#) u)) (parse_str r)"
    by (simp add: unicode_escape_def Let_def hex4_escape parse_str.simps(2))
  show ?thesis
  proof (cases "u < 0x20 \<or> high_surrogate u \<or> low_surrogate u")
    case True
    then show ?thesis using e by (auto simp: quote_unit_def simple_escape_def parse_str.simps(2))
  next
    case False
    then show ?thesis by (auto simp: quote_unit_def simple_escape_def parse_str.simps(2))
  qed
qed

lemma surrogate_not_special:
  "high_surrogate u \<or> low_surrogate u \<Longrightarrow> u \<noteq> 0x22 \<and> u \<noteq> 0x5c \<and> \<not> u < 0x20"
  by (auto simp: high_surrogate_def low_surrogate_def word_le_nat_alt word_less_nat_alt)

lemma parse_str_quote_units:
  "parse_str (quote_units s @ 0x22 # r) = Some (s, r)"
proof (induction s rule: quote_units.induct)
  case (3 u v s)
  show ?case
  proof (cases "high_surrogate u \<and> low_surrogate v")
    case True
    with 3 surrogate_not_special[of u] surrogate_not_special[of v] show ?thesis
      by (simp add: parse_str.simps(2))
  next
    case False
    then have "quote_units (u # v # s) = quote_unit u @ quote_units (v # s)" by (simp only: quote_units.simps if_False)
    with 3 False show ?thesis by (simp only: append_assoc parse_str_quote_unit) simp
  qed
qed (simp_all add: parse_str_quote_unit parse_str.simps(2))

section \<open>Round trip\<close>

lemma skip_ws_Cons: "\<not> json_space c \<Longrightarrow> skip_ws (c # r) = c # r"
  by (simp add: skip_ws_def)

lemma punct_not_space [simp]:
  "skip_ws (0x2c # r) = 0x2c # r" "skip_ws (0x5d # r) = 0x5d # r" "skip_ws (0x7d # r) = 0x7d # r"
  "skip_ws (0x3a # r) = 0x3a # r" "skip_ws (0x22 # r) = 0x22 # r" "skip_ws (0x5b # r) = 0x5b # r"
  "skip_ws (0x7b # r) = 0x7b # r"
  by (simp_all add: skip_ws_Cons json_space_def)

lemma punct_stops [simp]:
  "stops []" "stops (0x2c # r)" "stops (0x5d # r)" "stops (0x7d # r)"
  by (simp_all add: stops_def number_unit_def digit_unit_def)

text \<open>The first unit of a printed value.\<close>

lemma digit_unit_not: "digit_unit u \<Longrightarrow> \<not> json_space u \<and> u \<noteq> 0x7b \<and> u \<noteq> 0x5b \<and> u \<noteq> 0x22 \<and>
    u \<noteq> 0x5d \<and> u \<noteq> 0x7d \<and> u \<noteq> 0x74 \<and> u \<noteq> 0x66 \<and> u \<noteq> 0x6e"
  by (auto simp: json_space_def dest: digit_unit_bounds)

lemma num_str_first:
  assumes "num_ok n"
  obtains c t where "num_str n = c # t" and "\<not> json_space c" and "c \<noteq> 0x7b" and "c \<noteq> 0x5b" and "c \<noteq> 0x22"
    and "c \<noteq> 0x5d" and "c \<noteq> 0x7d" and "c \<noteq> 0x74" and "c \<noteq> 0x66" and "c \<noteq> 0x6e"
proof -
  from number_text_hd[OF number_text_num_str[OF assms]]
  have "num_str n \<noteq> []" "digit_unit (hd (num_str n)) \<or> hd (num_str n) = 0x2d" by auto
  then obtain c t where "num_str n = c # t" "digit_unit c \<or> c = 0x2d" by (cases "num_str n") auto
  then show ?thesis using digit_unit_not[of c] by (intro that[of c t]) (auto simp: json_space_def)
qed

lemma js_words: "js ''true'' = [0x74, 0x72, 0x75, 0x65]" "js ''false'' = [0x66, 0x61, 0x6c, 0x73, 0x65]"
  "js ''null'' = [0x6e, 0x75, 0x6c, 0x6c]"
  by (simp_all add: js_def)

lemma stringify_first:
  assumes "ok_by mk v"
  obtains c t where "stringify v = c # t" and "\<not> json_space c" and "c \<noteq> 0x5d" and "c \<noteq> 0x7d"
proof (cases v)
  case (JNum n)
  with assms show ?thesis using num_str_first[of n] that by (metis ok_by.simps(4) stringify.simps(4))
next
  case (JBool b)
  then show ?thesis by (cases b) (auto simp: js_words json_space_def intro: that)
qed (use assms in \<open>auto simp: js_words quote_def json_space_def intro: that\<close>)

lemma json_ok_not_undef: "ok_by mk v \<Longrightarrow> v \<noteq> JUndef"
  by auto

lemma parse_val_num:
  assumes "num_ok n" and "num (num_str n) = n" and "stops r"
  shows "parse_val mk num (Suc f) (num_str n @ r) = Some (JNum n, r)"
proof -
  obtain c t where ct: "num_str n = c # t" "\<not> json_space c" "c \<noteq> 0x7b" "c \<noteq> 0x5b" "c \<noteq> 0x22"
      "c \<noteq> 0x74" "c \<noteq> 0x66" "c \<noteq> 0x6e"
    using num_str_first[OF assms(1)] by metis
  then have "parse_val mk num (Suc f) (num_str n @ r) = parse_num num (num_str n @ r)"
    by (simp add: skip_ws_Cons js_words starts_with_def)
  then show ?thesis using parse_num_num_str[where num = num and n = n and r = r] assms by simp
qed

lemma join_Cons: "xs \<noteq> [] \<Longrightarrow> join sep (x # xs) = x @ sep @ join sep xs"
  by (cases xs) auto

lemma elems_str_Nil [simp]: "elems_str xs = [] \<longleftrightarrow> xs = []"
  by (cases xs) auto

text \<open>
  A JSON value whose numbers are what \<open>num\<close> reads in their texts: every number JavaScript prints is such a
  number, a decimal text that no number prints is not.
\<close>

fun reads_by :: "((jstring \<times> jsval) list \<Rightarrow> (jstring \<times> jsval) list) \<Rightarrow> (jstring \<Rightarrow> jsnum) \<Rightarrow> jsval \<Rightarrow> bool" where
  "reads_by mk num JUndef = False"
| "reads_by mk num JNull = True"
| "reads_by mk num (JBool _) = True"
| "reads_by mk num (JNum n) = (num_ok n \<and> num (num_str n) = n)"
| "reads_by mk num (JStr _) = True"
| "reads_by mk num (JArr xs) = (\<forall>x \<in> set xs. reads_by mk num x)"
| "reads_by mk num (JObj ps) = (mk ps = ps \<and> (\<forall>p \<in> set ps. reads_by mk num (snd p)))"

abbreviation json_reads :: "(jstring \<Rightarrow> jsnum) \<Rightarrow> jsval \<Rightarrow> bool" where
  "json_reads \<equiv> reads_by js_object"

lemma reads_by_ok: "reads_by mk num v \<Longrightarrow> ok_by mk v"
proof (induction v)
  case (JObj ps)
  have "ok_by mk v" if "(k, v) \<in> set ps" for k v
    using JObj.prems that by (intro JObj.IH[OF that]) auto
  then show ?case using JObj.prems by auto
qed auto

lemma ok_by_reads: "ok_by mk v \<Longrightarrow> (\<And>n. num_ok n \<Longrightarrow> num (num_str n) = n) \<Longrightarrow> reads_by mk num v"
proof (induction v)
  case (JObj ps)
  have "reads_by mk num v" if "(k, v) \<in> set ps" for k v
    using JObj.prems that by (intro JObj.IH[OF that]) auto
  then show ?case using JObj.prems by auto
qed auto

lemma json_reads_id: "reads_by mk num v \<Longrightarrow> reads_by id num v"
proof (induction v)
  case (JObj ps)
  have "reads_by id num v" if "(k, v) \<in> set ps" for k v
    using JObj.prems that by (intro JObj.IH[OF that]) auto
  then show ?case by (auto simp: id_def)
qed auto

lemma parse_stringify:
  shows "reads_by mk num v \<Longrightarrow> length (stringify v) \<le> f \<Longrightarrow> stops r \<Longrightarrow>
      parse_val mk num f (stringify v @ r) = Some (v, r)"
    and "\<forall>x \<in> set xs. reads_by mk num x \<Longrightarrow> xs \<noteq> [] \<Longrightarrow> length (join [0x2c] (elems_str xs)) < g \<Longrightarrow>
      parse_elems mk num g (join [0x2c] (elems_str xs) @ 0x5d # r') = Some (xs, r')"
    and "\<forall>p \<in> set ps. reads_by mk num (snd p) \<Longrightarrow> ps \<noteq> [] \<Longrightarrow> length (join [0x2c] (members_str ps)) < h \<Longrightarrow>
      parse_members mk num h (join [0x2c] (members_str ps) @ 0x7d # r'') = Some (ps, r'')"
proof (induction v and xs and ps arbitrary: f r and g r' and h r'' rule: stringify_elems_str_members_str.induct)
  case 1
  then show ?case by simp
next
  case 2
  then show ?case by (cases f) (simp_all add: js_words skip_ws_Cons json_space_def starts_with_def)
next
  case (3 b)
  then show ?case
    by (cases f; cases b) (simp_all add: js_words skip_ws_Cons json_space_def starts_with_def)
next
  case (4 n)
  have "num_str n \<noteq> []" using number_text_hd[OF number_text_num_str, of n] 4 by auto
  with 4 show ?case using parse_val_num[where num = num and n = n and r = r] by (cases f) auto
next
  case (5 s)
  then show ?case by (cases f) (simp_all add: quote_def parse_str_quote_units)
next
  case (6 xs)
  then obtain f' where f: "f = Suc f'" by (cases f) auto
  show ?case
  proof (cases xs)
    case Nil
    then show ?thesis by (simp add: f)
  next
    case (Cons x ys)
    obtain c t where ct: "stringify x = c # t" "\<not> json_space c" "c \<noteq> 0x5d"
      using stringify_first[of mk x] 6(2) Cons reads_by_ok by (metis reads_by.simps(6) list.set_intros(1))
    let ?body = "join [0x2c] (elems_str xs)"
    obtain t' where body: "?body = c # t'" using Cons ct by (cases ys) auto
    have "parse_elems mk num f' (?body @ 0x5d # r) = Some (xs, r)"
      using 6 f Cons by auto
    then show ?thesis using f body ct by (simp add: skip_ws_Cons)
  qed
next
  case (7 ps)
  then obtain f' where f: "f = Suc f'" by (cases f) auto
  show ?case
  proof (cases ps)
    case Nil
    then show ?thesis by (simp add: f)
  next
    case (Cons p qs)
    obtain k v where p: "p = (k, v)" by force
    have v: "v \<noteq> JUndef" using 7(2) Cons p by auto
    let ?body = "join [0x2c] (members_str ps)"
    obtain t' where body: "?body = 0x22 # t'" using Cons p v
      by (cases "members_str qs") (auto simp: quote_def)
    have "parse_members mk num f' (?body @ 0x7d # r) = Some (ps, r)"
      using 7 f Cons by auto
    then show ?thesis using f body 7(2) by (simp add: skip_ws_Cons)
  qed
next
  case 8
  then show ?case by simp
next
  case (9 x xs)
  then obtain g' where g: "g = Suc g'" by (cases g) auto
  show ?case
  proof (cases "xs = []")
    case True
    have "parse_val mk num g' (stringify x @ 0x5d # r') = Some (x, 0x5d # r')"
      using 9 g True by simp
    then show ?thesis using g True by simp
  next
    case False
    then have j: "join [0x2c] (elems_str (x # xs)) = stringify x @ 0x2c # join [0x2c] (elems_str xs)"
      by (simp add: join_Cons)
    have "parse_val mk num g' (stringify x @ 0x2c # join [0x2c] (elems_str xs) @ 0x5d # r')
        = Some (x, 0x2c # join [0x2c] (elems_str xs) @ 0x5d # r')"
      using 9(1,3,5) g j by simp
    moreover have "parse_elems mk num g' (join [0x2c] (elems_str xs) @ 0x5d # r') = Some (xs, r')"
      using 9(2,3,5) g j False by simp
    ultimately show ?thesis using g j by simp
  qed
next
  case 10
  then show ?case by simp
next
  case (11 k v ps)
  then obtain h' where h: "h = Suc h'" by (cases h) auto
  have v: "reads_by mk num v" "v \<noteq> JUndef" using 11(4) by auto
  show ?case
  proof (cases "ps = []")
    case True
    have "parse_val mk num h' (stringify v @ 0x7d # r'') = Some (v, 0x7d # r'')"
      using 11 h True v by (simp add: quote_def)
    then show ?thesis using h True v by (simp add: quote_def parse_str_quote_units)
  next
    case False
    then have ne: "members_str ps \<noteq> []" using 11(4) by (cases ps) (auto split: if_splits)
    have j: "join [0x2c] (members_str ((k, v) # ps))
        = quote k @ 0x3a # stringify v @ 0x2c # join [0x2c] (members_str ps)"
      using ne v by (simp add: join_Cons)
    have "parse_val mk num h' (stringify v @ 0x2c # join [0x2c] (members_str ps) @ 0x7d # r'')
        = Some (v, 0x2c # join [0x2c] (members_str ps) @ 0x7d # r'')"
      using 11(2,6) h j v by (simp add: quote_def)
    moreover have "parse_members mk num h' (join [0x2c] (members_str ps) @ 0x7d # r'') = Some (ps, r'')"
      using 11(3,4,6) h j v False by (simp add: quote_def)
    ultimately show ?thesis using h j by (simp add: quote_def parse_str_quote_units)
  qed
qed

theorem json_parse_stringify:
  assumes "json_reads num v"
  shows "json_parse num (stringify v) = Some v"
  using parse_stringify(1)[where mk = js_object and num = num and v = v and f = "Suc (length (stringify v))" and r = "[]"] assms
  by (simp add: json_parse_def skip_ws_def)

theorem stringify_prefix_free:
  assumes "ok_by mk v" and "ok_by mk w" and "stops r" and "stops s"
    and eq: "stringify v @ r = stringify w @ s"
  shows "v = w \<and> r = s"
proof -
  let ?f = "length (stringify v @ r)"
  have len: "length (stringify w) \<le> ?f" using arg_cong[OF eq, of length] by simp
  have "parse_val mk read_num ?f (stringify v @ r) = Some (v, r)"
    using assms(1,3) by (intro parse_stringify(1) ok_by_reads) (simp_all add: read_num_num_str)
  moreover have "parse_val mk read_num ?f (stringify w @ s) = Some (w, s)"
    using assms(2,4) len unfolding eq by (intro parse_stringify(1) ok_by_reads) (auto simp: read_num_num_str)
  ultimately show ?thesis using eq by simp
qed

theorem stringify_inj: "ok_by mk v \<Longrightarrow> ok_by mk w \<Longrightarrow> stringify v = stringify w \<Longrightarrow> v = w"
  using stringify_prefix_free[of mk v w "[]" "[]"] by simp

end
