(* ===== verification/Canonical.thy ===== *)
theory Canonical
  imports Records Json_Parse
begin

text \<open>
  \<^bold>\<open>canonical.ts\<close> and the hashing half of \<^bold>\<open>identity.ts\<close>: RFC 8785 serialization, the normalized
  form of a record, and the framed source hash with its prefix variant. \<open>digest\<close> is SHA-256 in
  hex, a parameter (node:crypto); theorems hold for every digest and name its collisions.
\<close>

section \<open>JCS serialization\<close>

text \<open>\<open>stringLiteral\<close>: the scan for lone surrogates, then \<open>JSON.stringify\<close>.\<close>

fun scan_units :: "jstring \<Rightarrow> unit res" where
  "scan_units [] = Inr ()"
| "scan_units [u] =
     (if high_surrogate u then throw TypeErr ''JCS: unpaired high surrogate''
      else if low_surrogate u then throw TypeErr ''JCS: unpaired low surrogate'' else Inr ())"
| "scan_units (u # v # s) =
     (if high_surrogate u then
        (if low_surrogate v then scan_units s else throw TypeErr ''JCS: unpaired high surrogate'')
      else if low_surrogate u then throw TypeErr ''JCS: unpaired low surrogate''
      else scan_units (v # s))"

definition stringLiteral :: "jstring \<Rightarrow> jstring res" where
  "stringLiteral s = bind_res (scan_units s) (\<lambda>_. Inr (quote s))"

fun canonicalize :: "jsval \<Rightarrow> jstring res"
and canonical_elems :: "jsval list \<Rightarrow> jstring list res"
and canonical_members :: "(jstring \<times> jsval) list \<Rightarrow> (jstring \<times> jstring res) list" where
  "canonicalize JUndef = throw TypeErr ''JCS: expected a JSON value''"
| "canonicalize JNull = Inr (js ''null'')"
| "canonicalize (JBool b) = Inr (stringify (JBool b))"
| "canonicalize (JNum n) =
     (if n = JNonFinite then throw TypeErr ''JCS: non-finite number'' else Inr (stringify (JNum n)))"
| "canonicalize (JStr s) = stringLiteral s"
| "canonicalize (JArr xs) =
     bind_res (canonical_elems xs) (\<lambda>ys. Inr ([0x5b] @ join [0x2c] ys @ [0x5d]))"
| "canonicalize (JObj ps) =
     bind_res
       (map_res (\<lambda>q. bind_res (stringLiteral (fst q)) (\<lambda>k. bind_res (snd q) (\<lambda>v. Inr (k @ [0x3a] @ v))))
         (sort_key fst (canonical_members ps)))
       (\<lambda>ys. Inr ([0x7b] @ join [0x2c] ys @ [0x7d]))"
| "canonical_elems [] = Inr []"
| "canonical_elems (x # xs) =
     bind_res (canonicalize x) (\<lambda>y. bind_res (canonical_elems xs) (\<lambda>ys. Inr (y # ys)))"
| "canonical_members [] = []"
| "canonical_members ((k, v) # ps) = (k, canonicalize v) # canonical_members ps"

section \<open>Normalized records\<close>

text \<open>The pairs of a literal whose \<open>undefined\<close> values are left out.\<close>

definition present :: "(string \<times> jsval) list \<Rightarrow> (jstring \<times> jsval) list" where
  "present ps = map (apfst js) (filter (\<lambda>p. snd p \<noteq> JUndef) ps)"

definition content_json :: "content \<Rightarrow> jsval" where
  "content_json c = (case c of Plain s \<Rightarrow> JStr s | Blocks bs \<Rightarrow> JArr bs)"

definition opt_content :: "content option \<Rightarrow> jsval" where
  "opt_content c = (case c of None \<Rightarrow> JUndef | Some d \<Rightarrow> content_json d)"

definition messageFields :: "message \<Rightarrow> (string \<times> jsval) list" where
  "messageFields m =
     [(''role'', JStr (m_role m)), (''content'', opt_content (m_content m)),
      (''stopReason'', opt_str (m_stopReason m)), (''errorMessage'', opt_str (m_errorMessage m)),
      (''toolCallId'', opt_str (m_toolCallId m)), (''toolName'', opt_str (m_toolName m)),
      (''isError'', opt_bool (m_isError m)), (''command'', opt_str (m_command m)),
      (''output'', opt_str (m_output m)), (''exitCode'', opt_num (m_exitCode m)),
      (''fullOutputPath'', opt_str (m_fullOutputPath m)),
      (''excludeFromContext'', opt_bool (m_excludeFromContext m))]"

fun body_fields :: "body \<Rightarrow> (string \<times> jsval) list" where
  "body_fields (Message m) = [(''message'', JObj (present (messageFields m)))]"
| "body_fields (Compaction c) =
     [(''summary'', JStr (c_summary c)), (''firstKeptEntryId'', JStr (c_firstKeptEntryId c)),
      (''tokensBefore'', JNum (c_tokensBefore c)), (''details'', c_details c)]"
| "body_fields (Custom t d) = [(''customType'', JStr t), (''data'', d)]"
| "body_fields (CustomMessage c) = [(''content'', content_json c)]"
| "body_fields (BranchSummary s) = [(''summary'', JStr s)]"
| "body_fields (ContextEdit t r) = [(''targetId'', JStr t), (''replacement'', r)]"
| "body_fields (OtherKind k) = []"

definition parent_json :: "jstring option \<Rightarrow> jsval" where
  "parent_json p = (case p of None \<Rightarrow> JNull | Some s \<Rightarrow> JStr s)"

definition normalizeRecord :: "session_record \<Rightarrow> jsval" where
  "normalizeRecord r =
     JObj (present ([(''id'', JStr (r_id r)), (''parentId'', parent_json (r_parent r)),
                     (''type'', JStr (r_type r)), (''timestamp'', JStr (r_time r))] @ body_fields (r_body r)))"

definition serializeCanonicalRecord :: "session_record \<Rightarrow> jstring res" where
  "serializeCanonicalRecord r = canonicalize (normalizeRecord r)"

text \<open>\<open>JSON.stringify(entry)\<close> of the native object.\<close>

definition serializeNative :: "session_record \<Rightarrow> jstring res" where
  "serializeNative r = Inr (stringify (r_native r))"

section \<open>Framed hashes\<close>

text \<open>
  The bytes one \<open>createHash\<close> object has absorbed after the records, in the serialization \<open>ser\<close>:
  each record's text and a newline.
\<close>

fun frames :: "('r \<Rightarrow> jstring res) \<Rightarrow> byte list \<Rightarrow> 'r list \<Rightarrow> byte list res" where
  "frames ser absorbed [] = Inr absorbed"
| "frames ser absorbed (r # rs) =
     bind_res (ser r) (\<lambda>s. frames ser (absorbed @ utf8 s @ utf8 newline) rs)"

definition hash_frames :: "(byte list \<Rightarrow> jstring) \<Rightarrow> ('r \<Rightarrow> jstring res) \<Rightarrow> 'r list \<Rightarrow> jstring res" where
  "hash_frames digest ser rs = bind_res (frames ser [] rs) (\<lambda>bs. Inr (digest bs))"

text \<open>
  The one-pass variant: a digest copy at every requested length, the texts handed to the callback
  in order. \<open>i\<close> counts the records absorbed.
\<close>

fun prefix_loop :: "(byte list \<Rightarrow> jstring) \<Rightarrow> ('r \<Rightarrow> jstring res) \<Rightarrow> nat list \<Rightarrow> nat \<Rightarrow> byte list
    \<Rightarrow> (nat \<Rightarrow> jstring option) \<Rightarrow> (nat \<times> jstring) list \<Rightarrow> 'r list
    \<Rightarrow> ((nat \<Rightarrow> jstring option) \<times> (nat \<times> jstring) list) res" where
  "prefix_loop digest ser req i absorbed result calls [] = Inr (result, calls)"
| "prefix_loop digest ser req i absorbed result calls (r # rs) =
     bind_res (ser r) (\<lambda>s.
       let absorbed' = absorbed @ utf8 s @ utf8 newline;
           result' = (if Suc i \<in> set req then result(Suc i \<mapsto> digest absorbed') else result)
       in prefix_loop digest ser req (Suc i) absorbed' result' (calls @ [(i, s)]) rs)"

definition valid_length :: "nat \<Rightarrow> int \<Rightarrow> bool" where
  "valid_length n l \<longleftrightarrow> \<bar>l\<bar> \<le> max_safe_integer \<and> \<not> l < 0 \<and> \<not> l > int n"

definition prefix_hashes :: "(byte list \<Rightarrow> jstring) \<Rightarrow> ('r \<Rightarrow> jstring res) \<Rightarrow> 'r list \<Rightarrow> int list
    \<Rightarrow> ((nat \<Rightarrow> jstring option) \<times> (nat \<times> jstring) list) res" where
  "prefix_hashes digest ser rs lengths =
     (if \<not> list_all (valid_length (length rs)) (dedup lengths)
      then throw CONTEXT_SOURCE_PREFIX ''CONTEXT_SOURCE_PREFIX: invalid source prefix boundary''
      else let req = map nat (dedup lengths); last = fold max req 0 in
        prefix_loop digest ser req 0 []
          (if 0 \<in> set req then [0 \<mapsto> digest []] else Map.empty) [] (take last rs))"

definition hashEntries :: "(byte list \<Rightarrow> jstring) \<Rightarrow> session_record list \<Rightarrow> jstring res" where
  "hashEntries digest rs = hash_frames digest serializeNative rs"

definition hashEntryPrefixes :: "(byte list \<Rightarrow> jstring) \<Rightarrow> session_record list \<Rightarrow> int list
    \<Rightarrow> ((nat \<Rightarrow> jstring option) \<times> (nat \<times> jstring) list) res" where
  "hashEntryPrefixes digest rs lengths = prefix_hashes digest serializeNative rs lengths"

definition hashCanonicalRecords :: "(byte list \<Rightarrow> jstring) \<Rightarrow> session_record list \<Rightarrow> jstring res" where
  "hashCanonicalRecords digest rs = hash_frames digest serializeCanonicalRecord rs"

definition hashCanonicalRecordPrefixes :: "(byte list \<Rightarrow> jstring) \<Rightarrow> session_record list \<Rightarrow> int list
    \<Rightarrow> ((nat \<Rightarrow> jstring option) \<times> (nat \<times> jstring) list) res" where
  "hashCanonicalRecordPrefixes digest rs lengths = prefix_hashes digest serializeCanonicalRecord rs lengths"

section \<open>The prefix hashes are the hashes of the prefixes\<close>

lemma frames_append:
  "frames ser b (xs @ ys) = bind_res (frames ser b xs) (\<lambda>c. frames ser c ys)"
proof (induction xs arbitrary: b)
  case (Cons x xs)
  then show ?case by (cases "ser x") auto
qed simp

lemma prefix_loop_keep:
  "prefix_loop digest ser req i absorbed r c rs = Inr (r', c') \<Longrightarrow> k \<le> i \<Longrightarrow> r' k = r k"
  by (induction rs arbitrary: i absorbed r c) (force simp: Let_def fun_upd_other split: if_splits)+

lemma prefix_loop_dom:
  "prefix_loop digest ser req i absorbed r c rs = Inr (r', c') \<Longrightarrow> dom r' \<subseteq> dom r \<union> set req"
proof (induction rs arbitrary: i absorbed r c)
  case (Cons x rs)
  then obtain s where "prefix_loop digest ser req (Suc i) (absorbed @ utf8 s @ utf8 newline)
      (if Suc i \<in> set req then r(Suc i \<mapsto> digest (absorbed @ utf8 s @ utf8 newline)) else r) (c @ [(i, s)]) rs
      = Inr (r', c')" by (auto simp: Let_def)
  from Cons.IH[OF this] show ?case by (auto split: if_splits)
qed simp

lemma prefix_loop_calls:
  "prefix_loop digest ser req i absorbed r c rs = Inr (r', c') \<Longrightarrow>
   \<exists>ss. map_res ser rs = Inr ss \<and> c' = c @ zip [i..<i + length rs] ss"
proof (induction rs arbitrary: i absorbed r c)
  case (Cons x rs)
  then obtain s ss where "ser x = Inr s" "map_res ser rs = Inr ss"
      "c' = (c @ [(i, s)]) @ zip [Suc i..<Suc i + length rs] ss"
    by (auto simp: Let_def dest!: Cons.IH)
  moreover have "[i..<i + length (x # rs)] = i # [Suc i..<Suc i + length rs]"
    by (simp add: upt_conv_Cons del: upt_Suc)
  ultimately show ?case by (simp del: upt_Suc)
qed simp

lemma prefix_loop_result:
  assumes "prefix_loop digest ser req i absorbed r c rs = Inr (r', c')"
    and "n \<le> i + length rs" and "i < n" and "n \<in> set req"
  shows "\<exists>bs. frames ser absorbed (take (n - i) rs) = Inr bs \<and> r' n = Some (digest bs)"
  using assms
proof (induction rs arbitrary: i absorbed r c)
  case Nil
  then show ?case by simp
next
  case (Cons x rs)
  from Cons.prems(1) obtain s where s: "ser x = Inr s" by auto
  let ?ab = "absorbed @ utf8 s @ utf8 newline"
  let ?r = "if Suc i \<in> set req then r(Suc i \<mapsto> digest ?ab) else r"
  have loop: "prefix_loop digest ser req (Suc i) ?ab ?r (c @ [(i, s)]) rs = Inr (r', c')"
    using Cons.prems(1) s by (simp add: Let_def)
  show ?case
  proof (cases "n = Suc i")
    case True
    then have "r' n = ?r n" using prefix_loop_keep[OF loop, of n] by simp
    then show ?thesis using True Cons.prems(4) s by simp
  next
    case False
    with Cons.prems have "Suc i < n" by simp
    then obtain bs where "frames ser ?ab (take (n - Suc i) rs) = Inr bs" "r' n = Some (digest bs)"
      using Cons.IH[OF loop] Cons.prems by auto
    moreover have "n - i = Suc (n - Suc i)" using \<open>Suc i < n\<close> by simp
    ultimately show ?thesis using s by (simp del: diff_Suc_Suc)
  qed
qed

lemma fold_max_ge: "x \<in> set xs \<or> x \<le> m \<Longrightarrow> x \<le> fold max xs (m :: nat)"
proof (induction xs arbitrary: m)
  case (Cons y ys)
  then show ?case by (cases "x \<in> set ys \<or> x \<le> max y m") (simp_all add: le_max_iff_disj)
qed simp

lemma fold_max_le: "\<forall>x \<in> set xs. x \<le> k \<Longrightarrow> m \<le> k \<Longrightarrow> fold max xs (m :: nat) \<le> k"
  by (induction xs arbitrary: m) auto

text \<open>The lengths a caller asked for are the keys, each with the hash of that prefix.\<close>

lemma prefix_hashes_Inr:
  assumes "prefix_hashes digest ser rs lengths = Inr (m, calls)"
  shows "dom m = nat ` set lengths"
    and "n \<in> dom m \<Longrightarrow> hash_frames digest ser (take n rs) = Inr (the (m n))"
    and "\<exists>k ss. map_res ser (take k rs) = Inr ss \<and> k \<le> length rs \<and> nat ` set lengths \<subseteq> {..k} \<and>
           (k = 0 \<or> k \<in> nat ` set lengths) \<and> calls = zip [0..<k] ss"
proof -
  let ?req = "map nat (dedup lengths)" and ?m0 = "if (0::nat) \<in> nat ` set lengths then [0 \<mapsto> digest []] else Map.empty"
  let ?last = "fold max ?req 0"
  have valid: "\<forall>l \<in> set lengths. valid_length (length rs) l"
    using assms by (auto simp: prefix_hashes_def list_all_iff split: if_splits)
  then have loop: "prefix_loop digest ser ?req 0 [] ?m0 [] (take ?last rs) = Inr (m, calls)"
    using assms by (simp add: prefix_hashes_def list_all_iff Let_def split: if_splits)
  have last_le: "?last \<le> length rs"
    using valid by (intro fold_max_le) (auto simp: valid_length_def)
  have req_le: "n \<in> nat ` set lengths \<Longrightarrow> n \<le> ?last" for n by (intro fold_max_ge) auto
  have hash: "\<exists>bs. frames ser [] (take n rs) = Inr bs \<and> m n = Some (digest bs)" if n: "n \<in> nat ` set lengths" for n
  proof (cases "n = 0")
    case True
    then have "m 0 = ?m0 0" using prefix_loop_keep[OF loop, of 0] by simp
    with True n show ?thesis by simp
  next
    case False
    then show ?thesis using prefix_loop_result[OF loop, of n] n req_le[OF n] last_le
      by (simp add: take_all_iff min_absorb1)
  qed
  show dom: "dom m = nat ` set lengths"
    using hash prefix_loop_dom[OF loop] by (fastforce split: if_splits)
  show "n \<in> dom m \<Longrightarrow> hash_frames digest ser (take n rs) = Inr (the (m n))"
    using hash[of n] dom by (auto simp: hash_frames_def)
  have "?last = 0 \<or> ?last \<in> nat ` set lengths"
  proof -
    have "fold max xs (a :: nat) = a \<or> fold max xs a \<in> set xs" for xs a
      by (induction xs arbitrary: a) (auto simp: max_def split: if_splits)
    from this[of ?req 0] show ?thesis by simp
  qed
  moreover obtain ss where "map_res ser (take ?last rs) = Inr ss" "calls = zip [0..<?last] ss"
    using prefix_loop_calls[OF loop] last_le by (auto simp: min_absorb2)
  ultimately show "\<exists>k ss. map_res ser (take k rs) = Inr ss \<and> k \<le> length rs \<and> nat ` set lengths \<subseteq> {..k} \<and>
           (k = 0 \<or> k \<in> nat ` set lengths) \<and> calls = zip [0..<k] ss"
    using last_le req_le by (intro exI[of _ ?last] exI[of _ ss]) auto
qed

section \<open>The printed text is one line of scalar values\<close>

lemma set_join: "set (join sep xs) \<subseteq> set sep \<union> (\<Union>x \<in> set xs. set x)"
  by (induction sep xs rule: join.induct) auto

lemma well_formed_join: "well_formed sep \<Longrightarrow> \<forall>x \<in> set xs. well_formed x \<Longrightarrow> well_formed (join sep xs)"
  by (induction sep xs rule: join.induct) (auto intro: well_formed_append)

lemma well_formed_Cons: "plain_unit u \<Longrightarrow> well_formed s \<Longrightarrow> well_formed (u # s)"
  using well_formed_append[of "[u]" s] by (simp add: plain_unit_def)

lemma ascii_plain: "unat u < 0x80 \<Longrightarrow> plain_unit u"
  by (auto simp: plain_unit_def dest: unat_high unat_low)

text \<open>A line: scalar values only, and no line feed.\<close>

definition line_text :: "jstring \<Rightarrow> bool" where
  "line_text s \<longleftrightarrow> well_formed s \<and> 0x0a \<notin> set s"

lemma line_text_append: "line_text a \<Longrightarrow> line_text b \<Longrightarrow> line_text (a @ b)"
  by (auto simp: line_text_def intro: well_formed_append)

lemma line_text_join: "line_text sep \<Longrightarrow> \<forall>x \<in> set xs. line_text x \<Longrightarrow> line_text (join sep xs)"
  using set_join[of sep xs] well_formed_join[of sep xs] by (auto simp: line_text_def)

lemma line_text_ascii: "\<forall>u \<in> set s. unat u < 0x80 \<and> u \<noteq> 0x0a \<Longrightarrow> line_text s"
  by (auto simp: line_text_def intro: well_formed_plain ascii_plain)

lemma line_text_punct [simp]: "line_text []" "line_text [0x2c]" "line_text [0x3a]" "line_text [0x5b]"
  "line_text [0x5d]" "line_text [0x7b]" "line_text [0x7d]" "line_text [0x22]"
  by (auto intro!: line_text_ascii)

lemma line_text_words: "line_text (js ''true'')" "line_text (js ''false'')" "line_text (js ''null'')"
  by (auto simp: js_words intro!: line_text_ascii)

lemma line_text_number: "\<forall>u \<in> set s. number_unit u \<Longrightarrow> line_text s"
  by (rule line_text_ascii) (auto simp: number_unit_def dest!: digit_unit_bounds bspec)

lemma hex_digit_bounds: "n < 16 \<Longrightarrow> 0x30 \<le> unat (hex_digit n) \<and> unat (hex_digit n) < 0x80"
  using unat_small[of "0x30 + n"] unat_small[of "0x57 + n"] by (auto simp: hex_digit_def simp del: of_nat_add)

lemma hex_digit_line: "n < 16 \<Longrightarrow> unat (hex_digit n) < 0x80 \<and> hex_digit n \<noteq> 0x0a"
  using hex_digit_bounds[of n] by auto

lemma line_text_quote_unit: "line_text (quote_unit u)"
proof -
  have "unat u div 0x1000 < 16" using unat_u16[of u] by simp
  then have esc: "line_text (unicode_escape u)"
    using hex_digit_line by (intro line_text_ascii) (simp add: unicode_escape_def Let_def)
  show ?thesis
  proof (cases "u < 0x20 \<or> high_surrogate u \<or> low_surrogate u")
    case True
    then show ?thesis using esc by (auto simp: quote_unit_def intro!: line_text_ascii)
  next
    case False
    then show ?thesis by (auto simp: quote_unit_def line_text_def high_surrogate_def low_surrogate_def)
  qed
qed

lemma line_text_quote_units: "line_text (quote_units s)"
proof (induction s rule: quote_units.induct)
  case (3 u v s)
  show ?case
  proof (cases "high_surrogate u \<and> low_surrogate v")
    case True
    with surrogate_not_special[of u] surrogate_not_special[of v] 3 show ?thesis
      by (auto simp: line_text_def)
  next
    case False
    then have "quote_units (u # v # s) = quote_unit u @ quote_units (v # s)" by (simp only: quote_units.simps if_False)
    with 3(2)[OF False] show ?thesis by (simp only: line_text_append line_text_quote_unit)
  qed
qed (auto simp: line_text_quote_unit)

lemma line_text_quote: "line_text (quote s)"
  using line_text_append[OF line_text_append[OF line_text_punct(8) line_text_quote_units[of s]] line_text_punct(8)]
  by (simp add: quote_def)

lemmas line_text_intros = line_text_append line_text_join line_text_quote line_text_words

lemma line_text_stringify:
  "ok_by mk v \<Longrightarrow> line_text (stringify v)"
  "\<forall>x \<in> set xs. ok_by mk x \<Longrightarrow> \<forall>x \<in> set (elems_str xs). line_text x"
  "\<forall>p \<in> set ps. ok_by mk (snd p) \<Longrightarrow> \<forall>x \<in> set (members_str ps). line_text x"
proof (induction v and xs and ps rule: stringify_elems_str_members_str.induct)
  case (6 xs)
  then have "line_text ([0x5b] @ join [0x2c] (elems_str xs) @ [0x5d])"
    by (intro line_text_append line_text_join) auto
  then show ?case by simp
next
  case (7 ps)
  then have "line_text ([0x7b] @ join [0x2c] (members_str ps) @ [0x7d])"
    by (intro line_text_append line_text_join) auto
  then show ?case by simp
next
  case (11 k v ps)
  then have "v \<noteq> JUndef" by auto
  with 11 have "line_text (quote k @ [0x3a] @ stringify v)"
    by (intro line_text_append line_text_quote) auto
  with 11 show ?case by (cases "v = JUndef") auto
qed (auto simp: line_text_words line_text_quote line_text_number num_str_units)


section \<open>Canonical text and the sorted form of a value\<close>

text \<open>The value with the members of every object in UTF-16 order of their keys.\<close>

fun sorted_form :: "jsval \<Rightarrow> jsval" where
  "sorted_form (JArr xs) = JArr (map sorted_form xs)"
| "sorted_form (JObj ps) = JObj (sort_key fst (map (\<lambda>p. (fst p, sorted_form (snd p))) ps))"
| "sorted_form v = v"

lemma insort_key_map: "insort_key f (g x) (map g xs) = map g (insort_key (\<lambda>y. f (g y)) x xs)"
  by (induction xs) auto

lemma sort_key_map_swap: "sort_key f (map g xs) = map g (sort_key (\<lambda>y. f (g y)) xs)"
  by (induction xs) (auto simp: insort_key_map)

lemma canonical_members_map: "canonical_members ps = map (\<lambda>p. (fst p, canonicalize (snd p))) ps"
  by (induction ps) auto

lemma canonical_elems_map: "canonical_elems xs = map_res canonicalize xs"
  by (induction xs) auto

lemma elems_str_map: "elems_str xs = map stringify xs"
  by (induction xs) auto

lemma members_str_map:
  "\<forall>p \<in> set ps. snd p \<noteq> JUndef \<Longrightarrow> members_str ps = map (\<lambda>p. quote (fst p) @ [0x3a] @ stringify (snd p)) ps"
  by (induction ps) auto

lemma stringLiteral_Inr: "stringLiteral s = Inr t \<Longrightarrow> t = quote s"
  by (auto simp: stringLiteral_def)

lemma sorted_form_undef [simp]: "sorted_form v = JUndef \<longleftrightarrow> v = JUndef"
  by (cases v) auto

definition canonical_member :: "jstring \<times> jstring res \<Rightarrow> jstring res" where
  "canonical_member q = bind_res (stringLiteral (fst q)) (\<lambda>k. bind_res (snd q) (\<lambda>v. Inr (k @ [0x3a] @ v)))"

lemma canonicalize_obj:
  "canonicalize (JObj ps) =
     bind_res (map_res (\<lambda>p. canonical_member (fst p, canonicalize (snd p))) (sort_key fst ps))
       (\<lambda>ys. Inr ([0x7b] @ join [0x2c] ys @ [0x7d]))"
proof -
  have "map_res f (map g xs) = map_res (\<lambda>x. f (g x)) xs"
    for f :: "jstring \<times> jstring res \<Rightarrow> jstring res" and g :: "jstring \<times> jsval \<Rightarrow> jstring \<times> jstring res" and xs
    by (induction xs) auto
  then show ?thesis
    by (simp add: canonical_members_map sort_key_map_swap canonical_member_def)
qed

lemma list_all2_map_right: "list_all2 (\<lambda>x y. f x = Inr y) xs ys \<Longrightarrow> (\<And>x y. x \<in> set xs \<Longrightarrow> f x = Inr y \<Longrightarrow> y = g x) \<Longrightarrow> ys = map g xs"
  by (induction rule: list_all2_induct) auto

lemma canonicalize_stringify: "canonicalize v = Inr s \<Longrightarrow> s = stringify (sorted_form v)"
proof (induction v arbitrary: s)
  case (JArr xs)
  then obtain ys where ys: "map_res canonicalize xs = Inr ys" "s = [0x5b] @ join [0x2c] ys @ [0x5d]"
    by (auto simp: canonical_elems_map)
  have "ys = map (\<lambda>x. stringify (sorted_form x)) xs"
    using ys(1) JArr.IH by (intro list_all2_map_right[where f = canonicalize]) (auto simp: map_res_Inr)
  with ys show ?case by (simp add: elems_str_map comp_def)
next
  case (JObj ps)
  let ?f = "\<lambda>p. canonical_member (fst p, canonicalize (snd p))"
  let ?g = "\<lambda>p. quote (fst p) @ [0x3a] @ stringify (sorted_form (snd p))"
  obtain ys where ys: "map_res ?f (sort_key fst ps) = Inr ys" "s = [0x7b] @ join [0x2c] ys @ [0x7d]"
    using JObj.prems by (auto simp: canonicalize_obj simp del: canonicalize.simps)
  have member: "y = ?g p \<and> snd p \<noteq> JUndef" if "p \<in> set ps" "?f p = Inr y" for p y
  proof -
    have "snd p \<in> Basic_BNFs.snds p" by (cases p) auto
    then show ?thesis using that JObj.IH[of p "snd p"]
      by (auto simp: canonical_member_def dest!: stringLiteral_Inr)
  qed
  have all: "list_all2 (\<lambda>p y. ?f p = Inr y) (sort_key fst ps) ys" using ys(1) by (simp add: map_res_Inr)
  have eq: "ys = map ?g (sort_key fst ps)"
    by (rule list_all2_map_right[OF all]) (use member in auto)
  have "\<forall>p \<in> set (sort_key fst ps). snd p \<noteq> JUndef"
  proof
    fix p assume "p \<in> set (sort_key fst ps)"
    then obtain i where "i < length (sort_key fst ps)" "sort_key fst ps ! i = p" by (meson in_set_conv_nth)
    with list_all2_nthD[OF all] have "?f p = Inr (ys ! i)" by blast
    moreover have "p \<in> set ps" using \<open>p \<in> set (sort_key fst ps)\<close> by simp
    ultimately show "snd p \<noteq> JUndef" using member by blast
  qed
  then have "members_str (sort_key fst (map (\<lambda>p. (fst p, sorted_form (snd p))) ps)) = map ?g (sort_key fst ps)"
    by (subst members_str_map) (auto simp: sort_key_map_swap comp_def)
  with ys eq show ?case by simp
qed (auto simp: stringLiteral_def split: if_splits)

lemma ok_sorted_form: "ok_by mk v \<Longrightarrow> ok_by id (sorted_form v)"
proof (induction v)
  case (JObj ps)
  have "ok_by id (sorted_form v)" if "(k, v) \<in> set ps" for k v
    using JObj.prems that by (intro JObj.IH[OF that]) auto
  then show ?case by (auto simp: id_def)
qed (auto simp: id_def)

theorem canonicalize_inj:
  assumes "ok_by mk v" and "ok_by mk w" and "canonicalize v = Inr s" and "canonicalize w = Inr s"
  shows "sorted_form v = sorted_form w"
  using assms stringify_inj[of id "sorted_form v" "sorted_form w"] ok_sorted_form canonicalize_stringify
  by metis


section \<open>What a framed hash fixes\<close>

text \<open>
  An interface of serializers: on the records of \<open>ok\<close> the text is one line, and equal texts mean
  equal \<open>image\<close>s. Both serializations of the core provide it.
\<close>

lemma newline_plain: "plain_unit 0x0a"
  by (rule ascii_plain) simp

lemma utf8_newline: "utf8 (0x0a # r) = utf8 newline @ utf8 r"
  using utf8_append[of newline r] newline_plain by (simp add: plain_unit_def)

lemma well_formed_newline: "well_formed r \<Longrightarrow> well_formed (0x0a # r)"
  by (rule well_formed_Cons[OF newline_plain])

locale line_serializer =
  fixes ser :: "'r \<Rightarrow> jstring res" and ok :: "'r \<Rightarrow> bool" and image :: "'r \<Rightarrow> 'i"
  assumes line: "ok r \<Longrightarrow> ser r = Inr s \<Longrightarrow> line_text s"
    and text_inj: "ok r \<Longrightarrow> ok q \<Longrightarrow> ser r = Inr s \<Longrightarrow> ser q = Inr s \<Longrightarrow> image r = image q"
begin

lemma frames_units:
  "\<forall>r \<in> set rs. ok r \<Longrightarrow> frames ser b rs = Inr c \<Longrightarrow>
   \<exists>ss. list_all2 (\<lambda>r s. ser r = Inr s \<and> line_text s) rs ss \<and> c = b @ utf8 (concat (map (\<lambda>s. s @ newline) ss))
     \<and> well_formed (concat (map (\<lambda>s. s @ newline) ss))"
proof (induction rs arbitrary: b)
  case Nil
  then show ?case by (auto simp: utf8_def)
next
  case (Cons r rs)
  then obtain s where s: "ser r = Inr s" and rest: "frames ser (b @ utf8 s @ utf8 newline) rs = Inr c" by auto
  then have ls: "line_text s" using line[of r s] Cons.prems(1) by simp
  obtain ss where ss: "list_all2 (\<lambda>r s. ser r = Inr s \<and> line_text s) rs ss"
      "c = (b @ utf8 s @ utf8 newline) @ utf8 (concat (map (\<lambda>s. s @ newline) ss))"
      "well_formed (concat (map (\<lambda>s. s @ newline) ss))"
    using Cons.IH[OF _ rest] Cons.prems(1) by auto
  have "well_formed s" using ls by (simp add: line_text_def)
  then have "utf8 (s @ 0x0a # w) = utf8 s @ utf8 newline @ utf8 w" for w
    unfolding utf8_append[OF \<open>well_formed s\<close>] utf8_newline[of w] by simp
  then show ?case using ss s ls \<open>well_formed s\<close>
    by (intro exI[of _ "s # ss"]) (simp add: well_formed_append well_formed_newline)
qed

lemma split_lines:
  "list_all line_text ss \<Longrightarrow> list_all line_text ts \<Longrightarrow>
   concat (map (\<lambda>s. s @ newline) ss) = concat (map (\<lambda>s. s @ newline) ts) \<Longrightarrow> ss = ts"
proof (induction ss arbitrary: ts)
  case Nil
  then show ?case by (cases ts) auto
next
  case (Cons s ss)
  then obtain t ts' where ts: "ts = t # ts'" by (cases ts) auto
  have tw: "takeWhile (\<lambda>u. u \<noteq> 0x0a) (x @ newline @ y) = x" if "line_text x" for x y
    using that by (subst takeWhile_append2) (auto simp: line_text_def)
  let ?c = "\<lambda>ss. concat (map (\<lambda>s. s @ newline) ss)"
  have eq: "s @ newline @ ?c ss = t @ newline @ ?c ts'" using Cons.prems(3) ts by simp
  have "s = t"
    using arg_cong[OF eq, of "takeWhile (\<lambda>u. u \<noteq> 0x0a)"] Cons.prems(1,2)
    unfolding ts list.pred_inject by (simp only: tw)
  with eq Cons.prems Cons.IH[of ts'] ts show ?case by simp
qed

lemma frames_inj:
  assumes "\<forall>r \<in> set rs. ok r" and "\<forall>r \<in> set qs. ok r"
    and "frames ser [] rs = Inr b" and "frames ser [] qs = Inr b"
  shows "map image rs = map image qs"
proof -
  obtain ss where ss: "list_all2 (\<lambda>r s. ser r = Inr s \<and> line_text s) rs ss"
      "b = utf8 (concat (map (\<lambda>s. s @ newline) ss))" "well_formed (concat (map (\<lambda>s. s @ newline) ss))"
    using frames_units[OF assms(1,3)] by auto
  obtain ts where ts: "list_all2 (\<lambda>r s. ser r = Inr s \<and> line_text s) qs ts"
      "b = utf8 (concat (map (\<lambda>s. s @ newline) ts))" "well_formed (concat (map (\<lambda>s. s @ newline) ts))"
    using frames_units[OF assms(2,4)] by auto
  have "list_all line_text ss" "list_all line_text ts"
    using ss(1) ts(1) by (auto simp: list_all2_conv_all_nth list_all_length)
  moreover have "concat (map (\<lambda>s. s @ newline) ss) = concat (map (\<lambda>s. s @ newline) ts)"
    using utf8_inj[OF ss(3) ts(3)] ss(2) ts(2) by simp
  ultimately have "ss = ts" by (rule split_lines)
  with ss(1) ts(1) have len: "length rs = length qs"
    and both: "\<And>i. i < length rs \<Longrightarrow> ser (rs ! i) = Inr (ss ! i) \<and> ser (qs ! i) = Inr (ss ! i)"
    by (auto simp: list_all2_conv_all_nth)
  have "image (rs ! i) = image (qs ! i)" if "i < length rs" for i
    using that len both[OF that] assms(1,2) by (intro text_inj[of _ _ "ss ! i"]) auto
  with len show ?thesis by (auto intro!: nth_equalityI)
qed

lemma hash_fixes:
  assumes "\<forall>r \<in> set rs. ok r" and "\<forall>r \<in> set qs. ok r"
    and "hash_frames digest ser rs = Inr h" and "hash_frames digest ser qs = Inr h"
  shows "map image rs = map image qs \<or>
    (\<exists>a b. frames ser [] rs = Inr a \<and> frames ser [] qs = Inr b \<and> a \<noteq> b \<and> digest a = digest b)"
proof -
  obtain a b where ab: "frames ser [] rs = Inr a" "frames ser [] qs = Inr b" "digest a = h" "digest b = h"
    using assms(3,4) by (auto simp: hash_frames_def)
  show ?thesis
  proof (cases "a = b")
    case True
    then show ?thesis using frames_inj[OF assms(1,2), of a] ab by simp
  next
    case False
    then show ?thesis using ab by (intro disjI2 exI[of _ a] exI[of _ b]) simp
  qed
qed

end

definition canonical_ok :: "session_record \<Rightarrow> bool" where
  "canonical_ok r = ok_by id (normalizeRecord r)"

lemma canonicalize_line: "ok_by mk v \<Longrightarrow> canonicalize v = Inr s \<Longrightarrow> line_text s"
  using canonicalize_stringify[of v s] line_text_stringify(1)[OF ok_sorted_form[of mk v]] by simp

interpretation jcs: line_serializer serializeCanonicalRecord canonical_ok "\<lambda>r. sorted_form (normalizeRecord r)"
  by unfold_locales
    (auto simp: serializeCanonicalRecord_def canonical_ok_def intro: canonicalize_line canonicalize_inj)

interpretation pi: line_serializer serializeNative "\<lambda>r. json_ok (r_native r)" r_native
  by unfold_locales (auto simp: serializeNative_def intro: line_text_stringify stringify_inj)


section \<open>Key order does not matter\<close>

lemma sort_key_idem: "sort_key f (sort_key f xs) = sort_key f xs"
  by (rule sort_key_id_if_sorted) simp

lemma map_res_cong: "(\<And>x. x \<in> set xs \<Longrightarrow> f x = g x) \<Longrightarrow> map_res f xs = map_res g xs"
  by (induction xs) auto

lemma map_res_map: "map_res f (map g xs) = map_res (\<lambda>x. f (g x)) xs"
  by (induction xs) auto

lemma canonicalize_sorted_form: "canonicalize (sorted_form v) = canonicalize v"
proof (induction v)
  case (JArr xs)
  then show ?case by (simp add: canonical_elems_map map_res_map cong: map_res_cong)
next
  case (JObj ps)
  let ?q = "\<lambda>p. (fst p, sorted_form (snd p))"
  have "canonicalize (sorted_form (snd p)) = canonicalize (snd p)" if "p \<in> set ps" for p
    using JObj[OF that] by (cases p) auto
  then have "map_res (\<lambda>p. canonical_member (fst p, canonicalize (snd p))) (map ?q (sort_key fst ps))
      = map_res (\<lambda>p. canonical_member (fst p, canonicalize (snd p))) (sort_key fst ps)"
    unfolding map_res_map by (intro map_res_cong) auto
  moreover have "sort_key fst (sort_key fst (map ?q ps)) = map ?q (sort_key fst ps)"
    unfolding sort_key_idem by (simp add: sort_key_map_swap)
  ultimately show ?case by (simp only: sorted_form.simps canonicalize_obj)
qed auto

section \<open>Properties\<close>

text \<open>
  C20: Canonical text is a normal form. For JSON values, two values have the same canonical text
  exactly when they are the same value up to the order of object members: the order of keys never
  changes the text, and no two different values share one.
\<close>

theorem canonicalize_normal_form:
  assumes "ok_by mk v" and "ok_by mk w" and "canonicalize v = Inr s"
  shows "canonicalize w = Inr s \<longleftrightarrow> sorted_form v = sorted_form w"
  using assms canonicalize_inj canonicalize_sorted_form by metis

theorem canonicalize_normal_form_witness:
  "canonicalize (obj [(''b'', JNull), (''a'', JStr (js ''x''))]) = canonicalize (obj [(''a'', JStr (js ''x'')), (''b'', JNull)])"
proof -
  have c: "canonicalize (obj [(''a'', JStr (js ''x'')), (''b'', JNull)]) = Inr (js ''{\"a\":\"x\",\"b\":null}'')"
    by code_simp
  have s: "sorted_form (obj [(''a'', JStr (js ''x'')), (''b'', JNull)]) = sorted_form (obj [(''b'', JNull), (''a'', JStr (js ''x''))])"
    by code_simp
  have "ok_by id (obj [(''a'', JStr (js ''x'')), (''b'', JNull)])" "ok_by id (obj [(''b'', JNull), (''a'', JStr (js ''x''))])"
    by (simp_all add: obj_def)
  from canonicalize_normal_form[OF this c] s c show ?thesis by simp
qed

text \<open>
  C3: The source hash is tamper evident. If two record lists have the same canonical hash, then their
  normalized records are equal one by one, up to member order, or the two byte strings that were
  hashed are an explicit collision of the digest. The framing loses nothing: record boundaries,
  every structural field and every opaque payload are fixed by the hash.
\<close>

theorem canonical_hash_tamper_evident:
  assumes "list_all canonical_ok rs" and "list_all canonical_ok qs"
    and "hashCanonicalRecords digest rs = Inr h" and "hashCanonicalRecords digest qs = Inr h"
  shows "map (\<lambda>r. sorted_form (normalizeRecord r)) rs = map (\<lambda>r. sorted_form (normalizeRecord r)) qs \<or>
    (\<exists>a b. frames serializeCanonicalRecord [] rs = Inr a \<and> frames serializeCanonicalRecord [] qs = Inr b \<and>
      a \<noteq> b \<and> digest a = digest b)"
  using assms by (intro jcs.hash_fixes) (auto simp: list_all_iff hashCanonicalRecords_def)

theorem canonical_hash_tamper_evident_witness:
  "\<exists>h. hashCanonicalRecords (map ucast) [sample_user] = Inr h \<and> sourceText sample_user = js ''keep x''"
proof -
  have ok: "list_all canonical_ok [sample_user]" by code_simp
  have "isl (hashCanonicalRecords (map ucast) [sample_user]) = False" by code_simp
  then obtain h where "hashCanonicalRecords (map ucast) [sample_user] = Inr h"
    by (cases "hashCanonicalRecords (map ucast) [sample_user] :: jstring res") auto
  with canonical_hash_tamper_evident[OF ok ok this this] show ?thesis by auto
qed

text \<open>
  The one-pass prefix hashes are the hashes of the prefixes. Whenever
  \<open>hashCanonicalRecordPrefixes\<close> returns, its keys are exactly the requested lengths and each value is
  what \<open>hashCanonicalRecords\<close> computes from that prefix alone.
\<close>

theorem canonical_prefix_hashes:
  assumes "hashCanonicalRecordPrefixes digest rs lengths = Inr (m, calls)"
  shows "dom m = nat ` set lengths \<and>
    (\<forall>n \<in> dom m. hashCanonicalRecords digest (take n rs) = Inr (the (m n)))"
  using prefix_hashes_Inr[of digest serializeCanonicalRecord rs lengths m calls] assms
  by (simp add: hashCanonicalRecordPrefixes_def hashCanonicalRecords_def)

theorem canonical_prefix_hashes_witness:
  "\<exists>m calls. hashCanonicalRecordPrefixes (map ucast) [sample_user, sample_user] [1, 2] = Inr (m, calls) \<and> dom m = {1, 2}"
proof -
  have "isl (hashCanonicalRecordPrefixes (map ucast) [sample_user, sample_user] [1, 2]) = False" by code_simp
  then obtain p where p: "hashCanonicalRecordPrefixes (map ucast) [sample_user, sample_user] [1, 2] = Inr p"
    by (cases "hashCanonicalRecordPrefixes (map ucast) [sample_user, sample_user] [1, 2]
      :: ((nat \<Rightarrow> jstring option) \<times> (nat \<times> jstring) list) res") auto
  obtain m calls where mc: "p = (m, calls)" by force
  from canonical_prefix_hashes[OF p[unfolded mc]] p mc show ?thesis by auto
qed

end
