(* ===== verification/Config.thy ===== *)
theory Config
  imports Complex_Main Records
begin

text \<open>
  \<^bold>\<open>config.ts\<close>: the note budgets and the memory budget. Token counts are integers. The source
  multiplies by 0.8, 0.15, 0.5 and 0.9 in floating point and rounds; the model rounds the exact
  product, which is the same integer for the counts below \<open>2\<^sup>50\<close> that a model window can have.
\<close>

section \<open>Note budgets\<close>

definition MAX_NOTE_TOKENS :: int where
  "MAX_NOTE_TOKENS = 8000"

definition textTokens :: "jstring \<Rightarrow> nat" where
  "textTokens s = (byte_length s + 2) div 3"

datatype budget_mode = FixedMode | TieredMode

record note_budget =
  nb_mode :: budget_mode
  nb_tier :: int
  nb_sourceTokens :: int
  nb_previousTokens :: int
  nb_baseTokens :: int
  nb_hardTokens :: int

definition safe_count :: "int \<Rightarrow> bool" where
  "safe_count n \<longleftrightarrow> \<bar>n\<bar> \<le> max_safe_integer \<and> n \<ge> 0"

text \<open>\<open>Math.ceil(n * 0.9)\<close> and \<open>Math.floor(n * 0.15)\<close>.\<close>

definition ceil_nine_tenths :: "int \<Rightarrow> int" where
  "ceil_nine_tenths n = - ((- (9 * n)) div 10)"

definition note_cap :: "int \<Rightarrow> int" where
  "note_cap threshold = max 500 (min MAX_NOTE_TOKENS (15 * threshold div 100))"

definition source_tier :: "int \<Rightarrow> int" where
  "source_tier n = (if n \<le> 80000 then 1 else if n \<le> 200000 then 2 else if n \<le> 400000 then 3 else 4)"

definition tier_base :: "int \<Rightarrow> int" where
  "tier_base t = [3000, 4000, 5000, 6000] ! nat (t - 1)"

definition tier_hard :: "int \<Rightarrow> int" where
  "tier_hard t = [4000, 5000, 6000, 8000] ! nat (t - 1)"

definition selectNoteBudget :: "int option \<Rightarrow> int \<Rightarrow> int \<Rightarrow> int \<Rightarrow> note_budget res" where
  "selectNoteBudget noteTokens threshold sourceTokens previousTokens =
     (if \<not> (safe_count sourceTokens \<and> safe_count previousTokens)
      then throw CONTEXT_CONFIG ''CONTEXT_CONFIG: invalid note budget measurement''
      else
        let cap = note_cap threshold; tier = source_tier sourceTokens;
            base = (case noteTokens of Some n \<Rightarrow> n
                    | None \<Rightarrow> max (tier_base tier) (ceil_nine_tenths previousTokens));
            hard = (case noteTokens of Some n \<Rightarrow> n | None \<Rightarrow> max (tier_hard tier) previousTokens)
        in Inr \<lparr>nb_mode = (if noteTokens \<noteq> None then FixedMode else TieredMode),
                nb_tier = (if noteTokens \<noteq> None then 0 else tier),
                nb_sourceTokens = sourceTokens, nb_previousTokens = previousTokens,
                nb_baseTokens = min base cap, nb_hardTokens = min hard cap\<rparr>)"

text \<open>The budget as it is stored in a checkpoint.\<close>

definition mode_json :: "budget_mode \<Rightarrow> jsval" where
  "mode_json m = JStr (case m of FixedMode \<Rightarrow> js ''fixed'' | TieredMode \<Rightarrow> js ''tiered'')"

abbreviation jint :: "int \<Rightarrow> jsval" where
  "jint i \<equiv> JNum (JInt i)"

definition note_budget_json :: "note_budget \<Rightarrow> jsval" where
  "note_budget_json b = obj
     [(''version'', jint 1), (''mode'', mode_json (nb_mode b)), (''tier'', jint (nb_tier b)),
      (''sourceTokens'', jint (nb_sourceTokens b)), (''previousTokens'', jint (nb_previousTokens b)),
      (''baseTokens'', jint (nb_baseTokens b)), (''hardTokens'', jint (nb_hardTokens b))]"

text \<open>
  \<open>isCount(v, minimum)\<close>, giving the count. A number with a fraction or of 22 digits and more is no
  count here; the source rejects the latter by its other bounds.
\<close>

definition count_of :: "jsval \<Rightarrow> int \<Rightarrow> int option" where
  "count_of v mn = (case as_int v of Some i \<Rightarrow> if i \<ge> mn then Some i else None | None \<Rightarrow> None)"

definition stored_budget_ok :: "jsval \<Rightarrow> bool" where
  "stored_budget_ok v \<longleftrightarrow>
     isRecord v \<and> jfield v ''version'' = jint 1 \<and>
     (jfield v ''mode'' = JStr (js ''fixed'') \<or> jfield v ''mode'' = JStr (js ''tiered'')) \<and>
     (case count_of (jfield v ''tier'') 0 of None \<Rightarrow> False
      | Some tier \<Rightarrow> \<not> tier > 4 \<and>
          \<not> (if jfield v ''mode'' = JStr (js ''fixed'') then tier \<noteq> 0 else tier = 0)) \<and>
     (case count_of (jfield v ''sourceTokens'') 0 of None \<Rightarrow> False | Some n \<Rightarrow> n \<le> max_safe_integer) \<and>
     (case count_of (jfield v ''previousTokens'') 0 of None \<Rightarrow> False | Some n \<Rightarrow> n \<le> max_safe_integer) \<and>
     (case (count_of (jfield v ''baseTokens'') 500, count_of (jfield v ''hardTokens'') 500) of
        (Some base, Some hard) \<Rightarrow> \<not> base > hard \<and> \<not> hard > MAX_NOTE_TOKENS \<and>
          \<not> (jfield v ''mode'' = JStr (js ''fixed'') \<and> base \<noteq> hard)
      | _ \<Rightarrow> False)"

definition storedNoteLimit :: "jsval \<Rightarrow> int res" where
  "storedNoteLimit v =
     (if v = JUndef then Inr 6000
      else if \<not> stored_budget_ok v
      then throw CONTEXT_NOTE_VERSION ''CONTEXT_NOTE_VERSION: invalid stored note budget''
      else Inr (the (as_int (jfield v ''hardTokens''))))"

section \<open>Memory budget\<close>

text \<open>
  \<open>bm_contextWindow\<close> is \<open>None\<close> when the window is not a finite number; \<open>compactAt\<close> is a token count
  above 1 or a share of the window, a rational.
\<close>

record budget_model =
  bm_id :: jstring
  bm_contextWindow :: "int option"
  bm_maxTokens :: int

record budget_config =
  bc_keepRecentTokens :: int
  bc_noteTokens :: "int option"
  bc_compactAt :: "rat option"

record memory_budget =
  mb_capacity :: int
  mb_reserve :: int
  mb_threshold :: int
  mb_inputLimit :: int
  mb_noteTokens :: int
  mb_recentTokens :: int

definition lower_ascii :: "u16 \<Rightarrow> u16" where
  "lower_ascii u = (if 0x41 \<le> u \<and> u \<le> 0x5a then u + 0x20 else u)"

text \<open>\<open>/gemini/i\<close> and \<open>/^gpt(?:-|$)/i\<close> on the model id.\<close>

definition is_gemini :: "jstring \<Rightarrow> bool" where
  "is_gemini i \<longleftrightarrow> contains (js ''gemini'') (map lower_ascii i)"

definition is_gpt :: "jstring \<Rightarrow> bool" where
  "is_gpt i \<longleftrightarrow> (let l = map lower_ascii i in starts_with (js ''gpt-'') l \<or> l = js ''gpt'')"


text \<open>The minimum of a bound and an optional one: \<open>None\<close> is \<open>Infinity\<close>.\<close>

definition min_opt :: "rat \<Rightarrow> rat option \<Rightarrow> rat" where
  "min_opt x y = (case y of None \<Rightarrow> x | Some z \<Rightarrow> min x z)"

definition model_cap :: "jstring \<Rightarrow> rat option" where
  "model_cap i = (if is_gemini i then Some 200000 else if is_gpt i then Some 400000 else None)"

definition requested_point :: "int \<Rightarrow> rat option \<Rightarrow> rat option" where
  "requested_point capacity c = map_option (\<lambda>x. if x \<le> 1 then of_int capacity * x else x) c"

definition budget_threshold :: "budget_model \<Rightarrow> int \<Rightarrow> int \<Rightarrow> rat option \<Rightarrow> int" where
  "budget_threshold model capacity reserve c =
     \<lfloor>min_opt (min_opt (min (of_int capacity * 8 / 10) (of_int (capacity - reserve))) (model_cap (bm_id model)))
        (requested_point capacity c)\<rfloor>"

definition memoryBudget :: "budget_model \<Rightarrow> budget_config \<Rightarrow> memory_budget res" where
  "memoryBudget model config =
     (case bm_contextWindow model of
        None \<Rightarrow> throw CONTEXT_CAPACITY ''CONTEXT_CAPACITY: model window is too small or unknown''
      | Some capacity \<Rightarrow>
          if capacity < 4096 then throw CONTEXT_CAPACITY ''CONTEXT_CAPACITY: model window is too small or unknown''
          else
            let reserve = max 16384 (bm_maxTokens model);
                threshold = budget_threshold model capacity reserve (bc_compactAt config)
            in if threshold < 2048
               then throw CONTEXT_CAPACITY ''CONTEXT_CAPACITY: output reserve leaves no usable input window''
               else Inr \<lparr>mb_capacity = capacity, mb_reserve = reserve, mb_threshold = threshold,
                  mb_inputLimit = capacity - reserve,
                  mb_noteTokens = max 500 (min (case bc_noteTokens config of None \<Rightarrow> 3000 | Some n \<Rightarrow> n)
                                    (min MAX_NOTE_TOKENS (15 * threshold div 100))),
                  mb_recentTokens = min (bc_keepRecentTokens config) (threshold div 2)\<rparr>)"

section \<open>Facts\<close>

lemma min_opt_le: "min_opt x y \<le> x" "y = Some z \<Longrightarrow> min_opt x y \<le> z"
  by (auto simp: min_opt_def split: option.splits)

lemma note_cap_bounds: "500 \<le> note_cap t" "note_cap t \<le> MAX_NOTE_TOKENS"
  by (auto simp: note_cap_def MAX_NOTE_TOKENS_def)

lemma source_tier_cases: "source_tier n \<in> {1, 2, 3, 4}"
  by (auto simp: source_tier_def)

lemma tier_base_le_hard:
  "t \<in> {1, 2, 3, 4} \<Longrightarrow> 500 \<le> tier_base t \<and> tier_base t \<le> tier_hard t"
  by (auto simp: tier_base_def tier_hard_def)

lemma ceil_nine_tenths_le: "0 \<le> n \<Longrightarrow> ceil_nine_tenths n \<le> n"
  unfolding ceil_nine_tenths_def by linarith

lemma textTokens_bound: "int (byte_length s) \<le> 3 * int (textTokens s)" "3 * textTokens s \<le> byte_length s + 2"
  unfolding textTokens_def by presburger+

lemma textTokens_le_iff: "textTokens s \<le> n \<longleftrightarrow> byte_length s \<le> 3 * n"
  unfolding textTokens_def by presburger


section \<open>Properties\<close>

lemma select_bounds:
  assumes "selectNoteBudget nt threshold st pt = Inr b" and "case nt of None \<Rightarrow> True | Some n \<Rightarrow> 500 \<le> n"
  shows "500 \<le> nb_baseTokens b \<and> nb_baseTokens b \<le> nb_hardTokens b \<and> nb_hardTokens b \<le> MAX_NOTE_TOKENS"
    and "nb_sourceTokens b = st" and "nb_previousTokens b = pt" and "safe_count st" and "safe_count pt"
    and "if nt = None then nb_mode b = TieredMode \<and> nb_tier b \<in> {1, 2, 3, 4}
         else nb_mode b = FixedMode \<and> nb_tier b = 0 \<and> nb_baseTokens b = nb_hardTokens b"
proof -
  have s: "safe_count st" "safe_count pt"
    using assms(1) by (auto simp: selectNoteBudget_def split: if_splits)
  have pt: "ceil_nine_tenths pt \<le> pt" using s(2) by (intro ceil_nine_tenths_le) (simp add: safe_count_def)
  show "safe_count st" "safe_count pt" by (rule s)+
  show "nb_sourceTokens b = st" "nb_previousTokens b = pt"
    using assms(1) by (auto simp: selectNoteBudget_def Let_def split: if_splits)
  show "if nt = None then nb_mode b = TieredMode \<and> nb_tier b \<in> {1, 2, 3, 4}
         else nb_mode b = FixedMode \<and> nb_tier b = 0 \<and> nb_baseTokens b = nb_hardTokens b"
    using assms(1) source_tier_cases[of st] by (auto simp: selectNoteBudget_def Let_def split: if_splits)
  show "500 \<le> nb_baseTokens b \<and> nb_baseTokens b \<le> nb_hardTokens b \<and> nb_hardTokens b \<le> MAX_NOTE_TOKENS"
  proof (cases nt)
    case None
    then show ?thesis
      using assms(1) s pt tier_base_le_hard[OF source_tier_cases[of st]] note_cap_bounds[of threshold]
      by (auto simp: selectNoteBudget_def Let_def)
  next
    case (Some n)
    then show ?thesis using assms s note_cap_bounds[of threshold]
      by (auto simp: selectNoteBudget_def Let_def)
  qed
qed

text \<open>
  A selected note budget is a stored budget. Every budget \<open>selectNoteBudget\<close> returns, written to a
  checkpoint, is read back by \<open>storedNoteLimit\<close> as its hard limit, provided a configured fixed limit
  is at least 500; and the limits lie between 500 and 8000.
\<close>

theorem stored_budget_roundtrip:
  assumes "selectNoteBudget nt threshold st pt = Inr b" and "case nt of None \<Rightarrow> True | Some n \<Rightarrow> 500 \<le> n"
  shows "storedNoteLimit (note_budget_json b) = Inr (nb_hardTokens b) \<and>
    500 \<le> nb_baseTokens b \<and> nb_baseTokens b \<le> nb_hardTokens b \<and> nb_hardTokens b \<le> MAX_NOTE_TOKENS"
proof -
  note b = select_bounds[OF assms]
  have "stored_budget_ok (note_budget_json b)"
    using b unfolding stored_budget_ok_def
    by (auto simp: note_budget_json_def obj_def mode_json_def count_of_def safe_count_def split: if_splits)
  then show ?thesis using b by (simp add: storedNoteLimit_def note_budget_json_def obj_def)
qed

theorem stored_budget_roundtrip_witness:
  "\<exists>b. selectNoteBudget None 100000 90000 0 = Inr b \<and> storedNoteLimit (note_budget_json b) = Inr 5000"
proof -
  have s: "selectNoteBudget None 100000 90000 0 = Inr \<lparr>nb_mode = TieredMode, nb_tier = 2, nb_sourceTokens = 90000,
      nb_previousTokens = 0, nb_baseTokens = 4000, nb_hardTokens = 5000\<rparr>"
    by code_simp
  from stored_budget_roundtrip[OF s] s show ?thesis by simp
qed

text \<open>
  The memory budget keeps its promises. When \<open>memoryBudget\<close> returns, the compaction threshold is at
  least 2048, within the input limit and 80% of the window and not above the configured point; the
  note allowance is between 500 and 8000 and at most a quarter of the threshold, the recent tail at
  most half of it.
\<close>

theorem memoryBudget_bounds:
  assumes "memoryBudget model config = Inr b"
  shows "2048 \<le> mb_threshold b \<and> mb_threshold b \<le> mb_inputLimit b \<and> 10 * mb_threshold b \<le> 8 * mb_capacity b \<and>
    mb_capacity b = mb_inputLimit b + mb_reserve b \<and> 16384 \<le> mb_reserve b \<and>
    500 \<le> mb_noteTokens b \<and> mb_noteTokens b \<le> MAX_NOTE_TOKENS \<and> 4 * mb_noteTokens b \<le> mb_threshold b \<and>
    2 * mb_recentTokens b \<le> mb_threshold b \<and>
    (case bc_compactAt config of None \<Rightarrow> True
     | Some c \<Rightarrow> of_int (mb_threshold b) \<le> (if c \<le> 1 then of_int (mb_capacity b) * c else c))"
proof -
  obtain capacity where c: "bm_contextWindow model = Some capacity" "4096 \<le> capacity"
    using assms by (auto simp: memoryBudget_def split: option.splits if_splits)
  define reserve where "reserve = max 16384 (bm_maxTokens model)"
  define t where "t = budget_threshold model capacity reserve (bc_compactAt config)"
  have b: "2048 \<le> t" "mb_threshold b = t" "mb_inputLimit b = capacity - reserve" "mb_capacity b = capacity"
      "mb_reserve b = reserve" "mb_recentTokens b = min (bc_keepRecentTokens config) (t div 2)"
      "mb_noteTokens b = max 500 (min (case bc_noteTokens config of None \<Rightarrow> 3000 | Some n \<Rightarrow> n)
         (min MAX_NOTE_TOKENS (15 * t div 100)))"
  proof -
    have eq: "memoryBudget model config = (if t < 2048
        then throw CONTEXT_CAPACITY ''CONTEXT_CAPACITY: output reserve leaves no usable input window''
        else Inr \<lparr>mb_capacity = capacity, mb_reserve = reserve, mb_threshold = t, mb_inputLimit = capacity - reserve,
          mb_noteTokens = max 500 (min (case bc_noteTokens config of None \<Rightarrow> 3000 | Some n \<Rightarrow> n)
            (min MAX_NOTE_TOKENS (15 * t div 100))),
          mb_recentTokens = min (bc_keepRecentTokens config) (t div 2)\<rparr>)"
      using c unfolding memoryBudget_def Let_def reserve_def t_def by simp
    have ge: "\<not> t < 2048" using assms unfolding eq by (cases "t < 2048") simp_all
    note b_is = assms[unfolded eq if_not_P[OF ge], THEN sum.inject(2)[THEN iffD1], symmetric]
    show "2048 \<le> t" using ge by simp
    show "mb_threshold b = t" "mb_inputLimit b = capacity - reserve" "mb_capacity b = capacity"
      "mb_reserve b = reserve" "mb_recentTokens b = min (bc_keepRecentTokens config) (t div 2)"
      "mb_noteTokens b = max 500 (min (case bc_noteTokens config of None \<Rightarrow> 3000 | Some n \<Rightarrow> n)
         (min MAX_NOTE_TOKENS (15 * t div 100)))"
      unfolding b_is by (simp_all only: memory_budget.select_convs)
  qed
  let ?x = "min (of_int capacity * 8 / 10) (of_int (capacity - reserve)) :: rat"
  have t: "of_int t \<le> ?x" "bc_compactAt config = Some z \<Longrightarrow> of_int t \<le> (if z \<le> 1 then of_int capacity * z else z)" for z
  proof -
    have le: "of_int t \<le> min_opt (min_opt ?x (model_cap (bm_id model))) (requested_point capacity (bc_compactAt config))"
      unfolding t_def budget_threshold_def by (rule of_int_floor_le)
    also have "\<dots> \<le> min_opt ?x (model_cap (bm_id model))" by (rule min_opt_le)
    also have "\<dots> \<le> ?x" by (rule min_opt_le)
    finally show "of_int t \<le> ?x" .
    assume "bc_compactAt config = Some z"
    then have "requested_point capacity (bc_compactAt config) = Some (if z \<le> 1 then of_int capacity * z else z)"
      by (simp add: requested_point_def)
    from order.trans[OF le min_opt_le(2)[OF this]]
    show "of_int t \<le> (if z \<le> 1 then of_int capacity * z else z)" .
  qed
  have inp: "t \<le> capacity - reserve" using t(1) by (simp add: of_int_le_iff del: of_int_diff)
  have "of_int (10 * t) \<le> (of_int (8 * capacity) :: rat)" using t(1) by simp
  then have share: "10 * t \<le> 8 * capacity" by (simp only: of_int_le_iff)
  have allowance: "4 * mb_noteTokens b \<le> t" "500 \<le> mb_noteTokens b" "mb_noteTokens b \<le> MAX_NOTE_TOKENS"
  proof -
    have share: "15 * t div 100 * 4 \<le> t" using b(1) by linarith
    have "mb_noteTokens b \<le> max 500 (15 * t div 100)" unfolding b(7) by linarith
    with share b(1) show "4 * mb_noteTokens b \<le> t" by linarith
  qed (auto simp: b(7) MAX_NOTE_TOKENS_def)
  show ?thesis
    using b(1-6) inp share allowance t(2) by (auto simp: reserve_def split: option.split)
qed

theorem memoryBudget_bounds_witness:
  "\<exists>b. memoryBudget \<lparr>bm_id = js ''gpt-5'', bm_contextWindow = Some 200000, bm_maxTokens = 32000\<rparr>
      \<lparr>bc_keepRecentTokens = 20000, bc_noteTokens = None, bc_compactAt = None\<rparr> = Inr b \<and>
    mb_threshold b = 160000 \<and> mb_noteTokens b \<le> MAX_NOTE_TOKENS"
proof -
  have s: "memoryBudget \<lparr>bm_id = js ''gpt-5'', bm_contextWindow = Some 200000, bm_maxTokens = 32000\<rparr>
      \<lparr>bc_keepRecentTokens = 20000, bc_noteTokens = None, bc_compactAt = None\<rparr>
    = Inr \<lparr>mb_capacity = 200000, mb_reserve = 32000, mb_threshold = 160000, mb_inputLimit = 168000,
        mb_noteTokens = 3000, mb_recentTokens = 20000\<rparr>"
    by code_simp
  from memoryBudget_bounds[OF s] s show ?thesis by auto
qed

end
