(* ===== verification/Host.thy ===== *)
theory Host
  imports Json_Parse
begin

text \<open>
  What the core takes from outside: the schemas it hands to the validation library, and the record
  \<open>host\<close> of the library and platform functions it calls. None of them has a definition here; a
  theorem that relies on one names the documented behaviour as a hypothesis.
\<close>

section \<open>Schemas\<close>

text \<open>The schema constructors the core uses, with the options it sets.\<close>

datatype schema =
    SString nat "nat option" "jstring \<Rightarrow> bool"
  | SLiteral jstring
  | SNull
  | SInteger int
  | SArray schema nat "nat option" bool
  | SUnion "schema list"
  | SObject "(string \<times> bool \<times> schema) list"

abbreviation any_text :: "jstring \<Rightarrow> bool" where
  "any_text \<equiv> \<lambda>_. True"

definition at_most :: "nat option \<Rightarrow> nat \<Rightarrow> bool" where
  "at_most mx n \<longleftrightarrow> (case mx of None \<Rightarrow> True | Some m \<Rightarrow> n \<le> m)"

text \<open>
  JSON Schema's meaning of these constructors: \<open>len\<close> is the validator's measure of a string. A
  property is (name, optional, schema), and no other property is allowed.
\<close>

fun conforms :: "(jstring \<Rightarrow> nat) \<Rightarrow> schema \<Rightarrow> jsval \<Rightarrow> bool" where
  "conforms len (SString mn mx pat) v =
     (case v of JStr s \<Rightarrow> mn \<le> len s \<and> at_most mx (len s) \<and> pat s | _ \<Rightarrow> False)"
| "conforms len (SLiteral t) v = (v = JStr t)"
| "conforms len SNull v = (v = JNull)"
| "conforms len (SInteger lo) v = (case v of JNum (JInt i) \<Rightarrow> lo \<le> i | _ \<Rightarrow> False)"
| "conforms len (SArray s mn mx uniq) v =
     (case v of JArr xs \<Rightarrow> mn \<le> length xs \<and> at_most mx (length xs) \<and> (uniq \<longrightarrow> distinct xs) \<and>
        (\<forall>x \<in> set xs. conforms len s x) | _ \<Rightarrow> False)"
| "conforms len (SUnion ss) v = (\<exists>s \<in> set ss. conforms len s v)"
| "conforms len (SObject ps) v =
     (case v of JObj qs \<Rightarrow>
        (\<forall>q \<in> set qs. fst q \<in> js ` fst ` set ps) \<and>
        (\<forall>p \<in> set ps. if jfield v (fst p) = JUndef then fst (snd p) else conforms len (snd (snd p)) (jfield v (fst p)))
      | _ \<Rightarrow> False)"

declare conforms.simps(1,5,7) [simp del]

section \<open>Platform and library functions\<close>

record host =
  digest :: "byte list \<Rightarrow> jstring"
  check :: "schema \<Rightarrow> jsval \<Rightarrow> bool"
  nfkc :: "jstring \<Rightarrow> jstring"
  locale_lower :: "jstring \<Rightarrow> jstring"
  read_number :: "jstring \<Rightarrow> jsnum"
  word_point :: "nat \<Rightarrow> bool"
  han_point :: "nat \<Rightarrow> bool"

text \<open>
  \<open>digest\<close> is SHA-256 in hex, \<open>check\<close> the schema validator, \<open>nfkc\<close> and \<open>locale_lower\<close> the Unicode
  string functions, \<open>read_number\<close> the number a JSON number text stands for, \<open>word_point\<close> the
  letters and numbers and \<open>han_point\<close> the Han script among the code points.
\<close>

text \<open>The documented behaviour of the validator, for some measure of strings that is zero on "" only.\<close>

definition documented_check :: "host \<Rightarrow> (jstring \<Rightarrow> nat) \<Rightarrow> bool" where
  "documented_check h len \<longleftrightarrow>
     (\<forall>s v. check h s v = conforms len s v) \<and> (\<forall>t. len t = 0 \<longleftrightarrow> t = [])"

text \<open>A concrete host for the witnesses: the digest of bytes is their count, the rest is plain.\<close>

definition plain_host :: host where
  "plain_host = \<lparr>digest = (\<lambda>bs. nat_str (length bs)), check = conforms length, nfkc = id,
     locale_lower = id, read_number = read_num, word_point = (\<lambda>_. True), han_point = (\<lambda>_. False)\<rparr>"

lemma plain_host_documented: "documented_check plain_host length"
  by (simp add: documented_check_def plain_host_def)

lemma plain_reads: "json_ok v \<Longrightarrow> json_reads (read_number plain_host) v"
  by (rule ok_by_reads) (simp_all add: plain_host_def read_num_num_str)

lemma conforms_SString: "conforms len (SString mn mx pat) v \<longleftrightarrow>
    (\<exists>s. v = JStr s \<and> mn \<le> len s \<and> at_most mx (len s) \<and> pat s)"
  by (cases v) (auto simp: conforms.simps(1))

lemma conforms_SArray: "conforms len (SArray s mn mx uniq) v \<longleftrightarrow>
    (\<exists>xs. v = JArr xs \<and> mn \<le> length xs \<and> at_most mx (length xs) \<and> (uniq \<longrightarrow> distinct xs) \<and>
      (\<forall>x \<in> set xs. conforms len s x))"
  by (cases v) (auto simp: conforms.simps(5))

lemma conforms_SObject: "conforms len (SObject ps) v \<longleftrightarrow>
    (\<exists>qs. v = JObj qs \<and> (\<forall>q \<in> set qs. fst q \<in> js ` fst ` set ps) \<and>
      (\<forall>p \<in> set ps. if jfield v (fst p) = JUndef then fst (snd p) else conforms len (snd (snd p)) (jfield v (fst p))))"
  by (cases v) (auto simp: conforms.simps(7))

end
