(* ===== verification/Notes.thy ===== *)
theory Notes
  imports Canonical Config Host
begin

text \<open>
  \<^bold>\<open>notes.ts\<close>, first half: the note schema, note validation and rendering. A note stays the JSON
  value the writer returned, so that its text, key order included, is the source's; the accessors
  below read it at the places the source reads it.
\<close>

section \<open>Note schema\<close>

datatype note_section = Instructions | FailedPaths | Reasons | State | NextSteps | Files

fun section_name :: "note_section \<Rightarrow> string" where
  "section_name Instructions = ''instructions''"
| "section_name FailedPaths = ''failedPaths''"
| "section_name Reasons = ''reasons''"
| "section_name State = ''state''"
| "section_name NextSteps = ''nextSteps''"
| "section_name Files = ''files''"

definition noteSections :: "note_section list" where
  "noteSections = [Instructions, FailedPaths, Reasons, State, NextSteps, Files]"

fun section_rank :: "note_section \<Rightarrow> nat" where
  "section_rank Instructions = 0"
| "section_rank FailedPaths = 1"
| "section_rank Reasons = 2"
| "section_rank State = 3"
| "section_rank NextSteps = 4"
| "section_rank Files = 5"

lemma section_rank_inj: "section_rank a = section_rank b \<Longrightarrow> a = b"
  by (cases a; cases b) auto

text \<open>Sections are ordered as the schema lists them.\<close>

instantiation note_section :: linorder
begin

definition less_eq_note_section :: "note_section \<Rightarrow> note_section \<Rightarrow> bool" where
  "a \<le> b \<longleftrightarrow> section_rank a \<le> section_rank b"

definition less_note_section :: "note_section \<Rightarrow> note_section \<Rightarrow> bool" where
  "a < b \<longleftrightarrow> section_rank a < section_rank b"

instance
  by standard (auto simp: less_eq_note_section_def less_note_section_def dest: section_rank_inj)

end

lemma noteSections_all [simp]: "s \<in> set noteSections"
  by (cases s) (auto simp: noteSections_def)

lemma noteSections_quant [simp]:
  "(\<forall>s \<in> set noteSections. P s) \<longleftrightarrow> (\<forall>s. P s)" "(\<exists>s \<in> set noteSections. P s) \<longleftrightarrow> (\<exists>s. P s)"
  by auto

lemma section_name_eq [simp]: "section_name a = section_name b \<longleftrightarrow> a = b"
  by (cases a; cases b) auto

lemma section_name_not_gaps [simp]: "section_name s \<noteq> ''gaps''"
  by (cases s) auto

definition ids_schema :: "nat \<Rightarrow> bool \<Rightarrow> schema" where
  "ids_schema mn uniq = SArray (SString 1 (Some 64) any_text) mn (Some 20) uniq"

definition fact_schema :: schema where
  "fact_schema = SObject
     [(''text'', False, SString 1 (Some 4000) any_text),
      (''sources'', False, ids_schema 1 True),
      (''quote'', True, SString 1 (Some 4000) any_text),
      (''supersedes'', True, ids_schema 0 False)]"

definition facts_schema :: schema where
  "facts_schema = SArray fact_schema 0 (Some 40) False"

definition noteSchema :: schema where
  "noteSchema = SObject
     [(''instructions'', False, facts_schema),
      (''failedPaths'', False, facts_schema),
      (''reasons'', False, facts_schema),
      (''state'', False, SArray fact_schema 1 (Some 40) False),
      (''nextSteps'', False, SArray fact_schema 0 (Some 5) False),
      (''files'', False, facts_schema),
      (''gaps'', False, SArray (SString 0 (Some 1000) any_text) 0 (Some 20) False)]"

section \<open>Reading a note\<close>

type_synonym memory_note = jsval
type_synonym note_fact = jsval

definition arr_of :: "jsval \<Rightarrow> jsval list" where
  "arr_of v = (case v of JArr xs \<Rightarrow> xs | _ \<Rightarrow> [])"

definition str_of :: "jsval \<Rightarrow> jstring" where
  "str_of v = (case v of JStr s \<Rightarrow> s | _ \<Rightarrow> [])"

definition items :: "memory_note \<Rightarrow> note_section \<Rightarrow> note_fact list" where
  "items n s = arr_of (jfield n (section_name s))"

definition gaps :: "memory_note \<Rightarrow> jstring list" where
  "gaps n = map str_of (arr_of (jfield n ''gaps''))"

definition f_text :: "note_fact \<Rightarrow> jstring" where
  "f_text f = str_of (jfield f ''text'')"

definition f_sources :: "note_fact \<Rightarrow> jstring list" where
  "f_sources f = map str_of (arr_of (jfield f ''sources''))"

text \<open>\<open>None\<close> when the quote is absent or empty, so falsy.\<close>

definition f_quote :: "note_fact \<Rightarrow> jstring option" where
  "f_quote f = (case jfield f ''quote'' of JStr (u # q) \<Rightarrow> Some (u # q) | _ \<Rightarrow> None)"

definition f_supersedes :: "note_fact \<Rightarrow> jstring list" where
  "f_supersedes f = map str_of (arr_of (jfield f ''supersedes''))"

definition all_items :: "memory_note \<Rightarrow> note_fact list" where
  "all_items n = concat (map (items n) noteSections)"

lemma set_all_items: "set (all_items n) = (\<Union>s. set (items n s))"
  by (force simp: all_items_def)

section \<open>Validation\<close>

text \<open>One fact: its sources, its quotation, what it supersedes, in the order the source checks them.\<close>

definition check_fact :: "(jstring \<Rightarrow> jstring option) \<Rightarrow> note_fact \<Rightarrow> unit res" where
  "check_fact textById f =
     (let readable = (\<lambda>i. textById i \<noteq> None \<and> textById i \<noteq> Some []) in
      if list_ex (\<lambda>i. \<not> readable i) (f_sources f)
      then throw CONTEXT_NOTE_SCOPE ''CONTEXT_NOTE_SCOPE: a note cites unavailable evidence''
      else if (case f_quote f of None \<Rightarrow> False
               | Some q \<Rightarrow> \<not> list_ex (\<lambda>i. contains q (the (textById i))) (f_sources f))
      then throw CONTEXT_NOTE_QUOTE ''CONTEXT_NOTE_QUOTE: a quoted source does not match the original text''
      else if list_ex (\<lambda>i. \<not> readable i) (f_supersedes f)
      then throw CONTEXT_NOTE_SCOPE ''CONTEXT_NOTE_SCOPE: a superseded source is unavailable or unreadable''
      else Inr ())"

definition validateNoteSources :: "host \<Rightarrow> jsval \<Rightarrow> (jstring \<Rightarrow> jstring option) \<Rightarrow> memory_note res" where
  "validateNoteSources h v textById =
     (if \<not> check h noteSchema v
      then throw CONTEXT_NOTE_INVALID ''CONTEXT_NOTE_INVALID: writer must return the complete note schema''
      else bind_res (each (\<lambda>s. each (check_fact textById) (items v s)) noteSections) (\<lambda>_. Inr v))"

text \<open>The text of the last record with an id.\<close>

definition text_by_id :: "session_record list \<Rightarrow> jstring \<Rightarrow> jstring option" where
  "text_by_id sources i = map_option sourceText (last_with_id sources i)"

definition validateNoteContent :: "host \<Rightarrow> jsval \<Rightarrow> session_record list \<Rightarrow> memory_note res" where
  "validateNoteContent h v sources = validateNoteSources h v (text_by_id sources)"

definition noteBytes :: "memory_note \<Rightarrow> nat" where
  "noteBytes n = byte_length (stringify n)"

definition budget_message :: "nat \<Rightarrow> int \<Rightarrow> jstring" where
  "budget_message bytes maxTokens =
     js ''CONTEXT_NOTE_BUDGET: note uses '' @ nat_str ((bytes + 2) div 3) @ js '' estimated tokens; limit is ''
     @ int_str maxTokens @ js '' ('' @ nat_str bytes @ js ''/'' @ int_str (maxTokens * 3)
     @ js '' UTF-8 bytes). No checkpoint committed; original history retained.''"

definition assertNoteBudget :: "memory_note \<Rightarrow> int \<Rightarrow> memory_note res" where
  "assertNoteBudget n maxTokens =
     (if int (noteBytes n) > maxTokens * 3
      then Inl (Err CONTEXT_NOTE_BUDGET (budget_message (noteBytes n) maxTokens)) else Inr n)"

definition validateNote :: "host \<Rightarrow> jsval \<Rightarrow> session_record list \<Rightarrow> int \<Rightarrow> memory_note res" where
  "validateNote h v sources maxTokens =
     bind_res (validateNoteContent h v sources) (\<lambda>n. assertNoteBudget n maxTokens)"

definition compactedSourceTokens :: "session_record list \<Rightarrow> nat" where
  "compactedSourceTokens rs = fold (\<lambda>r sum. sum + textTokens (sourceText r)) rs 0"

section \<open>Lineage and rendering\<close>

record lineage_item =
  checkpointId :: jstring
  anchor :: jstring
  li_state :: "jstring list"

definition LINEAGE_ITEMS :: nat where "LINEAGE_ITEMS = 3"
definition LINEAGE_SENTENCE_TOKENS :: nat where "LINEAGE_SENTENCE_TOKENS = 50"

definition ellipsis :: jstring where "ellipsis = [0x2026]"

text \<open>Where \<open>/[.!?]\s|[.!?]$|[\<dots>]/u\<close> first matches: an ASCII terminator before white space or the end, or a CJK one.\<close>

definition ascii_stop :: "u16 \<Rightarrow> bool" where
  "ascii_stop u \<longleftrightarrow> u = 0x2e \<or> u = 0x21 \<or> u = 0x3f"

definition cjk_stop :: "u16 \<Rightarrow> bool" where
  "cjk_stop u \<longleftrightarrow> u = 0x3002 \<or> u = 0xff01 \<or> u = 0xff1f"

fun sentence_end :: "jstring \<Rightarrow> nat option" where
  "sentence_end [] = None"
| "sentence_end (u # s) =
     (if cjk_stop u \<or> ascii_stop u \<and> (s = [] \<or> is_space (hd s)) then Some 0
      else map_option Suc (sentence_end s))"

function shorten_sentence :: "jstring \<Rightarrow> jstring" where
  "shorten_sentence s =
     (if length s > 1 \<and> textTokens (s @ ellipsis) > LINEAGE_SENTENCE_TOKENS
      then shorten_sentence (take (length s * 4 div 5) s) else s)"
  by auto
termination by (relation "measure length") auto

declare shorten_sentence.simps [simp del]

definition lineageSentence :: "jstring \<Rightarrow> jstring" where
  "lineageSentence text =
     (let flat = trim (collapse is_space 0x20 text);
          sentence = (case sentence_end flat of Some c \<Rightarrow> take (Suc c) flat | None \<Rightarrow> flat)
      in if textTokens sentence \<le> LINEAGE_SENTENCE_TOKENS then sentence
         else shorten_sentence sentence @ ellipsis)"

definition shrinkLineage :: "lineage_item list \<Rightarrow> lineage_item list" where
  "shrinkLineage xs = (if length xs > 2 then hd xs # drop 2 xs else butlast xs)"

definition renderLineage :: "lineage_item list \<Rightarrow> jstring" where
  "renderLineage xs =
     js ''## priorCheckpoints'' @ newline @ js ''Earlier checkpoints on this branch, oldest first, reduced to their opening state lines. Their originals are still on disk: search context_history for these topics. The IDs are search anchors, not citable sources; cite only IDs from the handover manifest.''
     @ newline @ join newline (map (\<lambda>i. js ''- through '' @ anchor i @ js '': '' @ join [0x20] (li_state i)) xs)"

definition CONTEXT_MEMORY_KIND :: jstring where
  "CONTEXT_MEMORY_KIND = js ''pi-context-memory''"

definition CONTEXT_NOTE_TYPE :: jstring where
  "CONTEXT_NOTE_TYPE = js ''context-memory-note''"

text \<open>The nearest readable original at or before an index.\<close>

fun readable_at :: "session_record list \<Rightarrow> nat \<Rightarrow> nat option" where
  "readable_at branch 0 = (if sourceText (branch ! 0) \<noteq> [] then Some 0 else None)"
| "readable_at branch (Suc i) =
     (if sourceText (branch ! Suc i) \<noteq> [] then Some (Suc i) else readable_at branch i)"

definition checkpoint_details :: "session_record \<Rightarrow> jsval" where
  "checkpoint_details r = (case r_body r of Compaction c \<Rightarrow> c_details c | _ \<Rightarrow> JUndef)"

definition lineage_of :: "session_record list \<Rightarrow> nat \<times> session_record \<Rightarrow> lineage_item list" where
  "lineage_of branch p =
     (let d = checkpoint_details (snd p); note = jfield d ''note'' in
      if \<not> is_compaction (snd p) \<or> \<not> isRecord d \<or> jfield d ''kind'' \<noteq> JStr CONTEXT_MEMORY_KIND then []
      else if jfield d ''version'' \<noteq> jint 1 \<or> as_str (jfield d ''coveredThrough'') = None then []
      else if \<not> isRecord note \<or> as_arr (jfield note ''state'') = None then []
      else (case first_at branch (str_of (jfield d ''coveredThrough'')) of
          None \<Rightarrow> []
        | Some k \<Rightarrow>
            if k \<ge> fst p then []
            else (case readable_at branch k of
                None \<Rightarrow> []
              | Some i \<Rightarrow>
                  [\<lparr>checkpointId = r_id (snd p), anchor = r_id (branch ! i),
                    li_state = take LINEAGE_ITEMS (concat (map (\<lambda>x.
                      case (isRecord x, jfield x ''text'') of (True, JStr t) \<Rightarrow> [lineageSentence t] | _ \<Rightarrow> [])
                      (arr_of (jfield note ''state''))))\<rparr>])))"

function shrink_to :: "nat \<Rightarrow> lineage_item list \<Rightarrow> lineage_item list" where
  "shrink_to maxTokens xs =
     (if xs \<noteq> [] \<and> textTokens (renderLineage xs) > maxTokens
      then shrink_to maxTokens (shrinkLineage xs) else xs)"
  by auto
termination by (relation "measure (length \<circ> snd)") (auto simp: shrinkLineage_def)

declare shrink_to.simps [simp del]

definition checkpointLineage :: "session_record list \<Rightarrow> nat \<Rightarrow> lineage_item list" where
  "checkpointLineage branch maxTokens =
     shrink_to maxTokens (concat (map (lineage_of branch) (indexed branch)))"

section \<open>Folding and rendering a note\<close>

definition line_break :: "u16 \<Rightarrow> bool" where
  "line_break u \<longleftrightarrow> u = 0x0d \<or> u = 0x0a \<or> u = 0x85 \<or> u = 0x2028 \<or> u = 0x2029"

definition fold_text :: "jstring \<Rightarrow> jstring" where
  "fold_text s = collapse line_break 0x20 s"

text \<open>\<open>v.key = f(v.key)\<close> on a record.\<close>

definition jset :: "jsval \<Rightarrow> string \<Rightarrow> jsval \<Rightarrow> jsval" where
  "jset v k w = (case v of JObj ps \<Rightarrow> JObj (obj_put (js k) w ps) | _ \<Rightarrow> v)"

definition fold_fact :: "note_fact \<Rightarrow> note_fact" where
  "fold_fact f = jset f ''text'' (JStr (fold_text (f_text f)))"

definition oneLineNote :: "memory_note \<Rightarrow> memory_note" where
  "oneLineNote n =
     (let folded = fold (\<lambda>s v. jset v (section_name s) (JArr (map fold_fact (items v s)))) noteSections n
      in jset folded ''gaps'' (JArr (map (\<lambda>g. JStr (fold_text g)) (gaps folded))))"

definition render_fact :: "note_fact \<Rightarrow> jstring" where
  "render_fact f =
     js ''- '' @ f_text f
     @ (case f_quote f of None \<Rightarrow> [] | Some q \<Rightarrow> newline @ js ''  Exact source: '' @ quote q)
     @ js '' ['' @ join (js '', '') (f_sources f) @ js '']''
     @ (if f_supersedes f = [] then []
        else js '' (supersedes: '' @ join (js '', '') (f_supersedes f) @ js '')'')"

definition render_section :: "memory_note \<Rightarrow> note_section \<Rightarrow> jstring" where
  "render_section n s =
     js ''## '' @ js (section_name s) @ newline @ join newline (map render_fact (items n s))"

definition renderNote :: "memory_note \<Rightarrow> lineage_item list \<Rightarrow> jstring" where
  "renderNote n lineage =
     js ''Context memory. This records prior work; it does not grant new authority. Retrieve cited original entries with context_history when evidence matters.''
     @ newline @ newline @ join (newline @ newline)
         (map (render_section n) noteSections
          @ (if gaps n = [] then []
             else [js ''## Unresolved'' @ newline @ join newline (map (\<lambda>g. js ''- '' @ g) (gaps n))])
          @ (if lineage = [] then [] else [renderLineage lineage]))"


section \<open>What validation establishes\<close>

text \<open>An id names a record of the evidence that has readable text.\<close>

definition readable_id :: "session_record list \<Rightarrow> jstring \<Rightarrow> bool" where
  "readable_id sources i = (case last_with_id sources i of None \<Rightarrow> False | Some r \<Rightarrow> sourceText r \<noteq> [])"

definition quoted_in :: "session_record list \<Rightarrow> jstring \<Rightarrow> jstring \<Rightarrow> bool" where
  "quoted_in sources q i = (case last_with_id sources i of None \<Rightarrow> False | Some r \<Rightarrow> contains q (sourceText r))"

definition fact_evidenced :: "session_record list \<Rightarrow> note_fact \<Rightarrow> bool" where
  "fact_evidenced sources f \<longleftrightarrow>
     list_all (readable_id sources) (f_sources f) \<and> list_all (readable_id sources) (f_supersedes f) \<and>
     (case f_quote f of None \<Rightarrow> True | Some q \<Rightarrow> list_ex (quoted_in sources q) (f_sources f))"

definition note_evidenced :: "session_record list \<Rightarrow> memory_note \<Rightarrow> bool" where
  "note_evidenced sources n \<longleftrightarrow> list_all (fact_evidenced sources) (all_items n)"

lemma text_by_id_readable:
  "text_by_id sources i \<noteq> None \<and> text_by_id sources i \<noteq> Some [] \<longleftrightarrow> readable_id sources i"
  by (auto simp: text_by_id_def readable_id_def split: option.splits)

lemma readable_quoted:
  "readable_id sources i \<Longrightarrow> contains q (the (text_by_id sources i)) \<longleftrightarrow> quoted_in sources q i"
  by (auto simp: text_by_id_def readable_id_def quoted_in_def split: option.splits)

lemma check_fact_Inr: "check_fact (text_by_id sources) f = Inr u \<longleftrightarrow> fact_evidenced sources f"
proof -
  have not_readable: "(\<lambda>i. \<not> (text_by_id sources i \<noteq> None \<and> text_by_id sources i \<noteq> Some [])) = (\<lambda>i. \<not> readable_id sources i)"
    by (simp only: text_by_id_readable)
  show ?thesis
    unfolding check_fact_def fact_evidenced_def Let_def not_readable
    by (auto simp: list_ex_iff list_all_iff readable_quoted split: option.splits)
qed

lemma note_evidenced_iff: "note_evidenced sources n \<longleftrightarrow> (\<forall>s. \<forall>f \<in> set (items n s). fact_evidenced sources f)"
  by (auto simp: note_evidenced_def list_all_iff set_all_items)

lemma validateNoteContent_Inr:
  "validateNoteContent h v sources = Inr n \<longleftrightarrow> n = v \<and> check h noteSchema v \<and> note_evidenced sources v"
  by (auto simp: validateNoteContent_def validateNoteSources_def bind_res_eq_Inr each_Inr check_fact_Inr
      note_evidenced_iff)

lemma validateNote_Inr:
  "validateNote h v sources m = Inr n \<longleftrightarrow>
     n = v \<and> check h noteSchema v \<and> note_evidenced sources v \<and> int (noteBytes v) \<le> 3 * m"
  by (auto simp: validateNote_def bind_res_eq_Inr validateNoteContent_Inr assertNoteBudget_def)


section \<open>Writing a property\<close>

lemma map_of_obj_put: "map_of (obj_put k v ps) l = (if l = k then Some v else map_of ps l)"
  by (induction k v ps rule: obj_put.induct) auto

lemma jfield_jset: "isRecord v \<Longrightarrow> jfield (jset v k w) l = (if l = k then w else jfield v l)"
  by (auto simp: isRecord_iff jset_def jget_JObj map_of_obj_put)

lemma isRecord_jset [simp]: "isRecord (jset v k w) = isRecord v"
  by (cases v) (auto simp: jset_def)

lemma items_jset:
  "isRecord n \<Longrightarrow> items (jset n (section_name s) w) t = (if t = s then arr_of w else items n t)"
  "isRecord n \<Longrightarrow> items (jset n ''gaps'' w) t = items n t"
  by (auto simp: items_def jfield_jset dest: section_name_not_gaps[THEN notE, OF sym])

lemma gaps_jset:
  "isRecord n \<Longrightarrow> gaps (jset n (section_name s) w) = gaps n"
  "isRecord n \<Longrightarrow> gaps (jset n ''gaps'' (JArr (map JStr gs))) = gs"
  by (auto simp: gaps_def jfield_jset arr_of_def str_of_def comp_def dest: section_name_not_gaps[THEN notE, OF sym])

lemma arr_of_JArr [simp]: "arr_of (JArr xs) = xs"
  by (simp add: arr_of_def)

lemma str_of_JStr [simp]: "str_of (JStr s) = s"
  by (simp add: str_of_def)

text \<open>Writing some sections of a note leaves the rest of it alone.\<close>

lemma fold_sections_frame:
  assumes "isRecord v"
  shows "isRecord (fold (\<lambda>s v. jset v (section_name s) (JArr (g s v))) ss v)"
    and "gaps (fold (\<lambda>s v. jset v (section_name s) (JArr (g s v))) ss v) = gaps v"
    and "t \<notin> set ss \<Longrightarrow> items (fold (\<lambda>s v. jset v (section_name s) (JArr (g s v))) ss v) t = items v t"
  using assms by (induction ss arbitrary: v) (auto simp: gaps_jset items_jset)

lemma fold_sections_items:
  assumes "isRecord v" "distinct ss" "t \<in> set ss"
    and "\<And>w. isRecord w \<Longrightarrow> items w t = items v t \<Longrightarrow> g t w = g t v"
  shows "items (fold (\<lambda>s v. jset v (section_name s) (JArr (g s v))) ss v) t = g t v"
proof -
  obtain before after where ss: "ss = before @ t # after" using split_list[OF assms(3)] by blast
  let ?step = "\<lambda>s v. jset v (section_name s) (JArr (g s v))"
  have t: "t \<notin> set before" "t \<notin> set after" using assms(2) ss by auto
  have b: "isRecord (fold ?step before v)" "items (fold ?step before v) t = items v t"
    using fold_sections_frame[OF assms(1)] t by auto
  have "items (fold ?step ss v) t = items (fold ?step (t # after) (fold ?step before v)) t" by (simp add: ss)
  also have "\<dots> = items (?step t (fold ?step before v)) t"
    using fold_sections_frame(3)[of "?step t (fold ?step before v)" t after g] b t by simp
  also have "\<dots> = g t v" using b assms(4) by (simp add: items_jset)
  finally show ?thesis .
qed

lemma distinct_noteSections: "distinct noteSections"
  by (simp add: noteSections_def)

lemma noteSchema_isRecord: "conforms len noteSchema v \<Longrightarrow> isRecord v"
  by (auto simp: noteSchema_def conforms_SObject)

section \<open>A sample note\<close>

definition sample_fact :: note_fact where
  "sample_fact = obj [(''text'', JStr (js ''x'')), (''sources'', JArr [JStr (js ''u1'')]), (''quote'', JStr (js ''keep''))]"

definition note_with_state :: "note_fact list \<Rightarrow> memory_note" where
  "note_with_state fs = obj [(''instructions'', JArr []), (''failedPaths'', JArr []), (''reasons'', JArr []),
     (''state'', JArr fs), (''nextSteps'', JArr []), (''files'', JArr []), (''gaps'', JArr [])]"

definition sample_note :: memory_note where
  "sample_note = note_with_state [sample_fact]"

lemmas conforms_simps = conforms_SArray conforms_SObject conforms_SString noteSchema_def facts_schema_def
  fact_schema_def ids_schema_def at_most_def obj_def

lemma sample_note_conforms: "conforms length noteSchema sample_note"
  by (simp add: conforms_simps sample_note_def note_with_state_def sample_fact_def)

lemma sample_note_evidenced: "note_evidenced [sample_user] sample_note"
  by code_simp

lemma sample_note_bytes: "noteBytes sample_note = 140"
  by code_simp


section \<open>Properties\<close>

text \<open>
  C18: Note validation is exact. \<open>validateNote\<close> returns a note exactly when it is the given value,
  the schema validator accepts it, every fact is evidenced (each cited and superseded id names a
  readable original, and a quotation occurs verbatim in one of the cited originals) and its JSON
  text fits the budget of three bytes a token. Nothing else is accepted or changed.
\<close>

theorem validateNote_exact:
  "validateNote h v sources m = Inr n \<longleftrightarrow>
     n = v \<and> check h noteSchema v \<and> note_evidenced sources v \<and> int (noteBytes v) \<le> 3 * m"
  by (auto simp: validateNote_def bind_res_eq_Inr validateNoteContent_Inr assertNoteBudget_def)

text \<open>A fact's quotation, when it has one, occurs in one of the originals it cites.\<close>

definition quote_found :: "session_record list \<Rightarrow> note_fact \<Rightarrow> bool" where
  "quote_found sources f = (case f_quote f of None \<Rightarrow> True | Some q \<Rightarrow> list_ex (quoted_in sources q) (f_sources f))"

lemma check_fact_by_id:
  "check_fact (text_by_id sources) f =
     (if list_ex (\<lambda>i. \<not> readable_id sources i) (f_sources f)
      then throw CONTEXT_NOTE_SCOPE ''CONTEXT_NOTE_SCOPE: a note cites unavailable evidence''
      else if \<not> quote_found sources f
      then throw CONTEXT_NOTE_QUOTE ''CONTEXT_NOTE_QUOTE: a quoted source does not match the original text''
      else if list_ex (\<lambda>i. \<not> readable_id sources i) (f_supersedes f)
      then throw CONTEXT_NOTE_SCOPE ''CONTEXT_NOTE_SCOPE: a superseded source is unavailable or unreadable''
      else Inr ())"
proof -
  have not_readable: "(\<lambda>i. \<not> (text_by_id sources i \<noteq> None \<and> text_by_id sources i \<noteq> Some [])) = (\<lambda>i. \<not> readable_id sources i)"
    by (simp only: text_by_id_readable)
  have found: "list_ex (\<lambda>i. contains q (the (text_by_id sources i))) (f_sources f) = list_ex (quoted_in sources q) (f_sources f)"
    if "\<not> list_ex (\<lambda>i. \<not> readable_id sources i) (f_sources f)" for q
    using that by (auto simp: list_ex_iff readable_quoted)
  show ?thesis
  proof (cases "list_ex (\<lambda>i. \<not> readable_id sources i) (f_sources f)")
    case False
    then show ?thesis
      unfolding check_fact_def Let_def not_readable quote_found_def by (simp add: found[OF False] split: option.split)
  qed (unfold check_fact_def Let_def not_readable, simp)
qed

text \<open>\<open>each\<close> throws what the first failing element throws.\<close>

lemma fails_each: "fails c (each f xs) \<longleftrightarrow> (\<exists>x. find (\<lambda>x. f x \<noteq> Inr ()) xs = Some x \<and> fails c (f x))"
proof (induction xs)
  case (Cons x xs)
  then show ?case by (cases "f x") auto
qed simp

lemma each_concat: "each (\<lambda>s. each f (g s)) ss = each f (concat (map g ss))"
  by (induction ss) (simp_all add: each_append)

lemma fails_bind_Inr: "(\<And>x. \<not> fails c (k x)) \<Longrightarrow> fails c (bind_res r k) \<longleftrightarrow> fails c r"
  by (cases r) simp_all

lemma validateNote_fails:
  assumes "check h noteSchema v" and "c \<noteq> CONTEXT_NOTE_BUDGET"
  shows "fails c (validateNote h v sources m) \<longleftrightarrow>
    (\<exists>f. find (\<lambda>f. \<not> fact_evidenced sources f) (all_items v) = Some f \<and> fails c (check_fact (text_by_id sources) f))"
proof -
  have "fails c (validateNote h v sources m) \<longleftrightarrow> fails c (validateNoteContent h v sources)"
    using assms(2) unfolding validateNote_def by (intro fails_bind_Inr) (simp add: assertNoteBudget_def)
  also have "\<dots> \<longleftrightarrow> fails c (each (check_fact (text_by_id sources)) (all_items v))"
    using assms(1) by (simp add: validateNoteContent_def validateNoteSources_def fails_bind_Inr each_concat all_items_def)
  finally show ?thesis by (simp add: fails_each check_fact_Inr)
qed

text \<open>
  C19: Each refusal of a note names its cause. Validation fails with CONTEXT_NOTE_INVALID exactly
  when the schema validator refuses, and with CONTEXT_NOTE_BUDGET exactly when only the size is wrong.
  Otherwise the first fact that is not evidenced decides: CONTEXT_NOTE_QUOTE exactly when all its sources are
  readable and its quotation is in none of them; CONTEXT_NOTE_SCOPE exactly when one of its sources is
  not, or its quotation is found and an id it supersedes is not readable. A size repair is therefore never
  offered for an unsupported note, nor a quote repair for a note whose sources are out of scope.
\<close>

theorem validateNote_errors:
  "(fails CONTEXT_NOTE_INVALID (validateNote h v sources m) \<longleftrightarrow> \<not> check h noteSchema v) \<and>
   (fails CONTEXT_NOTE_SCOPE (validateNote h v sources m) \<longleftrightarrow> check h noteSchema v \<and>
      (\<exists>f. find (\<lambda>f. \<not> fact_evidenced sources f) (all_items v) = Some f \<and>
         (list_ex (\<lambda>i. \<not> readable_id sources i) (f_sources f) \<or>
          quote_found sources f \<and> list_ex (\<lambda>i. \<not> readable_id sources i) (f_supersedes f)))) \<and>
   (fails CONTEXT_NOTE_QUOTE (validateNote h v sources m) \<longleftrightarrow> check h noteSchema v \<and>
      (\<exists>f. find (\<lambda>f. \<not> fact_evidenced sources f) (all_items v) = Some f \<and>
         list_all (readable_id sources) (f_sources f) \<and> \<not> quote_found sources f)) \<and>
   (fails CONTEXT_NOTE_BUDGET (validateNote h v sources m)
      \<longleftrightarrow> check h noteSchema v \<and> note_evidenced sources v \<and> int (noteBytes v) > 3 * m)"
proof (cases "check h noteSchema v")
  case False
  then show ?thesis by (simp add: validateNote_def validateNoteContent_def validateNoteSources_def)
next
  case True
  have scope: "fails CONTEXT_NOTE_SCOPE (check_fact (text_by_id sources) f) \<longleftrightarrow>
      list_ex (\<lambda>i. \<not> readable_id sources i) (f_sources f) \<or>
      quote_found sources f \<and> list_ex (\<lambda>i. \<not> readable_id sources i) (f_supersedes f)" for f
    by (simp add: check_fact_by_id)
  have quote: "fails CONTEXT_NOTE_QUOTE (check_fact (text_by_id sources) f) \<longleftrightarrow>
      list_all (readable_id sources) (f_sources f) \<and> \<not> quote_found sources f" for f
    by (simp add: check_fact_by_id list_ex_iff list_all_iff)
  have other: "\<not> fails c (check_fact (text_by_id sources) f)" if "c \<noteq> CONTEXT_NOTE_SCOPE" "c \<noteq> CONTEXT_NOTE_QUOTE" for c f
    using that by (simp add: check_fact_by_id)
  have budget: "fails CONTEXT_NOTE_BUDGET (validateNote h v sources m) \<longleftrightarrow> note_evidenced sources v \<and> int (noteBytes v) > 3 * m"
  proof (cases "validateNoteContent h v sources")
    case (Inl e)
    then have "each (check_fact (text_by_id sources)) (all_items v) = Inl e"
      using True by (cases "each (check_fact (text_by_id sources)) (all_items v)")
        (simp_all add: validateNoteContent_def validateNoteSources_def each_concat all_items_def)
    then have "\<not> fails CONTEXT_NOTE_BUDGET (validateNoteContent h v sources)"
      using fails_each[of CONTEXT_NOTE_BUDGET "check_fact (text_by_id sources)" "all_items v"] other Inl by simp
    moreover have "\<not> note_evidenced sources v" using Inl True validateNoteContent_Inr[of h v sources v] by auto
    ultimately show ?thesis using Inl by (simp add: validateNote_def)
  next
    case (Inr n)
    then have "n = v" "note_evidenced sources v" by (auto simp: validateNoteContent_Inr)
    then show ?thesis using Inr by (auto simp: validateNote_def assertNoteBudget_def)
  qed
  show ?thesis using True budget by (simp add: validateNote_fails scope quote other)
qed

lemma shrinkLineage_length: "xs \<noteq> [] \<Longrightarrow> length (shrinkLineage xs) < length xs"
  by (auto simp: shrinkLineage_def)

lemma shrinkLineage_subset: "set (shrinkLineage xs) \<subseteq> set xs"
  by (cases xs) (auto simp: shrinkLineage_def dest: in_set_dropD in_set_butlastD)

lemma shrink_to_bound:
  "shrink_to m xs = [] \<or> textTokens (renderLineage (shrink_to m xs)) \<le> m"
proof (induction m xs rule: shrink_to.induct)
  case (1 m xs)
  then show ?case by (subst (1 2) shrink_to.simps) auto
qed

lemma shrink_to_subset: "set (shrink_to m xs) \<subseteq> set xs"
proof (induction m xs rule: shrink_to.induct)
  case (1 m xs)
  then show ?case using shrinkLineage_subset[of xs] by (subst shrink_to.simps) auto
qed

lemma shrink_to_hd: "shrink_to m xs \<noteq> [] \<Longrightarrow> hd (shrink_to m xs) = hd xs"
proof (induction m xs rule: shrink_to.induct)
  case (1 m xs)
  have "shrinkLineage xs \<noteq> [] \<Longrightarrow> hd (shrinkLineage xs) = hd xs"
    by (cases xs) (auto simp: shrinkLineage_def)
  moreover have "shrink_to m [] = []" by (simp add: shrink_to.simps)
  ultimately show ?case using 1 by (subst (asm) (1 2) shrink_to.simps, subst shrink_to.simps) (metis (full_types))
qed

lemma lineage_of_readable:
  "item \<in> set (lineage_of branch p) \<Longrightarrow> fst p \<le> length branch \<Longrightarrow>
   \<exists>i < fst p. r_id (branch ! i) = anchor item \<and> sourceText (branch ! i) \<noteq> []"
proof -
  assume item: "item \<in> set (lineage_of branch p)" and len: "fst p \<le> length branch"
  have readable: "readable_at branch k = Some i \<Longrightarrow> i \<le> k \<and> sourceText (branch ! i) \<noteq> []" for k i
    by (induction k) (auto split: if_splits)
  obtain k i where "k < fst p" "readable_at branch k = Some i" "anchor item = r_id (branch ! i)"
    using item by (auto simp: lineage_of_def Let_def split: if_splits option.splits) (metis not_le)
  with readable[of k i] show ?thesis by (auto intro!: exI[of _ i])
qed

text \<open>
  C21: The lineage section is bounded and searchable. \<open>checkpointLineage\<close> returns nothing or a list
  whose rendering fits the token bound; every item anchors on a record of the branch with readable
  text; and as long as anything is kept, the oldest checkpoint is.
\<close>

theorem checkpointLineage_bounded:
  "(checkpointLineage branch m = [] \<or> textTokens (renderLineage (checkpointLineage branch m)) \<le> m) \<and>
   list_all (\<lambda>item. \<exists>i < length branch. r_id (branch ! i) = anchor item \<and> sourceText (branch ! i) \<noteq> [])
     (checkpointLineage branch m) \<and>
   (checkpointLineage branch m = [] \<or>
      hd (checkpointLineage branch m) = hd (concat (map (lineage_of branch) (indexed branch))))"
proof -
  let ?all = "concat (map (lineage_of branch) (indexed branch))"
  have anchors: "\<exists>i < length branch. r_id (branch ! i) = anchor item \<and> sourceText (branch ! i) \<noteq> []"
    if item: "item \<in> set ?all" for item
  proof -
    obtain k r where k: "(k, r) \<in> set (indexed branch)" "item \<in> set (lineage_of branch (k, r))" using item by auto
    then have "k < length branch" by (simp add: in_set_indexed)
    with lineage_of_readable[OF k(2)] show ?thesis by (auto intro: less_trans)
  qed
  have "set (checkpointLineage branch m) \<subseteq> set ?all"
    unfolding checkpointLineage_def by (rule shrink_to_subset)
  then have "\<forall>item \<in> set (checkpointLineage branch m).
      \<exists>i < length branch. r_id (branch ! i) = anchor item \<and> sourceText (branch ! i) \<noteq> []"
    using anchors by blast
  moreover have "checkpointLineage branch m = [] \<or> textTokens (renderLineage (checkpointLineage branch m)) \<le> m"
    unfolding checkpointLineage_def by (rule shrink_to_bound)
  moreover have "checkpointLineage branch m = [] \<or> hd (checkpointLineage branch m) = hd ?all"
    unfolding checkpointLineage_def using shrink_to_hd by blast
  ultimately show ?thesis by (simp only: list_all_iff)
qed

end
