(* ===== verification/Checkpoints.thy ===== *)
theory Checkpoints
  imports Notes
begin

text \<open>
  \<^bold>\<open>notes.ts\<close>, second half: reopening a stored checkpoint. \<open>latestMemory\<close> validates the newest
  compaction with direct lookups; \<open>validateMemoryCheckpoints\<close> validates all of them oldest first
  over indices it builds once. Both call \<open>validateMemoryCheckpoint\<close> with their own lookups.
\<close>

section \<open>One checkpoint\<close>

record checkpoint_lookups =
  coverageIndex :: "jstring \<Rightarrow> nat option"
  prefixHash :: "nat \<Rightarrow> jstring option res"
  sourceById :: "jstring \<Rightarrow> jstring option"
  requests :: "nat \<Rightarrow> session_record list"
  sourceOf :: "session_record \<Rightarrow> jstring"

definition render_request :: "(session_record \<Rightarrow> jstring) \<Rightarrow> session_record \<Rightarrow> jstring" where
  "render_request text r = stringify (obj [(''entryId'', JStr (r_id r)), (''request'', JStr (text r))])"

definition renderContinuationWithText :: "session_record list \<Rightarrow> (session_record \<Rightarrow> jstring) \<Rightarrow> jstring" where
  "renderContinuationWithText rs text =
     newline @ newline @ js ''## In-progress user requests'' @ newline
     @ js ''This checkpoint was taken between tool batches, before the current turn completed. Continue the unfinished work from its recorded progress; do not restart completed steps or treat this internal handover as a new task. The following original user messages are in chronological order, not new submissions. Later user messages override earlier ones. Consult context_history for earlier constraints or evidence missing from the note.''
     @ newline @ join newline (map (render_request text) rs)"

definition renderContinuation :: "session_record list \<Rightarrow> jstring" where
  "renderContinuation rs = renderContinuationWithText rs sourceText"

type_synonym validated_memory = "session_record \<times> jsval"

definition validateMemoryCheckpoint ::
    "host \<Rightarrow> session_record \<Rightarrow> nat \<Rightarrow> checkpoint_lookups \<Rightarrow> validated_memory option res" where
  "validateMemoryCheckpoint h entry index validation =
     (case r_body entry of Compaction c \<Rightarrow>
       (let data = c_details c in
        if \<not> isRecord data \<or> jfield data ''kind'' \<noteq> JStr CONTEXT_MEMORY_KIND then Inr None
        else (case (as_str (jfield data ''coveredThrough''), as_str (jfield data ''sourceHash'')) of
          (Some covered, Some hash) \<Rightarrow>
            if jfield data ''version'' \<noteq> jint 1
            then throw CONTEXT_NOTE_VERSION ''CONTEXT_NOTE_VERSION: unsupported or malformed memory checkpoint''
            else
              let changed = throw CONTEXT_SOURCE_CHANGED ''CONTEXT_SOURCE_CHANGED: the stored checkpoint no longer matches its original evidence'' in
              (case coverageIndex validation covered of
                 None \<Rightarrow> changed
               | Some e \<Rightarrow>
                   if e \<ge> index then changed
                   else bind_res (prefixHash validation (e + 1)) (\<lambda>found.
                     if found \<noteq> Some hash then changed
                     else bind_res (storedNoteLimit (jfield data ''noteBudget'')) (\<lambda>hardTokens.
                     bind_res (validateNoteSources h (jfield data ''note'') (sourceById validation)) (\<lambda>checked.
                     bind_res (assertNoteBudget checked hardTokens) (\<lambda>note.
                     if \<not> starts_with (renderNote note []) (c_summary c)
                     then throw CONTEXT_NOTE_INVALID ''CONTEXT_NOTE_INVALID: the restored summary does not match the validated note''
                     else if jfield data ''continuation'' \<noteq> JUndef
                       \<and> (let rs = requests validation e in
                           rs = [] \<or>
                           stringify (jfield data ''continuation'') \<noteq> stringify (JArr (map (\<lambda>r. JStr (r_id r)) rs)) \<or>
                           \<not> ends_with (renderContinuationWithText rs (sourceOf validation)) (c_summary c) \<or>
                           \<not> list_ex (\<lambda>step. trim (f_text step) \<noteq> []) (items note NextSteps))
                     then throw CONTEXT_CONTINUATION_MISSING ''CONTEXT_CONTINUATION_MISSING: the checkpoint lost its active requests or continuation step''
                     else Inr (Some (entry, data)))))))
        | _ \<Rightarrow> throw CONTEXT_NOTE_VERSION ''CONTEXT_NOTE_VERSION: unsupported or malformed memory checkpoint''))
     | _ \<Rightarrow> Inr None)"

section \<open>The latest checkpoint\<close>

datatype serialization = Pi | Jcs

definition hash_records :: "host \<Rightarrow> serialization \<Rightarrow> session_record list \<Rightarrow> jstring res" where
  "hash_records h s rs = (case s of Pi \<Rightarrow> hashEntries (digest h) rs | Jcs \<Rightarrow> hashCanonicalRecords (digest h) rs)"

definition latest_lookups :: "host \<Rightarrow> serialization \<Rightarrow> session_record list \<Rightarrow> nat \<Rightarrow> checkpoint_lookups" where
  "latest_lookups h s branch index =
     \<lparr>coverageIndex = first_at branch,
      prefixHash = (\<lambda>n. bind_res (hash_records h s (take n branch)) (\<lambda>x. Inr (Some x))),
      sourceById = text_by_id (take index branch),
      requests = (\<lambda>e. inProgressRequests (take (e + 1) branch)),
      sourceOf = sourceText\<rparr>"

definition latestMemory :: "host \<Rightarrow> serialization \<Rightarrow> session_record list \<Rightarrow> validated_memory option res" where
  "latestMemory h s branch =
     (case find_last_index is_compaction branch of
        None \<Rightarrow> Inr None
      | Some index \<Rightarrow> validateMemoryCheckpoint h (branch ! index) index (latest_lookups h s branch index))"

section \<open>All checkpoints, oldest first\<close>

function upper_loop :: "int list \<Rightarrow> int \<Rightarrow> nat \<Rightarrow> nat \<Rightarrow> nat" where
  "upper_loop values v low high =
     (if low < high then
        let middle = (low + high) div 2 in
        if values ! middle \<le> v then upper_loop values v (middle + 1) high else upper_loop values v low middle
      else low)"
  by auto
termination by (relation "measure (\<lambda>(_, _, low, high). high - low)") auto

declare upper_loop.simps [simp del]

definition upperBound :: "int list \<Rightarrow> int \<Rightarrow> nat" where
  "upperBound values v = upper_loop values v 0 (length values)"

record branch_scan =
  firstById :: "jstring \<Rightarrow> nat option"
  userIndices :: "nat list"
  completedAt :: "int list"
  lastCompleted :: int

definition scan_step :: "nat \<times> session_record \<Rightarrow> branch_scan \<Rightarrow> branch_scan" where
  "scan_step p st =
     (let index = fst p; entry = snd p;
          last = (if is_completed entry then int index else lastCompleted st)
      in \<lparr>firstById = (if firstById st (r_id entry) = None then (firstById st)(r_id entry \<mapsto> index) else firstById st),
          userIndices = (if is_user entry then userIndices st @ [index] else userIndices st),
          completedAt = completedAt st @ [last], lastCompleted = last\<rparr>)"

definition scan_branch :: "session_record list \<Rightarrow> branch_scan" where
  "scan_branch branch =
     fold scan_step (indexed branch)
       \<lparr>firstById = Map.empty, userIndices = [], completedAt = [], lastCompleted = -1\<rparr>"

definition covered_length :: "branch_scan \<Rightarrow> nat \<times> session_record \<Rightarrow> int list" where
  "covered_length st p =
     (case (isRecord (checkpoint_details (snd p)), jfield (checkpoint_details (snd p)) ''coveredThrough'') of
        (True, JStr covered) \<Rightarrow>
          (case firstById st covered of Some e \<Rightarrow> if e < fst p then [int e + 1] else [] | None \<Rightarrow> [])
      | _ \<Rightarrow> [])"

definition serialize_record :: "serialization \<Rightarrow> session_record \<Rightarrow> jstring res" where
  "serialize_record s r = (case s of Pi \<Rightarrow> serializeNative r | Jcs \<Rightarrow> serializeCanonicalRecord r)"

definition hash_prefixes :: "host \<Rightarrow> serialization \<Rightarrow> session_record list \<Rightarrow> int list
    \<Rightarrow> ((nat \<Rightarrow> jstring option) \<times> (nat \<times> jstring) list) res" where
  "hash_prefixes h s rs ls =
     (case s of Pi \<Rightarrow> hashEntryPrefixes (digest h) rs ls | Jcs \<Rightarrow> hashCanonicalRecordPrefixes (digest h) rs ls)"

definition all_lookups ::
    "branch_scan \<Rightarrow> (nat \<Rightarrow> jstring option) \<Rightarrow> session_record list \<Rightarrow> (jstring \<Rightarrow> session_record option) \<Rightarrow> checkpoint_lookups" where
  "all_lookups st hashes branch byId =
     \<lparr>coverageIndex = firstById st,
      prefixHash = (\<lambda>n. Inr (hashes n)),
      sourceById = (\<lambda>i. map_option sourceText (byId i)),
      requests = (\<lambda>e. map (\<lambda>i. branch ! i)
        (slice (upperBound (map int (userIndices st)) (completedAt st ! e))
               (upperBound (map int (userIndices st)) (int e)) (userIndices st))),
      sourceOf = sourceText\<rparr>"

fun validate_walk :: "host \<Rightarrow> branch_scan \<Rightarrow> (nat \<Rightarrow> jstring option) \<Rightarrow> session_record list
    \<Rightarrow> (jstring \<Rightarrow> session_record option) \<Rightarrow> validated_memory option \<Rightarrow> (nat \<times> session_record) list
    \<Rightarrow> validated_memory option res" where
  "validate_walk h st hashes branch byId latest [] = Inr latest"
| "validate_walk h st hashes branch byId latest ((index, entry) # rest) =
     bind_res
       (if is_compaction entry
        then validateMemoryCheckpoint h entry index (all_lookups st hashes branch byId) else Inr latest)
       (\<lambda>latest'. validate_walk h st hashes branch (byId(r_id entry \<mapsto> entry)) latest' rest)"

text \<open>\<open>listen\<close>: the caller passed \<open>onSerializedEntry\<close>; the second result is what it was called with.\<close>

definition validateMemoryCheckpoints :: "host \<Rightarrow> serialization \<Rightarrow> bool \<Rightarrow> session_record list
    \<Rightarrow> (validated_memory option \<times> (nat \<times> jstring) list) res" where
  "validateMemoryCheckpoints h s listen branch =
     (if \<not> list_ex is_compaction branch then
        (if listen then bind_res (map_res (serialize_record s) branch) (\<lambda>texts. Inr (None, zip [0..<length branch] texts))
         else Inr (None, []))
      else
        let st = scan_branch branch;
            lengths = concat (map (covered_length st) (indexed branch)) @ (if listen then [int (length branch)] else [])
        in bind_res (hash_prefixes h s branch lengths) (\<lambda>(hashes, calls).
           bind_res (validate_walk h st hashes branch Map.empty None (indexed branch)) (\<lambda>latest. Inr (latest, calls))))"

text \<open>Earlier note formats on the branch: each custom note validated against what precedes it.\<close>

definition noteIncrements :: "host \<Rightarrow> session_record list \<Rightarrow> jstring option \<Rightarrow> memory_note list" where
  "noteIncrements h branch afterId =
     (let start = (case afterId of
                     Some (u # i) \<Rightarrow> (case first_at branch (u # i) of Some k \<Rightarrow> Suc k | None \<Rightarrow> 0) | _ \<Rightarrow> 0)
      in concat (map (\<lambda>(index, entry).
           case r_body entry of
             Custom t d \<Rightarrow> (if t \<noteq> CONTEXT_NOTE_TYPE then []
                else case validateNote h d (take index branch) 2000 of Inr n \<Rightarrow> [n] | Inl _ \<Rightarrow> [])
           | _ \<Rightarrow> []) (drop start (indexed branch))))"


section \<open>The indices are the direct lookups\<close>

lemma scan_branch_Nil [simp]:
  "scan_branch [] = \<lparr>firstById = Map.empty, userIndices = [], completedAt = [], lastCompleted = -1\<rparr>"
  by (simp add: scan_branch_def indexed_def)

lemma scan_branch_snoc [simp]: "scan_branch (rs @ [r]) = scan_step (length rs, r) (scan_branch rs)"
  by (simp add: scan_branch_def indexed_snoc)

lemma find_index_snoc:
  "find_index p (xs @ [x]) =
     (case find_index p xs of Some i \<Rightarrow> Some i | None \<Rightarrow> if p x then Some (length xs) else None)"
  by (induction xs) (auto split: option.splits)

lemma scan_firstById: "firstById (scan_branch rs) = first_at rs"
proof (induction rs rule: rev_induct)
  case (snoc r rs)
  show ?case
    by (rule ext) (auto simp: snoc scan_step_def Let_def first_at_def find_index_snoc split: option.splits)
qed (auto simp: first_at_def)

lemma filter_upt_nth_snoc:
  "filter (\<lambda>i. p ((rs @ [r]) ! i)) [0..<length rs] = filter (\<lambda>i. p (rs ! i)) [0..<length rs]"
  by (rule filter_cong) (auto simp: nth_append)

lemma scan_userIndices: "userIndices (scan_branch rs) = filter (\<lambda>i. is_user (rs ! i)) [0..<length rs]"
proof (induction rs rule: rev_induct)
  case (snoc r rs)
  then show ?case by (simp add: scan_step_def Let_def filter_upt_nth_snoc)
qed simp

definition last_completed :: "session_record list \<Rightarrow> int" where
  "last_completed rs = (case find_last_index is_completed rs of None \<Rightarrow> -1 | Some i \<Rightarrow> int i)"

lemma find_last_index_snoc:
  "find_last_index p (xs @ [x]) = (if p x then Some (length xs) else find_last_index p xs)"
  by (induction xs) (auto split: option.splits)

lemma last_completed_snoc:
  "last_completed (rs @ [r]) = (if is_completed r then int (length rs) else last_completed rs)"
  by (simp add: last_completed_def find_last_index_snoc)

lemma scan_lastCompleted: "lastCompleted (scan_branch rs) = last_completed rs"
proof (induction rs rule: rev_induct)
  case (snoc r rs)
  then show ?case by (simp add: scan_step_def Let_def last_completed_snoc)
qed (simp add: last_completed_def)

lemma scan_completedAt: "completedAt (scan_branch rs) = map (\<lambda>e. last_completed (take (Suc e) rs)) [0..<length rs]"
proof (induction rs rule: rev_induct)
  case (snoc r rs)
  have "map (\<lambda>e. last_completed (take (Suc e) (rs @ [r]))) [0..<length rs]
      = map (\<lambda>e. last_completed (take (Suc e) rs)) [0..<length rs]"
    by (rule map_cong) auto
  then show ?case by (simp add: snoc scan_step_def Let_def last_completed_snoc scan_lastCompleted)
qed simp

section \<open>Binary search\<close>

lemma upper_loop_correct:
  assumes "sorted xs" and "low \<le> high" and "high \<le> length xs"
    and "\<forall>i < low. xs ! i \<le> v" and "\<forall>i. high \<le> i \<longrightarrow> i < length xs \<longrightarrow> v < xs ! i"
  shows "upper_loop xs v low high \<le> length xs \<and>
    (\<forall>i < upper_loop xs v low high. xs ! i \<le> v) \<and>
    (\<forall>i. upper_loop xs v low high \<le> i \<longrightarrow> i < length xs \<longrightarrow> v < xs ! i)"
  using assms
proof (induction xs v low high rule: upper_loop.induct)
  case (1 xs v low high)
  show ?case
  proof (cases "low < high")
    case False
    with 1(4-7) show ?thesis by (subst (1 2 3) upper_loop.simps) auto
  next
    case True
    define m where "m = (low + high) div 2"
    have m: "low \<le> m" "m < high" using True by (auto simp: m_def)
    show ?thesis
    proof (cases "xs ! m \<le> v")
      case True
      have "\<forall>i < m + 1. xs ! i \<le> v"
      proof safe
        fix i assume "i < m + 1"
        then have "xs ! i \<le> xs ! m" using m 1(3,5) by (intro sorted_nth_mono) auto
        with True show "xs ! i \<le> v" by simp
      qed
      with 1(1)[OF \<open>low < high\<close> m_def True] 1(3-7) m True \<open>low < high\<close> show ?thesis
        by (subst (1 2 3) upper_loop.simps) (simp add: m_def[symmetric] Let_def)
    next
      case False
      have "v < xs ! i" if "m \<le> i" "i < length xs" for i
        using False sorted_nth_mono[OF 1(3) that] by simp
      with 1(2)[OF \<open>low < high\<close> m_def False] 1(3-7) m False \<open>low < high\<close> show ?thesis
        by (subst (1 2 3) upper_loop.simps) (simp add: m_def[symmetric] Let_def)
    qed
  qed
qed

text \<open>The position splits a sorted array into the values up to \<open>v\<close> and those above.\<close>

lemma upperBound_split:
  assumes "sorted xs"
  shows "take (upperBound xs v) xs = filter (\<lambda>x. x \<le> v) xs"
    and "drop (upperBound xs v) xs = filter (\<lambda>x. v < x) xs"
proof -
  let ?k = "upperBound xs v"
  have k: "?k \<le> length xs" "\<forall>i < ?k. xs ! i \<le> v" "\<forall>i. ?k \<le> i \<longrightarrow> i < length xs \<longrightarrow> v < xs ! i"
    using upper_loop_correct[of xs 0 "length xs" v] assms by (auto simp: upperBound_def)
  have t: "\<forall>x \<in> set (take ?k xs). x \<le> v" using k(1,2) by (auto simp: in_set_conv_nth)
  have d: "\<forall>x \<in> set (drop ?k xs). v < x" using k(1,3) by (auto simp: in_set_conv_nth)
  have split: "filter P xs = filter P (take ?k xs) @ filter P (drop ?k xs)" for P
    by (metis append_take_drop_id filter_append)
  have "filter (\<lambda>x. x \<le> v) (take ?k xs) = take ?k xs" "filter (\<lambda>x. x \<le> v) (drop ?k xs) = []"
    using t d by (auto simp: filter_id_conv filter_empty_conv)
  then show "take ?k xs = filter (\<lambda>x. x \<le> v) xs" using split[of "\<lambda>x. x \<le> v"] by simp
  have "filter (\<lambda>x. v < x) (take ?k xs) = []" "filter (\<lambda>x. v < x) (drop ?k xs) = drop ?k xs"
    using t d by (auto simp: filter_id_conv filter_empty_conv)
  then show "drop ?k xs = filter (\<lambda>x. v < x) xs" using split[of "\<lambda>x. v < x"] by simp
qed


section \<open>Both validations look up the same\<close>

lemma filter_is_user_drop:
  "filter is_user (drop k (take n rs)) = map (\<lambda>i. rs ! i) (filter (\<lambda>i. is_user (rs ! i)) [k..<min n (length rs)])"
proof -
  have "drop k (take n rs) = map (\<lambda>i. rs ! i) [k..<min n (length rs)]"
  proof (rule nth_equalityI)
    fix i assume "i < length (drop k (take n rs))"
    then have "k + i < length rs" "k + i < n" by auto
    then show "drop k (take n rs) ! i = map (\<lambda>i. rs ! i) [k..<min n (length rs)] ! i" by simp
  qed (simp add: min.commute)
  then show ?thesis by (simp add: filter_map comp_def)
qed

lemma sorted_map_int_filter: "sorted (map int (filter P [0..<n]))"
  by (simp add: sorted_wrt_map sorted_wrt_filter)

lemma slice_between:
  assumes "sorted (map int us)"
  shows "slice (upperBound (map int us) a) (upperBound (map int us) b) us = filter (\<lambda>i. a < int i \<and> int i \<le> b) us"
proof -
  let ?k = "\<lambda>v. upperBound (map int us) v"
  have t: "take (?k v) us = filter (\<lambda>i. int i \<le> v) us" and d: "drop (?k v) us = filter (\<lambda>i. v < int i) us" for v
    using upperBound_split[OF assms, of v] map_injective[of int] inj_of_nat
    by (auto simp: take_map drop_map filter_map comp_def inj_on_def dest!: map_injective)
  have "slice (?k a) (?k b) us = drop (?k a) (take (?k b) us)" by (simp add: slice_def drop_take)
  also have "\<dots> = filter (\<lambda>i. a < int i) (take (?k b) us)"
  proof (cases "?k a \<le> ?k b")
    case True
    have "filter (\<lambda>i. a < int i) us = filter (\<lambda>i. a < int i) (take (?k b) us) @ filter (\<lambda>i. a < int i) (drop (?k b) us)"
      by (metis append_take_drop_id filter_append)
    moreover have "drop (?k a) us = drop (?k a) (take (?k b) us) @ drop (?k b) us"
    proof -
      have "drop (?k a) (take (?k b) us @ drop (?k b) us) = drop (?k a) (take (?k b) us) @ drop (?k b) us"
        using True unfolding drop_append by (cases "?k b \<le> length us") auto
      then show ?thesis by simp
    qed
    moreover have "filter (\<lambda>i. a < int i) (drop (?k b) us) = drop (?k b) us"
    proof -
      have "\<forall>x \<in> set (drop (?k b) us). x \<in> set (drop (?k a) us)"
        using True by (auto dest: set_drop_subset_set_drop[THEN subsetD])
      then show ?thesis unfolding d by (simp only: filter_id_conv) auto
    qed
    ultimately show ?thesis using d[of a] by (metis append_same_eq)
  next
    case False
    then have "take (?k b) us = take (?k b) (take (?k a) us)" by simp
    then have "\<forall>x \<in> set (take (?k b) us). int x \<le> a" using t[of a] by (auto dest: in_set_takeD)
    then have "filter (\<lambda>i. a < int i) (take (?k b) us) = []" unfolding filter_empty_conv by (simp add: not_less)
    then show ?thesis using False by simp
  qed
  finally show ?thesis by (simp add: t conj_commute)
qed

lemma requests_same:
  assumes "e < length branch"
  shows "requests (all_lookups (scan_branch branch) hashes branch byId) e = inProgressRequests (take (e + 1) branch)"
proof -
  let ?lc = "last_completed (take (Suc e) branch)"
  let ?us = "filter (\<lambda>i. is_user (branch ! i)) [0..<length branch]"
  have "requests (all_lookups (scan_branch branch) hashes branch byId) e
      = map (\<lambda>i. branch ! i) (filter (\<lambda>i. ?lc < int i \<and> int i \<le> int e) ?us)"
    using assms by (simp add: all_lookups_def scan_userIndices scan_completedAt slice_between sorted_map_int_filter)
  also have "filter (\<lambda>i. ?lc < int i \<and> int i \<le> int e) ?us
      = filter (\<lambda>i. is_user (branch ! i)) (filter (\<lambda>i. ?lc < int i \<and> int i \<le> int e) [0..<length branch])"
    by (simp add: conj_commute)
  also have "filter (\<lambda>i. ?lc < int i \<and> int i \<le> int e) [0..<length branch] = [nat (?lc + 1)..<Suc e]"
    by (rule sorted_distinct_set_unique) (use assms in \<open>auto simp: sorted_wrt_filter last_completed_def simp del: upt_Suc split: option.splits\<close>)
  also have "map (\<lambda>i. branch ! i) (filter (\<lambda>i. is_user (branch ! i)) [nat (?lc + 1)..<Suc e])
      = filter is_user (drop (nat (?lc + 1)) (take (Suc e) branch))"
    using assms filter_is_user_drop[of "nat (?lc + 1)" "Suc e" branch] by (simp only: min_absorb1 Suc_leI)
  also have "\<dots> = inProgressRequests (take (e + 1) branch)"
    by (cases "find_last_index is_completed (take (Suc e) branch)")
      (simp_all add: inProgressRequests_def last_completed_def nat_add_distrib)
  finally show ?thesis .
qed


lemma covered_length_in:
  assumes "i < length branch" and "r_body (branch ! i) = Compaction c" and "isRecord (c_details c)"
    and "jfield (c_details c) ''coveredThrough'' = JStr covered" and "first_at branch covered = Some e" and "e < i"
  shows "int e + 1 \<in> set (concat (map (covered_length (scan_branch branch)) (indexed branch)))"
proof -
  have "int e + 1 \<in> set (covered_length (scan_branch branch) (i, branch ! i))"
    using assms by (simp add: covered_length_def checkpoint_details_def scan_firstById)
  moreover have "(i, branch ! i) \<in> set (indexed branch)" using assms(1) by (simp add: in_set_indexed)
  ultimately show ?thesis by fastforce
qed

lemma serialize_record_simps [simp]:
  "serialize_record Pi = serializeNative" "serialize_record Jcs = serializeCanonicalRecord"
  by (auto simp: serialize_record_def)

lemma hash_prefixes_Inr:
  assumes "hash_prefixes h s rs ls = Inr (m, calls)"
  shows "dom m = nat ` set ls"
    and "n \<in> dom m \<Longrightarrow> hash_records h s (take n rs) = Inr (the (m n))"
    and "\<exists>k ss. map_res (serialize_record s) (take k rs) = Inr ss \<and> k \<le> length rs \<and> nat ` set ls \<subseteq> {..k} \<and>
           (k = 0 \<or> k \<in> nat ` set ls) \<and> calls = zip [0..<k] ss"
proof -
  have "prefix_hashes (digest h) (serialize_record s) rs ls = Inr (m, calls)"
    using assms by (cases s)
      (simp_all add: hash_prefixes_def hashEntryPrefixes_def hashCanonicalRecordPrefixes_def)
  note hashes = prefix_hashes_Inr[OF this]
  show "dom m = nat ` set ls" by (rule hashes(1))
  show "n \<in> dom m \<Longrightarrow> hash_records h s (take n rs) = Inr (the (m n))"
    using hashes(2)[of n] by (cases s)
      (simp_all add: hash_records_def hashEntries_def hashCanonicalRecords_def)
  show "\<exists>k ss. map_res (serialize_record s) (take k rs) = Inr ss \<and> k \<le> length rs \<and> nat ` set ls \<subseteq> {..k} \<and>
           (k = 0 \<or> k \<in> nat ` set ls) \<and> calls = zip [0..<k] ss"
    by (rule hashes(3))
qed

text \<open>With the hashes of its prefixes at hand, a checkpoint validates to the same value either way.\<close>

lemma validate_same:
  assumes "i < length branch" and "hash_prefixes h s branch ls = Inr (hashes, calls)"
    and "set (concat (map (covered_length (scan_branch branch)) (indexed branch))) \<subseteq> set ls"
  shows "validateMemoryCheckpoint h (branch ! i) i
      (all_lookups (scan_branch branch) hashes branch (last_with_id (take i branch)))
    = validateMemoryCheckpoint h (branch ! i) i (latest_lookups h s branch i)"
proof (cases "r_body (branch ! i)")
  case (Compaction c)
  have prefix: "hash_records h s (take (e + 1) branch) = Inr (the (hashes (e + 1))) \<and> hashes (e + 1) \<noteq> None"
    if "isRecord (c_details c)" "jfield (c_details c) ''coveredThrough'' = JStr covered"
      "first_at branch covered = Some e" "e < i" for covered e
  proof -
    have "int e + 1 \<in> set ls" using covered_length_in[OF assms(1) Compaction that] assms(3) by blast
    then have "e + 1 \<in> dom hashes" using hash_prefixes_Inr(1)[OF assms(2)]
      by (metis image_eqI nat_int_add of_nat_1)
    with hash_prefixes_Inr(2)[OF assms(2) this] show ?thesis by auto
  qed
  have lookups: "sourceById (all_lookups (scan_branch branch) hashes branch (last_with_id (take i branch)))
      = sourceById (latest_lookups h s branch i)"
    "coverageIndex (all_lookups (scan_branch branch) hashes branch (last_with_id (take i branch)))
      = coverageIndex (latest_lookups h s branch i)"
    "sourceOf (all_lookups (scan_branch branch) hashes branch (last_with_id (take i branch)))
      = sourceOf (latest_lookups h s branch i)"
    by (auto simp: all_lookups_def latest_lookups_def text_by_id_def fun_eq_iff scan_firstById)
  have same: "prefixHash (all_lookups (scan_branch branch) hashes branch (last_with_id (take i branch))) (e + 1)
        = prefixHash (latest_lookups h s branch i) (e + 1)
      \<and> requests (all_lookups (scan_branch branch) hashes branch (last_with_id (take i branch))) e
        = requests (latest_lookups h s branch i) e"
    if "isRecord (c_details c)" "jfield (c_details c) ''coveredThrough'' = JStr covered"
      "coverageIndex (latest_lookups h s branch i) covered = Some e" "\<not> e \<ge> i" for covered e
    using prefix[of covered e] that requests_same[of e branch hashes] assms(1)
    by (auto simp: latest_lookups_def all_lookups_def)
  show ?thesis
  proof (cases "isRecord (c_details c) \<and> (\<exists>covered e. jfield (c_details c) ''coveredThrough'' = JStr covered \<and>
      coverageIndex (latest_lookups h s branch i) covered = Some e \<and> \<not> e \<ge> i)")
    case True
    then obtain covered e where e: "jfield (c_details c) ''coveredThrough'' = JStr covered"
        "coverageIndex (latest_lookups h s branch i) covered = Some e" "\<not> e \<ge> i" "isRecord (c_details c)" by blast
    show ?thesis
      using e same[OF e(4,1,2,3)]
      unfolding validateMemoryCheckpoint_def Compaction body.case Let_def lookups
      by (auto split: option.splits cong: if_cong)
  next
    case False
    then show ?thesis
      unfolding validateMemoryCheckpoint_def Compaction body.case Let_def lookups by (auto split: option.splits)
  qed
qed (auto simp: validateMemoryCheckpoint_def)

lemma walk_same:
  assumes "hash_prefixes h s branch ls = Inr (hashes, calls)"
    and "set (concat (map (covered_length (scan_branch branch)) (indexed branch))) \<subseteq> set ls"
    and "validate_walk h (scan_branch branch) hashes branch (last_with_id (take k branch)) latest (drop k (indexed branch)) = Inr r"
  shows "r = (case find_last_index is_compaction (drop k branch) of None \<Rightarrow> latest
      | Some j \<Rightarrow> (case validateMemoryCheckpoint h (branch ! (k + j)) (k + j) (latest_lookups h s branch (k + j)) of
          Inr v \<Rightarrow> v | Inl _ \<Rightarrow> None))"
    and "\<forall>i. k \<le> i \<longrightarrow> i < length branch \<longrightarrow> is_compaction (branch ! i) \<longrightarrow>
      (\<exists>v. validateMemoryCheckpoint h (branch ! i) i (latest_lookups h s branch i) = Inr v)"
  using assms(3)
proof (induction "length branch - k" arbitrary: k latest)
  case 0
  {
    case 1
    with 0 show ?case by simp
  next
    case 2
    with 0 show ?case by auto
  }
next
  case (Suc n)
  then have k: "k < length branch" by simp
  have drop_k: "drop k (indexed branch) = (k, branch ! k) # drop (Suc k) (indexed branch)"
    using k by (simp add: Cons_nth_drop_Suc[symmetric])
  have map_k: "(last_with_id (take k branch))(r_id (branch ! k) \<mapsto> branch ! k) = last_with_id (take (Suc k) branch)"
    using k by (auto simp: take_Suc_conv_app_nth last_with_id_snoc fun_eq_iff)
  have branch_k: "drop k branch = branch ! k # drop (Suc k) branch" using k by (simp add: Cons_nth_drop_Suc)
  note step = validate_same[OF k assms(1,2)]
  {
    case 1
    obtain latest' where l: "(if is_compaction (branch ! k)
        then validateMemoryCheckpoint h (branch ! k) k (latest_lookups h s branch k) else Inr latest) = Inr latest'"
      "validate_walk h (scan_branch branch) hashes branch (last_with_id (take (Suc k) branch)) latest' (drop (Suc k) (indexed branch)) = Inr r"
      using 1 unfolding drop_k by (auto simp: step map_k split: if_splits)
    have "n = length branch - Suc k" using Suc.hyps(3) by simp
    from Suc.hyps(1)[OF this l(2)] l(1) show ?case
      unfolding branch_k by (auto split: option.splits if_splits)
  next
    case 2
    obtain latest' where l: "(if is_compaction (branch ! k)
        then validateMemoryCheckpoint h (branch ! k) k (latest_lookups h s branch k) else Inr latest) = Inr latest'"
      "validate_walk h (scan_branch branch) hashes branch (last_with_id (take (Suc k) branch)) latest' (drop (Suc k) (indexed branch)) = Inr r"
      using 2 unfolding drop_k by (auto simp: step map_k split: if_splits)
    have "n = length branch - Suc k" using Suc.hyps(3) by simp
    from Suc.hyps(2)[OF this l(2)] l(1) show ?case
      by (metis le_eq_less_or_eq Suc_leI)
  }
qed


lemma validateMemoryCheckpoints_latest:
  assumes "validateMemoryCheckpoints h s listen branch = Inr (r, calls)"
  shows "latestMemory h s branch = Inr r"
    and "i < length branch \<Longrightarrow> is_compaction (branch ! i) \<Longrightarrow>
      \<exists>v. validateMemoryCheckpoint h (branch ! i) i (latest_lookups h s branch i) = Inr v"
    and "listen \<Longrightarrow> \<exists>texts. map_res (serialize_record s) branch = Inr texts \<and> calls = zip [0..<length branch] texts"
proof -
  let ?ls = "concat (map (covered_length (scan_branch branch)) (indexed branch))
      @ (if listen then [int (length branch)] else [])"
  have last0: "last_with_id [] = Map.empty" by auto
  have "latestMemory h s branch = Inr r \<and>
      (i < length branch \<longrightarrow> is_compaction (branch ! i) \<longrightarrow>
        (\<exists>v. validateMemoryCheckpoint h (branch ! i) i (latest_lookups h s branch i) = Inr v)) \<and>
      (listen \<longrightarrow> (\<exists>texts. map_res (serialize_record s) branch = Inr texts \<and> calls = zip [0..<length branch] texts))"
  proof (cases "list_ex is_compaction branch")
    case False
    then have "find_last_index is_compaction branch = None" by (auto simp: find_last_index_None list_ex_iff)
    with False assms show ?thesis
      by (auto simp: validateMemoryCheckpoints_def latestMemory_def list_ex_iff split: if_splits)
  next
    case True
    then obtain hashes where p: "hash_prefixes h s branch ?ls = Inr (hashes, calls)"
      and w: "validate_walk h (scan_branch branch) hashes branch (last_with_id (take 0 branch)) None (drop 0 (indexed branch)) = Inr r"
      using assms by (auto simp: validateMemoryCheckpoints_def Let_def last0 split: if_splits)
    have sub: "set (concat (map (covered_length (scan_branch branch)) (indexed branch))) \<subseteq> set ?ls" by simp
    from True obtain j where j: "find_last_index is_compaction branch = Some j"
      by (metis find_last_index_None list_ex_iff not_Some_eq)
    then have jl: "j < length branch" "is_compaction (branch ! j)" by (auto simp: find_last_index_Some)
    note ok = walk_same(2)[OF p sub w]
    with jl obtain v where v: "validateMemoryCheckpoint h (branch ! j) j (latest_lookups h s branch j) = Inr v" by blast
    then have "latestMemory h s branch = Inr r"
      using walk_same(1)[OF p sub w] j by (simp add: latestMemory_def)
    moreover have "listen \<longrightarrow> (\<exists>texts. map_res (serialize_record s) branch = Inr texts \<and> calls = zip [0..<length branch] texts)"
    proof
      assume listen
      obtain k ss where k: "map_res (serialize_record s) (take k branch) = Inr ss" "k \<le> length branch"
          "nat ` set ?ls \<subseteq> {..k}" "calls = zip [0..<k] ss"
        using hash_prefixes_Inr(3)[OF p] by blast
      from \<open>listen\<close> have "length branch \<in> nat ` set ?ls" by force
      with k(3) have "length branch \<le> k" by blast
      with k(2) have "k = length branch" by simp
      with k show "\<exists>texts. map_res (serialize_record s) branch = Inr texts \<and> calls = zip [0..<length branch] texts" by auto
    qed
    ultimately show ?thesis using ok by blast
  qed
  then show "latestMemory h s branch = Inr r"
    and "i < length branch \<Longrightarrow> is_compaction (branch ! i) \<Longrightarrow>
      \<exists>v. validateMemoryCheckpoint h (branch ! i) i (latest_lookups h s branch i) = Inr v"
    and "listen \<Longrightarrow> \<exists>texts. map_res (serialize_record s) branch = Inr texts \<and> calls = zip [0..<length branch] texts"
    by blast+
qed


section \<open>A sample checkpoint\<close>

lemma validateNoteSources_text_by_id:
  "check h noteSchema v \<Longrightarrow> note_evidenced sources v \<Longrightarrow> validateNoteSources h v (text_by_id sources) = Inr v"
  using validateNoteContent_Inr[of h v sources v] by (simp add: validateNoteContent_def)

definition sample_details :: jsval where
  "sample_details = obj [(''kind'', JStr CONTEXT_MEMORY_KIND), (''version'', jint 1), (''note'', sample_note),
     (''coveredThrough'', JStr (js ''u1'')), (''sourceHash'', JStr (nat_str 3))]"

definition sample_checkpoint :: session_record where
  "sample_checkpoint = \<lparr>r_id = js ''c1'', r_parent = Some (js ''u1''), r_time = js ''t'',
     r_body = Compaction \<lparr>c_summary = renderNote sample_note [], c_firstKeptEntryId = js ''none'',
       c_tokensBefore = JInt 10, c_details = sample_details\<rparr>, r_native = JObj []\<rparr>"

definition sample_branch :: "session_record list" where
  "sample_branch = [sample_user, sample_checkpoint]"

lemma sample_hash: "hash_records plain_host Pi [sample_user] = Inr (nat_str 3)"
  by code_simp

lemma sample_latest: "latestMemory plain_host Pi sample_branch = Inr (Some (sample_checkpoint, sample_details))"
proof -
  have check: "check plain_host noteSchema sample_note"
    using sample_note_conforms by (simp add: plain_host_def)
  show ?thesis
    using sample_hash validateNoteSources_text_by_id[OF check sample_note_evidenced] sample_note_bytes
    by (simp add: latestMemory_def sample_branch_def is_compaction_def sample_checkpoint_def
        validateMemoryCheckpoint_def sample_details_def obj_def latest_lookups_def first_at_def storedNoteLimit_def
        assertNoteBudget_def starts_with_def Let_def)
qed

lemma sample_indexed: "indexed sample_branch = [(0, sample_user), (1, sample_checkpoint)]"
  by (simp add: indexed_def sample_branch_def)

lemma sample_checkpoint_simps [simp]:
  "is_compaction sample_checkpoint" "checkpoint_details sample_checkpoint = sample_details"
  "r_native sample_checkpoint = JObj []" "r_id sample_checkpoint = js ''c1''" "\<not> is_user sample_checkpoint"
  "\<not> is_completed sample_checkpoint"
  by (simp_all add: sample_checkpoint_def is_compaction_def checkpoint_details_def is_user_def is_completed_def)

lemma sample_lengths: "covered_length (scan_branch sample_branch) (0, sample_user) = []"
  "covered_length (scan_branch sample_branch) (Suc 0, sample_checkpoint) = [1]"
proof -
  have "checkpoint_details sample_user = JUndef" by (simp add: checkpoint_details_def sample_user_def)
  then show "covered_length (scan_branch sample_branch) (0, sample_user) = []" by (simp add: covered_length_def)
  have "first_at sample_branch (js ''u1'') = Some 0" by (simp add: first_at_def sample_branch_def)
  then show "covered_length (scan_branch sample_branch) (Suc 0, sample_checkpoint) = [1]"
    by (simp add: covered_length_def sample_details_def obj_def scan_firstById)
qed

lemma sample_prefixes:
  "\<exists>m. hash_prefixes plain_host Pi sample_branch [1, 2] = Inr (m, [(0, js ''{}''), (1, js ''{}'')])"
  by (simp add: hash_prefixes_def hashEntryPrefixes_def prefix_hashes_def dedup_def valid_length_def max_safe_integer_def
      sample_branch_def serializeNative_def js_def eval_nat_numeral)

lemma sample_validate_all:
  "validateMemoryCheckpoints plain_host Pi True sample_branch
     = Inr (Some (sample_checkpoint, sample_details), [(0, js ''{}''), (1, js ''{}'')])"
proof -
  obtain m where p: "hash_prefixes plain_host Pi sample_branch [1, 2] = Inr (m, [(0, js ''{}''), (1, js ''{}'')])"
    using sample_prefixes by blast
  have byId: "[js ''u1'' \<mapsto> sample_user] = last_with_id (take 1 sample_branch)"
    using last_with_id_snoc[of "[]" sample_user] by (auto simp: sample_branch_def)
  have c: "sample_branch ! 1 = sample_checkpoint" "1 < length sample_branch" "length sample_branch = 2"
    by (simp_all add: sample_branch_def)
  have "find_last_index is_compaction sample_branch = Some 1" by (simp add: sample_branch_def)
  then have "validateMemoryCheckpoint plain_host sample_checkpoint 1
      (all_lookups (scan_branch sample_branch) m sample_branch [js ''u1'' \<mapsto> sample_user])
    = Inr (Some (sample_checkpoint, sample_details))"
    using validate_same[OF c(2) p] sample_latest c(1) unfolding byId by (simp add: latestMemory_def sample_indexed sample_lengths)
  moreover have "list_ex is_compaction sample_branch" by (simp add: sample_branch_def)
  ultimately show ?thesis
    using p by (simp add: validateMemoryCheckpoints_def sample_lengths c(3) sample_indexed Let_def)
qed


section \<open>Properties\<close>

text \<open>
  C1: The two validations agree. Whenever \<open>validateMemoryCheckpoints\<close> returns, \<open>latestMemory\<close> returns the
  same checkpoint: the indices built once (first positions, binary searches over the user messages,
  one-pass prefix hashes, the growing id map) look up what the direct searches look up. A listening
  caller has then been handed every record's serialization, in order.
\<close>

theorem validate_all_agrees_with_latest:
  assumes "validateMemoryCheckpoints h s listen branch = Inr (r, calls)"
  shows "latestMemory h s branch = Inr r \<and>
    (listen \<longrightarrow> (\<exists>texts. map_res (serialize_record s) branch = Inr texts \<and> calls = zip [0..<length branch] texts))"
  using validateMemoryCheckpoints_latest[OF assms] by blast

theorem validate_all_agrees_with_latest_witness:
  "latestMemory plain_host Pi sample_branch = Inr (Some (sample_checkpoint, sample_details)) \<and>
   validateMemoryCheckpoints plain_host Pi True sample_branch
     = Inr (Some (sample_checkpoint, sample_details), [(0, js ''{}''), (1, js ''{}'')])"
  using validate_all_agrees_with_latest[OF sample_validate_all] sample_validate_all by blast

lemma validateMemoryCheckpoint_Some:
  assumes "validateMemoryCheckpoint h r i (latest_lookups h s branch i) = Inr (Some (r', d))"
  shows "r' = r \<and> d = checkpoint_details r \<and> is_compaction r \<and> jfield d ''kind'' = JStr CONTEXT_MEMORY_KIND"
    and "\<exists>e hash hard. e < i \<and> jfield d ''coveredThrough'' = JStr (r_id (branch ! e)) \<and>
      first_at branch (r_id (branch ! e)) = Some e \<and> jfield d ''sourceHash'' = JStr hash \<and>
      hash_records h s (take (e + 1) branch) = Inr hash \<and> storedNoteLimit (jfield d ''noteBudget'') = Inr hard \<and>
      validateNote h (jfield d ''note'') (take i branch) hard = Inr (jfield d ''note'')"
proof -
  obtain c where c: "r_body r = Compaction c" using assms by (auto simp: validateMemoryCheckpoint_def split: body.splits)
  let ?d = "c_details c"
  have rd: "isRecord ?d \<and> jfield ?d ''kind'' = JStr CONTEXT_MEMORY_KIND"
    using assms c by (auto simp: validateMemoryCheckpoint_def Let_def split: if_splits)
  obtain covered hash where ch: "jfield ?d ''coveredThrough'' = JStr covered" "jfield ?d ''sourceHash'' = JStr hash"
    using assms c rd by (auto simp: validateMemoryCheckpoint_def Let_def split: option.splits)
  obtain e where e: "first_at branch covered = Some e" "e < i"
    using assms c rd ch by (auto simp: validateMemoryCheckpoint_def Let_def latest_lookups_def split: option.splits if_splits)
  obtain hard v n where hh: "hash_records h s (take (e + 1) branch) = Inr hash"
      "storedNoteLimit (jfield ?d ''noteBudget'') = Inr hard"
      "validateNoteSources h (jfield ?d ''note'') (text_by_id (take i branch)) = Inr v" "assertNoteBudget v hard = Inr n"
      "r' = r" "d = ?d"
    using assms c rd ch e by (auto simp: validateMemoryCheckpoint_def Let_def latest_lookups_def split: if_splits)
  have n: "validateNote h (jfield ?d ''note'') (take i branch) hard = Inr (jfield ?d ''note'')"
    using hh(3,4) validateNote_Inr[of h "jfield ?d ''note''" "take i branch" hard n]
      validateNote_Inr[of h "jfield ?d ''note''" "take i branch" hard "jfield ?d ''note''"]
    by (simp add: validateNote_def validateNoteContent_def)
  show "r' = r \<and> d = checkpoint_details r \<and> is_compaction r \<and> jfield d ''kind'' = JStr CONTEXT_MEMORY_KIND"
    using hh c rd by (simp add: checkpoint_details_def is_compaction_def)
  show "\<exists>e hash hard. e < i \<and> jfield d ''coveredThrough'' = JStr (r_id (branch ! e)) \<and>
      first_at branch (r_id (branch ! e)) = Some e \<and> jfield d ''sourceHash'' = JStr hash \<and>
      hash_records h s (take (e + 1) branch) = Inr hash \<and> storedNoteLimit (jfield d ''noteBudget'') = Inr hard \<and>
      validateNote h (jfield d ''note'') (take i branch) hard = Inr (jfield d ''note'')"
    using e ch hh n first_at_less[OF e(1)] by (intro exI[of _ e] exI[of _ hash] exI[of _ hard]) simp
qed

text \<open>
  C2: A reopened checkpoint is sound. If \<open>latestMemory\<close> returns a checkpoint, it is the newest
  compaction of the branch, its note passed full validation against the originals before it under its
  stored budget, and its stored hash is the hash of exactly the originals it covers, which end before
  the checkpoint.
\<close>

theorem latestMemory_sound:
  assumes "latestMemory h s branch = Inr (Some (r, d))"
  shows "\<exists>i e hash hard. find_last_index is_compaction branch = Some i \<and> branch ! i = r \<and> checkpoint_details r = d \<and>
      e < i \<and> jfield d ''coveredThrough'' = JStr (r_id (branch ! e)) \<and> jfield d ''sourceHash'' = JStr hash \<and>
      hash_records h s (take (e + 1) branch) = Inr hash \<and> storedNoteLimit (jfield d ''noteBudget'') = Inr hard \<and>
      validateNote h (jfield d ''note'') (take i branch) hard = Inr (jfield d ''note'')"
proof -
  obtain i where i: "find_last_index is_compaction branch = Some i"
      "validateMemoryCheckpoint h (branch ! i) i (latest_lookups h s branch i) = Inr (Some (r, d))"
    using assms by (auto simp: latestMemory_def split: option.splits)
  from validateMemoryCheckpoint_Some[OF i(2)] i(1) show ?thesis by blast
qed

theorem latestMemory_sound_witness:
  "\<exists>e hash. e < 1 \<and> jfield sample_details ''sourceHash'' = JStr hash \<and>
     hash_records plain_host Pi (take (e + 1) sample_branch) = Inr hash"
proof -
  have "find_last_index is_compaction sample_branch = Some 1" by (simp add: sample_branch_def)
  with latestMemory_sound[OF sample_latest] show ?thesis by auto
qed

end
