(* ===== verification/Call_Journal.thy ===== *)
theory Call_Journal
  imports Complex_Main Prelude
begin

text \<open>
  \<^bold>\<open>call-journal.ts\<close>: the accounting of writer calls. Token counts and the cost are rationals; the
  rounding of a floating-point cost sum is not modelled. \<open>r_dispatched = None\<close> is the absent field.
\<close>

datatype call_purpose = Preparation | Compaction_call

datatype journal_gap = Unreadable | Unwritable

record call_usage =
  u_input :: rat
  u_output :: rat
  u_cacheRead :: rat
  u_cacheWrite :: rat
  u_totalTokens :: rat
  u_cost :: rat

record call_record =
  cr_purpose :: call_purpose
  cr_interval :: jstring
  cr_settled :: bool
  cr_dispatched :: "bool option"
  cr_usage :: "call_usage option"
  cr_complete :: "bool option"

record call_summary =
  cs_calls :: nat
  cs_preparationCalls :: nat
  cs_compactionCalls :: nat
  cs_unsettled :: nat
  cs_unknownUsage :: nat
  cs_partialUsage :: nat
  cs_usage :: call_usage
  cs_gap :: "journal_gap option"

definition PREPARATION_CALLS_PER_ATTEMPT :: nat where
  "PREPARATION_CALLS_PER_ATTEMPT = 8"

definition ZERO_USAGE :: call_usage where
  "ZERO_USAGE = \<lparr>u_input = 0, u_output = 0, u_cacheRead = 0, u_cacheWrite = 0, u_totalTokens = 0, u_cost = 0\<rparr>"

definition add_usage :: "call_usage \<Rightarrow> call_usage \<Rightarrow> call_usage" where
  "add_usage a b = \<lparr>u_input = u_input a + u_input b, u_output = u_output a + u_output b,
     u_cacheRead = u_cacheRead a + u_cacheRead b, u_cacheWrite = u_cacheWrite a + u_cacheWrite b,
     u_totalTokens = u_totalTokens a + u_totalTokens b, u_cost = u_cost a + u_cost b\<rparr>"

definition summary_step :: "call_record \<Rightarrow> call_summary \<Rightarrow> call_summary" where
  "summary_step r s =
     (if cr_settled r \<and> cr_dispatched r = Some False then s
      else
        let s = s\<lparr>cs_calls := cs_calls s + 1\<rparr>;
            s = (if cr_purpose r = Preparation then s\<lparr>cs_preparationCalls := cs_preparationCalls s + 1\<rparr>
                 else s\<lparr>cs_compactionCalls := cs_compactionCalls s + 1\<rparr>)
        in if \<not> cr_settled r then s\<lparr>cs_unsettled := cs_unsettled s + 1\<rparr>
           else (case cr_usage r of
               None \<Rightarrow> s\<lparr>cs_unknownUsage := cs_unknownUsage s + 1\<rparr>
             | Some u \<Rightarrow>
                 let s = (if cr_complete r \<noteq> Some True then s\<lparr>cs_partialUsage := cs_partialUsage s + 1\<rparr> else s)
                 in s\<lparr>cs_usage := add_usage (cs_usage s) u\<rparr>))"

definition summarizeCalls :: "call_record list \<Rightarrow> journal_gap option \<Rightarrow> call_summary" where
  "summarizeCalls rs gap = fold summary_step rs
     \<lparr>cs_calls = 0, cs_preparationCalls = 0, cs_compactionCalls = 0, cs_unsettled = 0, cs_unknownUsage = 0,
      cs_partialUsage = 0, cs_usage = ZERO_USAGE, cs_gap = gap\<rparr>"

section \<open>The summary as counts and a sum\<close>

definition counted :: "call_record \<Rightarrow> bool" where
  "counted r \<longleftrightarrow> \<not> (cr_settled r \<and> cr_dispatched r = Some False)"

definition usage_known :: "call_record \<Rightarrow> bool" where
  "usage_known r \<longleftrightarrow> counted r \<and> cr_settled r \<and> cr_usage r \<noteq> None"

definition count_if :: "('a \<Rightarrow> bool) \<Rightarrow> 'a list \<Rightarrow> nat" where
  "count_if p xs = length (filter p xs)"

definition total_usage :: "call_record list \<Rightarrow> call_usage" where
  "total_usage rs = fold (\<lambda>r acc. add_usage acc (the (cr_usage r))) (filter usage_known rs) ZERO_USAGE"

definition summary_of :: "call_record list \<Rightarrow> journal_gap option \<Rightarrow> call_summary" where
  "summary_of rs gap =
     \<lparr>cs_calls = count_if counted rs,
      cs_preparationCalls = count_if (\<lambda>r. counted r \<and> cr_purpose r = Preparation) rs,
      cs_compactionCalls = count_if (\<lambda>r. counted r \<and> cr_purpose r \<noteq> Preparation) rs,
      cs_unsettled = count_if (\<lambda>r. \<not> cr_settled r) rs,
      cs_unknownUsage = count_if (\<lambda>r. counted r \<and> cr_settled r \<and> cr_usage r = None) rs,
      cs_partialUsage = count_if (\<lambda>r. usage_known r \<and> cr_complete r \<noteq> Some True) rs,
      cs_usage = total_usage rs, cs_gap = gap\<rparr>"

lemma count_if_snoc [simp]: "count_if p (xs @ [x]) = count_if p xs + (if p x then 1 else 0)"
  by (simp add: count_if_def)

lemma total_usage_snoc:
  "total_usage (rs @ [r]) = (if usage_known r then add_usage (total_usage rs) (the (cr_usage r)) else total_usage rs)"
  by (simp add: total_usage_def)

lemma summarizeCalls_eq: "summarizeCalls rs gap = summary_of rs gap"
proof (induction rs rule: rev_induct)
  case Nil
  then show ?case by (simp add: summarizeCalls_def summary_of_def count_if_def total_usage_def)
next
  case (snoc r rs)
  have "summarizeCalls (rs @ [r]) gap = summary_step r (summarizeCalls rs gap)" by (simp add: summarizeCalls_def)
  then show ?case unfolding snoc
    by (simp add: summary_step_def summary_of_def total_usage_snoc counted_def usage_known_def Let_def split: option.split)
qed

lemma add_usage_comm: "add_usage (add_usage a b) c = add_usage (add_usage a c) b"
  by (simp add: add_usage_def)

lemma total_usage_mset: "mset rs = mset qs \<Longrightarrow> total_usage rs = total_usage qs"
proof -
  assume "mset rs = mset qs"
  then have "mset (filter usage_known rs) = mset (filter usage_known qs)" by simp
  then show ?thesis unfolding total_usage_def
    by (intro fold_multiset_equiv[THEN fun_cong]) (auto simp: fun_eq_iff add_usage_comm)
qed

lemma count_if_mset: "mset rs = mset qs \<Longrightarrow> count_if p rs = count_if p qs"
  unfolding count_if_def by (metis mset_filter size_mset)

lemma count_if_split:
  "(\<And>x. x \<in> set xs \<Longrightarrow> p x \<longleftrightarrow> q x \<or> r x) \<Longrightarrow> (\<And>x. x \<in> set xs \<Longrightarrow> \<not> (q x \<and> r x)) \<Longrightarrow>
   count_if p xs = count_if q xs + count_if r xs"
  by (induction xs) (auto simp: count_if_def)

section \<open>Properties\<close>

text \<open>
  Unknown is never free. In every summary each counted call is a preparation or a compaction call,
  and is unsettled, of unknown usage or of known usage; the usage is the sum over the calls of known
  usage alone; and the order of the records does not matter.
\<close>

theorem summarizeCalls_accounts:
  assumes "mset rs = mset qs"
  shows "summarizeCalls rs gap = summarizeCalls qs gap \<and>
    (let s = summarizeCalls rs gap in
       cs_calls s = cs_preparationCalls s + cs_compactionCalls s \<and>
       cs_calls s = cs_unsettled s + cs_unknownUsage s + count_if usage_known rs \<and>
       cs_partialUsage s \<le> count_if usage_known rs \<and>
       cs_usage s = total_usage rs)"
proof -
  have "count_if counted rs = count_if (\<lambda>r. counted r \<and> cr_purpose r = Preparation) rs
      + count_if (\<lambda>r. counted r \<and> cr_purpose r \<noteq> Preparation) rs"
    by (rule count_if_split) auto
  moreover have "count_if counted rs = count_if (\<lambda>r. \<not> cr_settled r) rs + count_if (\<lambda>r. counted r \<and> cr_settled r) rs"
    by (rule count_if_split) (auto simp: counted_def)
  moreover have "count_if (\<lambda>r. counted r \<and> cr_settled r) rs
      = count_if (\<lambda>r. counted r \<and> cr_settled r \<and> cr_usage r = None) rs + count_if usage_known rs"
    by (rule count_if_split) (auto simp: usage_known_def)
  moreover have "count_if (\<lambda>r. usage_known r \<and> cr_complete r \<noteq> Some True) rs \<le> count_if usage_known rs"
    using length_filter_le[of "\<lambda>r. cr_complete r \<noteq> Some True" "filter usage_known rs"]
    by (simp add: count_if_def conj_commute)
  moreover have "summary_of rs gap = summary_of qs gap"
    unfolding summary_of_def using assms by (simp add: count_if_mset[OF assms] total_usage_mset[OF assms])
  ultimately show ?thesis by (simp add: summarizeCalls_eq) (simp add: summary_of_def)
qed

definition sample_calls :: "call_record list" where
  "sample_calls =
     [\<lparr>cr_purpose = Preparation, cr_interval = js ''none'', cr_settled = False, cr_dispatched = None,
        cr_usage = None, cr_complete = None\<rparr>,
      \<lparr>cr_purpose = Compaction_call, cr_interval = js ''none'', cr_settled = True, cr_dispatched = Some True,
        cr_usage = Some (ZERO_USAGE\<lparr>u_input := 7\<rparr>), cr_complete = Some True\<rparr>]"

theorem summarizeCalls_accounts_witness:
  "summarizeCalls sample_calls None = summarizeCalls (rev sample_calls) None \<and>
   cs_unsettled (summarizeCalls sample_calls None) = 1 \<and> u_input (cs_usage (summarizeCalls sample_calls None)) = 7"
proof -
  have "cs_unsettled (summarizeCalls sample_calls None) = 1" "u_input (cs_usage (summarizeCalls sample_calls None)) = 7"
    by code_simp+
  with summarizeCalls_accounts[of sample_calls "rev sample_calls" None] show ?thesis by simp
qed

end
