(* ===== verification/Cuts.thy ===== *)
theory Cuts
  imports Records
begin

text \<open>
  \<^bold>\<open>cuts.ts\<close>: where a compaction may cut the branch. The projection lists the messages each record
  contributes to the model's context; \<open>estimate\<close> is the host's token estimate of a message.
\<close>

definition projected_messages :: "'m projection \<Rightarrow> jstring \<Rightarrow> 'm list" where
  "projected_messages pr i =
     (case map_last (map (\<lambda>e. (sourceEntry e, p_messages e)) pr) i of None \<Rightarrow> [] | Some ms \<Rightarrow> ms)"

text \<open>The turn starts: user messages in context after the previous checkpoint.\<close>

definition turn_starts :: "session_record list \<Rightarrow> 'm projection \<Rightarrow> nat list" where
  "turn_starts branch pr =
     concat (map (\<lambda>(index, entry).
         if (case find_last_index is_compaction branch of None \<Rightarrow> True | Some previous \<Rightarrow> index > previous)
           \<and> is_user entry \<and> projected_messages pr (r_id entry) \<noteq> []
         then [index] else []) (indexed branch))"

definition record_tokens :: "'m projection \<Rightarrow> ('m \<Rightarrow> int) \<Rightarrow> session_record \<Rightarrow> int" where
  "record_tokens pr estimate r = fold (\<lambda>m sum. sum + estimate m) (projected_messages pr (r_id r)) 0"

text \<open>The loop from the newest record; \<open>n\<close> records remain below.\<close>

fun choose_loop :: "session_record list \<Rightarrow> int \<Rightarrow> 'm projection \<Rightarrow> ('m \<Rightarrow> int) \<Rightarrow> nat list \<Rightarrow> int \<Rightarrow> nat \<Rightarrow> nat" where
  "choose_loop branch keep pr estimate starts accumulated 0 = last starts"
| "choose_loop branch keep pr estimate starts accumulated (Suc index) =
     (if is_compaction (branch ! index) then choose_loop branch keep pr estimate starts accumulated index
      else let accumulated' = accumulated + record_tokens pr estimate (branch ! index) in
        if accumulated' \<ge> keep
        then (case find (\<lambda>start. start \<ge> index) starts of Some start \<Rightarrow> start | None \<Rightarrow> last starts)
        else choose_loop branch keep pr estimate starts accumulated' index)"

definition chooseCut :: "session_record list \<Rightarrow> int \<Rightarrow> 'm projection \<Rightarrow> ('m \<Rightarrow> int) \<Rightarrow> nat res" where
  "chooseCut branch keep pr estimate =
     (if keep \<le> 0 then Inr (length branch)
      else let starts = turn_starts branch pr in
        if starts = [] then throw CONTEXT_NO_CUT ''CONTEXT_NO_CUT: no source turn is available''
        else Inr (choose_loop branch keep pr estimate starts 0 (length branch)))"

text \<open>The loop of \<open>prefixCut\<close>: indices \<open>n - 1\<close> down to the one after the previous checkpoint.\<close>

fun prefix_loop_cut :: "session_record list \<Rightarrow> 'm projection \<Rightarrow> nat \<Rightarrow> nat \<Rightarrow> nat option" where
  "prefix_loop_cut branch pr low 0 = None"
| "prefix_loop_cut branch pr low (Suc index) =
     (if index < low then None
      else if index < length branch \<and> is_user (branch ! index)
              \<and> list_ex (\<lambda>e. p_messages e \<noteq> [] \<and> sourceEntry e = r_id (branch ! index)) pr
      then Some index else prefix_loop_cut branch pr low index)"

definition prefixCut :: "session_record list \<Rightarrow> 'm projection \<Rightarrow> int \<Rightarrow> int \<Rightarrow> nat option" where
  "prefixCut branch pr coveredIndex c =
     (let low = (case find_last_index is_compaction branch of None \<Rightarrow> 0 | Some previous \<Rightarrow> Suc previous)
      in prefix_loop_cut branch pr low (nat (min c (coveredIndex + 1) + 1)))"

definition checkpointInterval :: "session_record list \<Rightarrow> jstring" where
  "checkpointInterval branch =
     (case find_last_index is_compaction branch of None \<Rightarrow> js ''none'' | Some i \<Rightarrow> r_id (branch ! i))"

section \<open>What the cuts guarantee\<close>

definition after_checkpoint :: "session_record list \<Rightarrow> nat \<Rightarrow> bool" where
  "after_checkpoint branch i =
     (case find_last_index is_compaction branch of None \<Rightarrow> True | Some previous \<Rightarrow> i > previous)"

lemma turn_starts_filter:
  "turn_starts branch pr = filter (\<lambda>i. after_checkpoint branch i \<and> is_user (branch ! i)
      \<and> projected_messages pr (r_id (branch ! i)) \<noteq> []) [0..<length branch]"
proof -
  have "concat (map (\<lambda>(i, x). if P i x then [i] else []) (zip [k..<k + length xs] xs))
      = filter (\<lambda>i. P i (xs ! (i - k))) [k..<k + length xs]" for P and xs :: "session_record list" and k
  proof (induction xs arbitrary: k)
    case (Cons x xs)
    have "filter (\<lambda>i. P i (xs ! (i - Suc k))) [Suc k..<Suc k + length xs]
        = filter (\<lambda>i. P i ((x # xs) ! (i - k))) [Suc k..<Suc k + length xs]"
      by (rule filter_cong) (auto simp: Suc_diff_le nth_Cons' Suc_le_eq)
    then show ?case using Cons.IH[of "Suc k"] by (simp add: upt_conv_Cons del: upt_Suc)
  qed simp
  from this[where k = 0 and xs = branch and P = "\<lambda>index entry.
      (case find_last_index is_compaction branch of None \<Rightarrow> True | Some previous \<Rightarrow> index > previous)
           \<and> is_user entry \<and> projected_messages pr (r_id entry) \<noteq> []"]
  show ?thesis by (simp add: turn_starts_def indexed_def after_checkpoint_def)
qed

lemma turn_starts_set:
  "i \<in> set (turn_starts branch pr) \<longleftrightarrow> i < length branch \<and> after_checkpoint branch i \<and> is_user (branch ! i)
     \<and> projected_messages pr (r_id (branch ! i)) \<noteq> []"
  by (auto simp: turn_starts_filter)

lemma sorted_turn_starts: "sorted (turn_starts branch pr)"
  by (simp add: turn_starts_filter sorted_wrt_filter)

text \<open>The tokens of the records from an index on, checkpoints not counted.\<close>

definition tail_tokens :: "session_record list \<Rightarrow> 'm projection \<Rightarrow> ('m \<Rightarrow> int) \<Rightarrow> nat \<Rightarrow> int" where
  "tail_tokens branch pr estimate i =
     sum_list (map (record_tokens pr estimate) (filter (\<lambda>r. \<not> is_compaction r) (drop i branch)))"

lemma tail_tokens_step:
  "i < length branch \<Longrightarrow> tail_tokens branch pr estimate i =
     (if is_compaction (branch ! i) then 0 else record_tokens pr estimate (branch ! i)) + tail_tokens branch pr estimate (Suc i)"
  by (simp add: tail_tokens_def Cons_nth_drop_Suc[symmetric])

lemma record_tokens_nonneg: "\<forall>m. 0 \<le> estimate m \<Longrightarrow> 0 \<le> record_tokens pr estimate r"
proof -
  assume e: "\<forall>m. 0 \<le> estimate m"
  have "0 \<le> a \<Longrightarrow> 0 \<le> fold (\<lambda>m sum. sum + estimate m) ms a" for ms a
    by (induction ms arbitrary: a) (use e in auto)
  then show ?thesis by (simp add: record_tokens_def)
qed

lemma tail_tokens_mono:
  assumes "\<forall>m. 0 \<le> estimate m" and "i \<le> j"
  shows "tail_tokens branch pr estimate j \<le> tail_tokens branch pr estimate i"
  using \<open>i \<le> j\<close>
proof (induction rule: dec_induct)
  case (step n)
  have "tail_tokens branch pr estimate (Suc n) \<le> tail_tokens branch pr estimate n"
  proof (cases "n < length branch")
    case True
    then show ?thesis using record_tokens_nonneg[OF assms(1)] by (simp add: tail_tokens_step)
  qed (simp add: tail_tokens_def)
  with step.IH show ?case by simp
qed simp

lemma choose_loop_spec:
  assumes "\<forall>m. 0 \<le> estimate m" and "starts \<noteq> []" and "sorted starts"
    and "n \<le> length branch" and "tail_tokens branch pr estimate n < keep"
  shows "let k = choose_loop branch keep pr estimate starts (tail_tokens branch pr estimate n) n in
    k \<in> set starts \<and> (\<forall>s \<in> set starts. s < k \<longrightarrow> k \<noteq> last starts \<longrightarrow> keep \<le> tail_tokens branch pr estimate s) \<and>
    (k = last starts \<or> tail_tokens branch pr estimate (Suc k) < keep)"
  using assms(4,5)
proof (induction n)
  case 0
  then show ?case using assms(2) by (simp add: Let_def)
next
  case (Suc n)
  show ?case
  proof (cases "is_compaction (branch ! n) \<or> tail_tokens branch pr estimate n < keep")
    case True
    then have "tail_tokens branch pr estimate n < keep" using Suc.prems tail_tokens_step[of n branch pr estimate] by auto
    with Suc.IH Suc.prems(1) have *: "let k = choose_loop branch keep pr estimate starts (tail_tokens branch pr estimate n) n in
      k \<in> set starts \<and> (\<forall>s \<in> set starts. s < k \<longrightarrow> k \<noteq> last starts \<longrightarrow> keep \<le> tail_tokens branch pr estimate s) \<and>
      (k = last starts \<or> tail_tokens branch pr estimate (Suc k) < keep)" by simp
    have "choose_loop branch keep pr estimate starts (tail_tokens branch pr estimate (Suc n)) (Suc n)
        = choose_loop branch keep pr estimate starts (tail_tokens branch pr estimate n) n"
      using True tail_tokens_step[of n branch pr estimate] Suc.prems(1) by (auto simp: add.commute)
    with * show ?thesis by (simp only:)
  next
    case False
    then have c: "choose_loop branch keep pr estimate starts (tail_tokens branch pr estimate (Suc n)) (Suc n)
        = (case find (\<lambda>start. start \<ge> n) starts of Some start \<Rightarrow> start | None \<Rightarrow> last starts)"
      using tail_tokens_step[of n branch pr estimate] Suc.prems(1) by (auto simp: add.commute)
    show ?thesis
    proof (cases "find (\<lambda>start. start \<ge> n) starts")
      case None
      then show ?thesis using c assms(2) by (simp add: Let_def)
    next
      case (Some k)
      then have k: "k \<in> set starts" "n \<le> k" by (auto simp: find_Some_iff)
      have "keep \<le> tail_tokens branch pr estimate s" if s: "s \<in> set starts" "s < k" for s
      proof -
        have "s < n"
        proof (rule ccontr)
          assume "\<not> s < n"
          obtain i where i: "i < length starts" "starts ! i = k" "\<forall>j < i. \<not> starts ! j \<ge> n"
            using Some by (auto simp: find_Some_iff)
          obtain j where j: "j < length starts" "starts ! j = s" using s(1) by (auto simp: in_set_conv_nth)
          have "j < i" using i j s(2) assms(3) by (metis leD le_less_linear sorted_nth_mono)
          with i(3) j \<open>\<not> s < n\<close> show False by auto
        qed
        then show ?thesis using False tail_tokens_mono[OF assms(1), of s n branch pr] by simp
      qed
      moreover have "tail_tokens branch pr estimate (Suc k) < keep"
        using tail_tokens_mono[OF assms(1), of "Suc n" "Suc k" branch pr] k(2) Suc.prems(2) by simp
      ultimately show ?thesis using c Some k by (simp add: Let_def)
    qed
  qed
qed


lemma prefix_loop_cut_Some:
  "prefix_loop_cut branch pr low n = Some k \<longleftrightarrow>
     k < n \<and> low \<le> k \<and> k < length branch \<and> is_user (branch ! k)
       \<and> list_ex (\<lambda>e. p_messages e \<noteq> [] \<and> sourceEntry e = r_id (branch ! k)) pr
       \<and> (\<forall>j. k < j \<longrightarrow> j < n \<longrightarrow> j < length branch \<longrightarrow> is_user (branch ! j) \<longrightarrow>
           \<not> list_ex (\<lambda>e. p_messages e \<noteq> [] \<and> sourceEntry e = r_id (branch ! j)) pr)"
proof (induction n)
  case (Suc n)
  show ?case
  proof (cases "n < low")
    case True
    then show ?thesis by auto
  next
    case False
    then show ?thesis using Suc by (auto simp: less_Suc_eq)
  qed
qed simp

section \<open>Properties\<close>

text \<open>
  The cut keeps complete recent turns within the budget. With a positive budget and nonnegative
  estimates, \<open>chooseCut\<close> returns the index of a user message that is in context and follows the latest
  checkpoint. Unless it is the latest such turn start, what follows the cut message stays below the
  budget, and every earlier turn start would keep at least the budget.
\<close>

theorem chooseCut_keeps_recent_turns:
  assumes "chooseCut branch keep pr estimate = Inr k" and "0 < keep" and "\<forall>m. 0 \<le> estimate m"
  shows "k < length branch \<and> is_user (branch ! k) \<and> after_checkpoint branch k \<and>
    projected_messages pr (r_id (branch ! k)) \<noteq> [] \<and>
    (k = last (turn_starts branch pr) \<or>
      tail_tokens branch pr estimate (Suc k) < keep \<and>
      (\<forall>s \<in> set (turn_starts branch pr). s < k \<longrightarrow> keep \<le> tail_tokens branch pr estimate s))"
proof -
  have ne: "turn_starts branch pr \<noteq> []" and k: "k = choose_loop branch keep pr estimate (turn_starts branch pr) 0 (length branch)"
    using assms(1,2) by (auto simp: chooseCut_def Let_def split: if_splits)
  have "tail_tokens branch pr estimate (length branch) = 0" by (simp add: tail_tokens_def)
  with choose_loop_spec[OF assms(3) ne sorted_turn_starts order_refl] assms(2) k
  have "k \<in> set (turn_starts branch pr) \<and>
      (\<forall>s \<in> set (turn_starts branch pr). s < k \<longrightarrow> k \<noteq> last (turn_starts branch pr) \<longrightarrow> keep \<le> tail_tokens branch pr estimate s) \<and>
      (k = last (turn_starts branch pr) \<or> tail_tokens branch pr estimate (Suc k) < keep)"
    by (metis (no_types, lifting))
  then show ?thesis unfolding turn_starts_set by blast
qed

definition sample_turns :: "session_record list" where
  "sample_turns = [text_record ''u1'' ''user'' ''a'', text_record ''a1'' ''assistant'' ''b'',
     text_record ''u2'' ''user'' ''c'', text_record ''a2'' ''assistant'' ''d'']"

definition sample_projection :: "jstring projection" where
  "sample_projection = map (\<lambda>r. \<lparr>sourceEntry = r_id r, p_messages = [sourceText r]\<rparr>) sample_turns"

theorem chooseCut_keeps_recent_turns_witness:
  "chooseCut sample_turns 3 sample_projection (\<lambda>m. int (length m)) = Inr 2 \<and> is_user (sample_turns ! 2)"
proof -
  have "chooseCut sample_turns 3 sample_projection (\<lambda>m. int (length m)) = Inr 2"
    by code_simp
  from chooseCut_keeps_recent_turns[OF this] this show ?thesis by simp
qed

text \<open>
  A prefix cut releases covered originals only. \<open>prefixCut\<close> returns the greatest index up to the given
  cut and the one after the covered original that holds a user message in context and follows the
  latest checkpoint; it returns nothing exactly when there is none.
\<close>

theorem prefixCut_greatest:
  "prefixCut branch pr covered c = Some k \<longleftrightarrow>
     int k \<le> min c (covered + 1) \<and> k < length branch \<and> is_user (branch ! k) \<and> after_checkpoint branch k \<and>
     list_ex (\<lambda>e. p_messages e \<noteq> [] \<and> sourceEntry e = r_id (branch ! k)) pr \<and>
     \<not> (\<exists>j > k. int j \<le> min c (covered + 1) \<and> j < length branch \<and> is_user (branch ! j) \<and>
         list_ex (\<lambda>e. p_messages e \<noteq> [] \<and> sourceEntry e = r_id (branch ! j)) pr)"
proof -
  have n: "j < nat (min c (covered + 1) + 1) \<longleftrightarrow> int j \<le> min c (covered + 1)" for j by linarith
  show ?thesis
    unfolding prefixCut_def Let_def prefix_loop_cut_Some n
    by (cases "find_last_index is_compaction branch") (auto simp: after_checkpoint_def Suc_le_eq)
qed

end
