(* ===== verification/Reduction.thy ===== *)
theory Reduction
  imports Notes
begin

text \<open>
  \<^bold>\<open>reduction.ts\<close>: which tool results a projection may replace by one line, and the replacement.
  Records are the session records; a message's \<open>content\<close> is read as the JSON value it is. \<open>date\<close> is
  \<open>Date.parse\<close> in milliseconds, \<open>None\<close> for NaN. A projected message keeps the host's other fields
  in \<open>rm_rest\<close>.
\<close>

section \<open>Reading records\<close>

definition DEFAULT_CACHE_LIFETIME_MS :: rat where "DEFAULT_CACHE_LIFETIME_MS = 3600000"
definition REDUCTION_SUFFIX_RATIO :: int where "REDUCTION_SUFFIX_RATIO = 1"
definition REDUCTION_HEAD_CHARS :: nat where "REDUCTION_HEAD_CHARS = 120"

definition TARGET_KEYS :: "string list" where
  "TARGET_KEYS = [''path'', ''file_path'', ''filePath'', ''file'', ''entryId'', ''url'', ''uri'']"

definition EXCLUDED_TOOLS :: "jstring list" where
  "EXCLUDED_TOOLS = [js ''context_note'']"

definition reductionTokens :: "jstring \<Rightarrow> nat" where
  "reductionTokens s = (length s + 3) div 4"

fun text_block_list :: "jsval list \<Rightarrow> jstring list option" where
  "text_block_list [] = Some []"
| "text_block_list (b # bs) =
     (case jfield b ''text'' of
        JStr t \<Rightarrow> if isRecord b \<and> jfield b ''type'' = JStr (js ''text'')
                  then map_option ((#) t) (text_block_list bs) else None
      | _ \<Rightarrow> None)"

definition textBlocks :: "jsval \<Rightarrow> jstring list option" where
  "textBlocks content = (case content of JArr bs \<Rightarrow> text_block_list bs | _ \<Rightarrow> None)"

definition visible_block :: "jsval \<Rightarrow> jstring" where
  "visible_block b = (case (isRecord b, jfield b ''text'') of
     (True, JStr t) \<Rightarrow> t | _ \<Rightarrow> (case stringify_opt b of Some t \<Rightarrow> t | None \<Rightarrow> []))"

definition recordText :: "session_record \<Rightarrow> jstring" where
  "recordText r = (case r_body r of
       Message m \<Rightarrow> (case m_content m of Some (Plain s) \<Rightarrow> s
                   | Some (Blocks bs) \<Rightarrow> join newline (map visible_block bs) | None \<Rightarrow> [])
     | Compaction c \<Rightarrow> c_summary c
     | BranchSummary s \<Rightarrow> s
     | _ \<Rightarrow> [])"

fun first_target :: "jsval \<Rightarrow> string list \<Rightarrow> jstring" where
  "first_target args [] = []"
| "first_target args (k # ks) = (case jfield args k of JStr (u # s) \<Rightarrow> u # s | _ \<Rightarrow> first_target args ks)"

definition callTarget :: "jsval \<Rightarrow> jstring" where
  "callTarget args = (if isRecord args then first_target args TARGET_KEYS else [])"

definition oneLine :: "jstring \<Rightarrow> jstring" where
  "oneLine s = trim (collapse is_space 0x20 s)"

definition reductionLine :: "jstring \<Rightarrow> jstring \<Rightarrow> jstring \<Rightarrow> jstring \<Rightarrow> jstring" where
  "reductionLine tool target hd_line recordId =
     (let shown = take REDUCTION_HEAD_CHARS (oneLine target);
          shownTarget = (if shown = [] then js ''(no target)'' else shown);
          shownHead = take REDUCTION_HEAD_CHARS (oneLine hd_line)
      in js ''[reduced tool result] '' @ tool @ js '' '' @ shownTarget @ js '' => '' @ shownHead
         @ js '' | entry '' @ recordId @ js ''; context_history reads this entry back in full'')"

text \<open>\<open>text.split(/\r?\n/, 1)[0]\<close>.\<close>

fun first_line :: "jstring \<Rightarrow> jstring" where
  "first_line [] = []"
| "first_line (u # s) =
     (if u = 0x0a \<or> u = 0x0d \<and> s \<noteq> [] \<and> hd s = 0x0a then [] else u # first_line s)"

text \<open>The declared tiers, in seconds; a tier that is not a positive finite number is \<open>None\<close> or not positive.\<close>

definition declaredCacheLifetimeMs :: "rat option \<Rightarrow> rat option \<Rightarrow> rat option" where
  "declaredCacheLifetimeMs short_tier long_tier =
     (let declared = filter (\<lambda>v. v > 0) (concat (map (\<lambda>v. case v of Some x \<Rightarrow> [x] | None \<Rightarrow> []) [short_tier, long_tier]))
      in if declared = [] then None else Some (fold max (tl declared) (hd declared) * 1000))"

section \<open>Protected evidence\<close>

definition sole_sources :: "jsval \<Rightarrow> jstring list" where
  "sole_sources v =
     (if \<not> isRecord v then []
      else concat (map (\<lambda>section. concat (map (\<lambda>item.
        (case (isRecord item, jfield item ''sources'') of (True, JArr [JStr s]) \<Rightarrow> [s] | _ \<Rightarrow> [])) (arr_of section)))
        (case v of JObj ps \<Rightarrow> map snd ps | _ \<Rightarrow> [])))"

definition cited_alone :: "session_record \<Rightarrow> jstring list" where
  "cited_alone r = (case r_body r of
       Compaction c \<Rightarrow>
         (if isRecord (c_details c) \<and> jfield (c_details c) ''kind'' = JStr CONTEXT_MEMORY_KIND
          then sole_sources (jfield (c_details c) ''note'') else [])
     | Custom t d \<Rightarrow> (if t = CONTEXT_NOTE_TYPE then sole_sources d else [])
     | _ \<Rightarrow> [])"

text \<open>The map from an id to the first record index that cites it alone.\<close>

definition soleEvidenceFrom :: "session_record list \<Rightarrow> jstring \<Rightarrow> nat option" where
  "soleEvidenceFrom rs = fold (\<lambda>(index, r) m.
      fold (\<lambda>s m'. if m' s = None then m'(s \<mapsto> index) else m') (cited_alone r) m) (indexed rs) Map.empty"

section \<open>The reduced view\<close>

record call_info =
  ci_name :: jstring
  ci_target :: jstring

record reduced_entry =
  re_recordId :: jstring
  re_toolCallId :: jstring
  re_line :: jstring
  re_tokensRemoved :: nat

record reduction_scan =
  rs_stops :: "nat list"
  rs_calls :: "jstring \<Rightarrow> call_info option"
  rs_results :: "jstring \<Rightarrow> nat list"

definition tool_calls :: "message \<Rightarrow> (jstring \<times> call_info) list" where
  "tool_calls m = (case m_content m of
       Some (Blocks bs) \<Rightarrow> concat (map (\<lambda>b.
         (case (isRecord b, jfield b ''type'' = JStr (js ''toolCall''), jfield b ''id'', jfield b ''name'') of
            (True, True, JStr i, JStr n) \<Rightarrow> [(i, \<lparr>ci_name = n, ci_target = callTarget (jfield b ''arguments'')\<rparr>)]
          | _ \<Rightarrow> [])) bs)
     | _ \<Rightarrow> [])"

definition target_key :: "call_info \<Rightarrow> jstring" where
  "target_key c = ci_name c @ newline @ ci_target c"

definition content_of :: "message \<Rightarrow> jsval" where
  "content_of m = opt_content (m_content m)"

definition reduction_step :: "nat \<times> session_record \<Rightarrow> reduction_scan \<Rightarrow> reduction_scan" where
  "reduction_step p st = (case r_body (snd p) of
       Message m \<Rightarrow>
         if m_role m = js ''assistant'' then
           st\<lparr>rs_stops := (if m_stopReason m = Some (js ''stop'') then rs_stops st @ [fst p] else rs_stops st),
              rs_calls := fold (\<lambda>(i, c) calls. calls(i \<mapsto> c)) (tool_calls m) (rs_calls st)\<rparr>
         else if m_role m = js ''toolResult'' \<and> m_toolCallId m \<noteq> None \<and> m_isError m \<noteq> Some True then
           (case rs_calls st (the (m_toolCallId m)) of
              None \<Rightarrow> st
            | Some c \<Rightarrow>
                if ci_target c \<noteq> [] \<and> textBlocks (content_of m) \<noteq> None
                then st\<lparr>rs_results := (rs_results st)(target_key c := rs_results st (target_key c) @ [fst p])\<rparr>
                else st)
         else st
     | _ \<Rightarrow> st)"

definition reduction_scan_of :: "session_record list \<Rightarrow> reduction_scan" where
  "reduction_scan_of rs = fold reduction_step (indexed rs)
     \<lparr>rs_stops = [], rs_calls = Map.empty, rs_results = (\<lambda>_. [])\<rparr>"

definition prefix_tokens :: "session_record list \<Rightarrow> nat \<Rightarrow> nat" where
  "prefix_tokens rs n = sum_list (map (\<lambda>r. reductionTokens (recordText r)) (take n rs))"

definition min_defined :: "nat option \<Rightarrow> nat option \<Rightarrow> nat option" where
  "min_defined a b = (case (a, b) of (None, y) \<Rightarrow> y | (x, None) \<Rightarrow> x | (Some x, Some y) \<Rightarrow> Some (min x y))"

text \<open>The earliest record index at which the result at \<open>index\<close> is superseded or consumed, if any.\<close>

definition eligible_at :: "reduction_scan \<Rightarrow> nat \<Rightarrow> call_info \<Rightarrow> nat option" where
  "eligible_at st index c =
     (case find_index (\<lambda>stop. stop > index) (rs_stops st) of
        None \<Rightarrow> None
      | Some stopAt \<Rightarrow>
          let consumedAt = nth_opt (rs_stops st) (stopAt + 1);
              siblings = (if ci_target c \<noteq> [] then rs_results st (target_key c) else []);
              supersededAt = map_option (\<lambda>laterRead. max laterRead (rs_stops st ! stopAt)) (find (\<lambda>k. k > index) siblings)
          in min_defined consumedAt supersededAt)"

definition idle_gap :: "(jstring \<Rightarrow> int option) \<Rightarrow> rat \<Rightarrow> session_record list \<Rightarrow> nat \<Rightarrow> bool" where
  "idle_gap date lifetime rs index =
     (case nth_opt rs (index + 1) of None \<Rightarrow> False
      | Some r \<Rightarrow> (case (date (r_time r), date (r_time (rs ! index))) of
            (Some b, Some a) \<Rightarrow> of_int (b - a) > lifetime | _ \<Rightarrow> False))"

definition reduced_entry_at ::
    "(jstring \<Rightarrow> int option) \<Rightarrow> rat \<Rightarrow> session_record list \<Rightarrow> reduction_scan \<Rightarrow> nat \<Rightarrow> reduced_entry option" where
  "reduced_entry_at date lifetime rs st index =
     (let r = rs ! index in
      case r_body r of
        Message m \<Rightarrow>
          if m_role m \<noteq> js ''toolResult'' \<or> m_toolCallId m = None \<or> m_isError m = Some True then None
          else (case (rs_calls st (the (m_toolCallId m)), textBlocks (content_of m)) of
              (Some c, Some texts) \<Rightarrow>
                let resultText = join newline texts in
                if ci_name c \<in> set EXCLUDED_TOOLS \<or> resultText = [] then None
                else (case eligible_at st index c of
                    None \<Rightarrow> None
                  | Some eligibleAt \<Rightarrow>
                      if (case soleEvidenceFrom rs (r_id r) of None \<Rightarrow> False | Some citedFrom \<Rightarrow> citedFrom \<le> eligibleAt) then None
                      else
                        let line = reductionLine (ci_name c) (ci_target c) (first_line resultText) (r_id r);
                            removed = int (reductionTokens resultText) - int (reductionTokens line);
                            suffixTokens = int (prefix_tokens rs (eligibleAt + 1)) - int (prefix_tokens rs (index + 1))
                        in if removed \<le> 0 then None
                           else if suffixTokens > removed * REDUCTION_SUFFIX_RATIO \<and> \<not> idle_gap date lifetime rs index then None
                           else Some \<lparr>re_recordId = r_id r, re_toolCallId = the (m_toolCallId m), re_line = line,
                                      re_tokensRemoved = nat removed\<rparr>)
            | _ \<Rightarrow> None)
      | _ \<Rightarrow> None)"

record reduction_view =
  rv_entries :: "reduced_entry list"
  rv_tokensRemoved :: nat

definition reduceRecords :: "(jstring \<Rightarrow> int option) \<Rightarrow> session_record list \<Rightarrow> rat option \<Rightarrow> reduction_view" where
  "reduceRecords date rs cacheLifetimeMs =
     (let lifetime = (case cacheLifetimeMs of None \<Rightarrow> DEFAULT_CACHE_LIFETIME_MS | Some x \<Rightarrow> x);
          st = reduction_scan_of rs;
          entries = concat (map (\<lambda>i. case reduced_entry_at date lifetime rs st i of None \<Rightarrow> [] | Some e \<Rightarrow> [e])
            [0..<length rs])
      in \<lparr>rv_entries = entries, rv_tokensRemoved = sum_list (map re_tokensRemoved entries)\<rparr>)"

section \<open>Applying a view\<close>

record 'a reducible_message =
  rm_role :: jstring
  rm_toolCallId :: "jstring option"
  rm_content :: jsval
  rm_rest :: 'a

definition applyReduction :: "'a reducible_message list \<Rightarrow> reduction_view \<Rightarrow> 'a reducible_message list" where
  "applyReduction ms view =
     (if rv_entries view = [] then ms
      else
        let line_of = map_last (map (\<lambda>e. (re_toolCallId e, re_line e)) (rv_entries view)) in
        map (\<lambda>m. case (if rm_role m = js ''toolResult'' then
                          (case rm_toolCallId m of None \<Rightarrow> None | Some i \<Rightarrow> line_of i) else None) of
               None \<Rightarrow> m
             | Some line \<Rightarrow> m\<lparr>rm_content := JArr [obj [(''type'', JStr (js ''text'')), (''text'', JStr line)]]\<rparr>) ms)"


section \<open>Appending records\<close>

text \<open>The appended records do not call a tool under an id the branch already uses.\<close>

definition calls_of :: "session_record \<Rightarrow> jstring list" where
  "calls_of r = (case r_body r of Message m \<Rightarrow> if m_role m = js ''assistant'' then map fst (tool_calls m) else [] | _ \<Rightarrow> [])"

definition fresh_calls :: "session_record list \<Rightarrow> session_record list \<Rightarrow> bool" where
  "fresh_calls rs new \<longleftrightarrow>
     list_all (\<lambda>i. i \<notin> set (concat (map calls_of rs))) (concat (map calls_of new))"

definition steps_from :: "nat \<Rightarrow> session_record list \<Rightarrow> reduction_scan \<Rightarrow> reduction_scan" where
  "steps_from n rs st = fold reduction_step (zip [n..<n + length rs] rs) st"

lemma steps_from_Nil [simp]: "steps_from n [] st = st"
  by (simp add: steps_from_def)

lemma steps_from_Cons: "steps_from n (r # rs) st = steps_from (Suc n) rs (reduction_step (n, r) st)"
  by (simp add: steps_from_def upt_conv_Cons del: upt_Suc)

definition empty_scan :: reduction_scan where
  "empty_scan = \<lparr>rs_stops = [], rs_calls = Map.empty, rs_results = (\<lambda>_. [])\<rparr>"

lemma scan_steps: "reduction_scan_of rs = steps_from 0 rs empty_scan"
  by (simp add: reduction_scan_of_def steps_from_def empty_scan_def indexed_def)

lemma steps_from_append: "steps_from n (xs @ ys) st = steps_from (n + length xs) ys (steps_from n xs st)"
  by (induction xs arbitrary: n st) (simp_all add: steps_from_Cons)

lemma scan_append: "reduction_scan_of (rs @ new) = steps_from (length rs) new (reduction_scan_of rs)"
  by (simp add: scan_steps steps_from_append)

lemma reduction_step_stops: "\<exists>s2. rs_stops (reduction_step (n, r) st) = rs_stops st @ s2 \<and> set s2 \<subseteq> {n}"
  by (auto simp: reduction_step_def split: body.split option.split)

lemma reduction_step_results: "\<exists>s2. rs_results (reduction_step (n, r) st) k = rs_results st k @ s2 \<and> set s2 \<subseteq> {n}"
  by (auto simp: reduction_step_def split: body.split option.split)

lemma fold_calls_other: "i \<notin> fst ` set cs \<Longrightarrow> fold (\<lambda>(i, c) calls. calls(i \<mapsto> c)) cs f i = f i"
  by (induction cs arbitrary: f) auto

lemma reduction_step_calls: "i \<notin> set (calls_of r) \<Longrightarrow> rs_calls (reduction_step (n, r) st) i = rs_calls st i"
  by (auto simp: reduction_step_def calls_of_def fold_calls_other split: body.splits option.split)

lemma fold_calls_dom: "dom (fold (\<lambda>(i, c) calls. calls(i \<mapsto> c)) cs f) = dom f \<union> fst ` set cs"
  by (induction cs arbitrary: f) auto

lemma reduction_step_calls_dom: "dom (rs_calls (reduction_step (n, r) st)) \<subseteq> dom (rs_calls st) \<union> set (calls_of r)"
proof (cases "r_body r")
  case (Message m)
  show ?thesis
  proof (cases "m_role m = js ''assistant''")
    case True
    then show ?thesis using Message by (simp add: reduction_step_def calls_of_def fold_calls_dom)
  next
    case False
    then have "rs_calls (reduction_step (n, r) st) = rs_calls st"
      using Message by (simp add: reduction_step_def split: option.split)
    then show ?thesis by simp
  qed
qed (simp_all add: reduction_step_def)

lemma steps_stops: "\<exists>s2. rs_stops (steps_from n rs st) = rs_stops st @ s2 \<and> set s2 \<subseteq> {n..<n + length rs}"
proof (induction rs arbitrary: n st)
  case (Cons r rs)
  obtain a where a: "rs_stops (reduction_step (n, r) st) = rs_stops st @ a" "set a \<subseteq> {n}"
    using reduction_step_stops by blast
  obtain b where "rs_stops (steps_from (Suc n) rs (reduction_step (n, r) st)) = rs_stops (reduction_step (n, r) st) @ b"
      "set b \<subseteq> {Suc n..<Suc n + length rs}" using Cons.IH by blast
  with a show ?case by (intro exI[of _ "a @ b"]) (auto simp: steps_from_Cons)
qed simp

lemma steps_results: "\<exists>s2. rs_results (steps_from n rs st) k = rs_results st k @ s2 \<and> set s2 \<subseteq> {n..<n + length rs}"
proof (induction rs arbitrary: n st)
  case (Cons r rs)
  obtain a where a: "rs_results (reduction_step (n, r) st) k = rs_results st k @ a" "set a \<subseteq> {n}"
    using reduction_step_results by blast
  obtain b where "rs_results (steps_from (Suc n) rs (reduction_step (n, r) st)) k = rs_results (reduction_step (n, r) st) k @ b"
      "set b \<subseteq> {Suc n..<Suc n + length rs}" using Cons.IH by blast
  with a show ?case by (intro exI[of _ "a @ b"]) (auto simp: steps_from_Cons)
qed simp

lemma steps_calls: "i \<notin> set (concat (map calls_of rs)) \<Longrightarrow> rs_calls (steps_from n rs st) i = rs_calls st i"
  by (induction rs arbitrary: n st) (auto simp: steps_from_Cons reduction_step_calls)

lemma steps_calls_dom: "dom (rs_calls (steps_from n rs st)) \<subseteq> dom (rs_calls st) \<union> set (concat (map calls_of rs))"
proof (induction rs arbitrary: n st)
  case (Cons r rs)
  from Cons.IH[of "Suc n" "reduction_step (n, r) st"] reduction_step_calls_dom[of n r st]
  show ?case by (auto simp: steps_from_Cons)
qed simp

lemma scan_bounds:
  "set (rs_stops (reduction_scan_of rs)) \<subseteq> {..<length rs}"
  "set (rs_results (reduction_scan_of rs) k) \<subseteq> {..<length rs}"
  using steps_stops[of 0 rs empty_scan] steps_results[of 0 rs empty_scan k]
  by (auto simp: scan_steps empty_scan_def)

lemma scan_calls_append:
  assumes "fresh_calls rs new" and "rs_calls (reduction_scan_of rs) i = Some c"
  shows "rs_calls (reduction_scan_of (rs @ new)) i = Some c"
proof -
  have "i \<in> set (concat (map calls_of rs))"
    using steps_calls_dom[of 0 rs empty_scan] assms(2) by (auto simp: scan_steps empty_scan_def)
  then have "i \<notin> set (concat (map calls_of new))" using assms(1) by (auto simp: fresh_calls_def list_all_iff)
  from steps_calls[OF this] assms(2) show ?thesis by (simp add: scan_append)
qed

lemma find_index_append:
  "find_index p xs = Some i \<Longrightarrow> find_index p (xs @ ys) = Some i"
  by (induction xs arbitrary: i) auto

lemma find_append_Some: "find p xs = Some x \<Longrightarrow> find p (xs @ ys) = Some x"
  by (induction xs) (auto split: if_splits)

lemma min_defined_late:
  assumes "min_defined a b = Some k" and "k < n"
    and "a = a' \<or> a = None \<and> (\<forall>x. a' = Some x \<longrightarrow> n \<le> x)" and "b = b' \<or> b = None \<and> (\<forall>x. b' = Some x \<longrightarrow> n \<le> x)"
  shows "min_defined a' b' = Some k"
  using assms by (cases a; cases b; cases a'; cases b') (auto simp: min_defined_def)

lemma eligible_at_append:
  assumes "eligible_at (reduction_scan_of rs) index c = Some k"
  shows "eligible_at (reduction_scan_of (rs @ new)) index c = Some k \<and> k < length rs"
proof -
  let ?s = "reduction_scan_of rs" and ?t = "reduction_scan_of (rs @ new)"
  obtain s2 where s2: "rs_stops ?t = rs_stops ?s @ s2" "set s2 \<subseteq> {length rs..<length rs + length new}"
    using steps_stops[of "length rs" new ?s] by (auto simp: scan_append)
  obtain r2 where r2: "rs_results ?t (target_key c) = rs_results ?s (target_key c) @ r2"
      "set r2 \<subseteq> {length rs..<length rs + length new}"
    using steps_results[of "length rs" new ?s "target_key c"] by (auto simp: scan_append)
  obtain j where j: "find_index (\<lambda>stop. stop > index) (rs_stops ?s) = Some j"
    using assms by (auto simp: eligible_at_def split: option.splits)
  then have jl: "j < length (rs_stops ?s)" by (simp add: find_index_Some)
  let ?con = "nth_opt (rs_stops ?s) (j + 1)" and ?con' = "nth_opt (rs_stops ?t) (j + 1)"
  let ?sib = "\<lambda>st. if ci_target c \<noteq> [] then rs_results st (target_key c) else []"
  let ?sup = "\<lambda>st. map_option (\<lambda>laterRead. max laterRead (rs_stops st ! j)) (find (\<lambda>k. k > index) (?sib st))"
  have old: "min_defined ?con (?sup ?s) = Some k" using assms j by (simp add: eligible_at_def Let_def)
  have kl: "k < length rs"
  proof -
    have "\<And>x. ?con = Some x \<Longrightarrow> x < length rs"
      using scan_bounds(1)[of rs] by (auto simp: nth_opt_def split: if_splits dest: nth_mem)
    moreover have "\<And>x. ?sup ?s = Some x \<Longrightarrow> x < length rs"
    proof -
      fix x assume "?sup ?s = Some x"
      then obtain y where y: "find (\<lambda>k. k > index) (?sib ?s) = Some y" "x = max y (rs_stops ?s ! j)" by auto
      from y(1) have "y \<in> set (?sib ?s)" by (auto simp: find_Some_iff)
      then have "y < length rs" using scan_bounds(2)[of rs "target_key c"] by (auto split: if_splits)
      moreover have "rs_stops ?s ! j < length rs" using scan_bounds(1)[of rs] jl by (auto dest: nth_mem)
      ultimately show "x < length rs" using y(2) by simp
    qed
    ultimately show ?thesis using old
      by (cases ?con; cases "?sup ?s") (auto simp: min_defined_def)
  qed
  have con: "?con = ?con' \<or> ?con = None \<and> (\<forall>x. ?con' = Some x \<longrightarrow> length rs \<le> x)"
  proof (cases "j + 1 < length (rs_stops ?s)")
    case True
    then show ?thesis by (simp add: nth_opt_def s2 nth_append)
  next
    case False
    have "length rs \<le> x" if x: "?con' = Some x" for x
    proof -
      have "x \<in> set s2" using x False by (auto simp: nth_opt_def s2 nth_append split: if_splits)
      then show ?thesis using s2(2) by auto
    qed
    then show ?thesis using False by (simp add: nth_opt_def)
  qed
  have sup: "?sup ?s = ?sup ?t \<or> ?sup ?s = None \<and> (\<forall>x. ?sup ?t = Some x \<longrightarrow> length rs \<le> x)"
  proof (cases "ci_target c = [] \<or> find (\<lambda>k. k > index) (rs_results ?s (target_key c)) \<noteq> None")
    case True
    then show ?thesis using find_append_Some[of "\<lambda>k. k > index" "rs_results ?s (target_key c)"]
      by (auto simp: r2 s2 nth_append jl)
  next
    case False
    have "length rs \<le> x" if x: "?sup ?t = Some x" for x
    proof -
      from x obtain y where y: "find (\<lambda>k. k > index) (rs_results ?s (target_key c) @ r2) = Some y" "y \<le> x"
        by (auto simp: r2 split: if_splits)
      then have "y > index" "y \<in> set (rs_results ?s (target_key c)) \<union> set r2"
        by (auto simp: find_Some_iff set_append[symmetric] simp del: set_append dest: nth_mem)
      with False have "y \<in> set r2" by (auto simp: find_None_iff)
      then show ?thesis using r2(2) y(2) by auto
    qed
    then show ?thesis using False by auto
  qed
  have "min_defined ?con' (?sup ?t) = Some k" by (rule min_defined_late[OF old kl con sup])
  then show ?thesis using find_index_append[OF j, of s2] kl by (simp add: eligible_at_def Let_def s2(1))
qed


lemma soleEvidence_snoc:
  "soleEvidenceFrom (rs @ [r]) i =
     (case soleEvidenceFrom rs i of Some k \<Rightarrow> Some k | None \<Rightarrow> if i \<in> set (cited_alone r) then Some (length rs) else None)"
proof -
  have fold_cited: "fold (\<lambda>s m'. if m' s = None then m'(s \<mapsto> n) else m') cs m i
      = (case m i of Some k \<Rightarrow> Some k | None \<Rightarrow> if i \<in> set cs then Some n else None)" for cs m and n :: nat
    by (induction cs arbitrary: m) (auto split: option.splits)
  show ?thesis by (simp add: soleEvidenceFrom_def indexed_snoc fold_cited)
qed

lemma soleEvidence_append:
  "soleEvidenceFrom (rs @ new) i = soleEvidenceFrom rs i \<or>
   soleEvidenceFrom rs i = None \<and> (\<forall>k. soleEvidenceFrom (rs @ new) i = Some k \<longrightarrow> length rs \<le> k)"
proof (induction new rule: rev_induct)
  case (snoc r new)
  then show ?case by (auto simp: soleEvidence_snoc[of "rs @ new", simplified] split: option.splits)
qed simp

lemma reduced_entry_append:
  assumes fresh: "fresh_calls rs new" and i: "index < length rs"
    and old: "reduced_entry_at date lifetime rs (reduction_scan_of rs) index = Some e"
  shows "reduced_entry_at date lifetime (rs @ new) (reduction_scan_of (rs @ new)) index = Some e"
proof -
  let ?r = "rs ! index" and ?s = "reduction_scan_of rs" and ?t = "reduction_scan_of (rs @ new)"
  have r: "(rs @ new) ! index = ?r" using i by (simp add: nth_append)
  obtain m where m: "r_body ?r = Message m" "\<not> (m_role m \<noteq> js ''toolResult'' \<or> m_toolCallId m = None \<or> m_isError m = Some True)"
    using old by (auto simp: reduced_entry_at_def Let_def split: body.splits if_splits)
  obtain c texts where c: "rs_calls ?s (the (m_toolCallId m)) = Some c" "textBlocks (content_of m) = Some texts"
    using old m by (auto simp: reduced_entry_at_def Let_def split: option.splits)
  have c': "rs_calls ?t (the (m_toolCallId m)) = Some c" by (rule scan_calls_append[OF fresh c(1)])
  obtain k where k: "eligible_at ?s index c = Some k"
    using old m c by (auto simp: reduced_entry_at_def Let_def split: option.splits if_splits)
  have k': "eligible_at ?t index c = Some k" and kl: "k < length rs"
    using eligible_at_append[OF k, of new] by auto
  have cited: "(case soleEvidenceFrom (rs @ new) (r_id ?r) of None \<Rightarrow> False | Some citedFrom \<Rightarrow> citedFrom \<le> k)
      = (case soleEvidenceFrom rs (r_id ?r) of None \<Rightarrow> False | Some citedFrom \<Rightarrow> citedFrom \<le> k)"
    using soleEvidence_append[of rs new "r_id ?r"] kl by (auto split: option.splits)
  have tokens: "prefix_tokens (rs @ new) (k + 1) = prefix_tokens rs (k + 1)"
    "prefix_tokens (rs @ new) (index + 1) = prefix_tokens rs (index + 1)"
    using kl i by (simp_all add: prefix_tokens_def)
  have idle: "idle_gap date lifetime rs index \<Longrightarrow> idle_gap date lifetime (rs @ new) index"
    using i by (auto simp: idle_gap_def nth_opt_def nth_append split: if_splits)
  show ?thesis
    using old m c c' k k' unfolding reduced_entry_at_def Let_def r
    by (simp add: cited tokens[simplified] split: if_splits) (use idle in auto)
qed

section \<open>Properties\<close>

text \<open>
  C28: Reductions are monotone. Appending records to a branch keeps every reduced entry, with the same
  replacement line, as long as the appended records do not call a tool under an id the branch
  already used: eligibility is settled at the earliest prefix where it holds, so the reduced view of
  a longer branch extends that of its prefix.
\<close>

theorem reduceRecords_monotone:
  assumes "fresh_calls rs new"
  shows "set (rv_entries (reduceRecords date rs lifetime)) \<subseteq> set (rv_entries (reduceRecords date (rs @ new) lifetime))"
proof
  let ?l = "case lifetime of None \<Rightarrow> DEFAULT_CACHE_LIFETIME_MS | Some x \<Rightarrow> x"
  fix e assume "e \<in> set (rv_entries (reduceRecords date rs lifetime))"
  then obtain i where i: "i < length rs" "reduced_entry_at date ?l rs (reduction_scan_of rs) i = Some e"
    by (auto simp: reduceRecords_def Let_def split: option.splits)
  then have "reduced_entry_at date ?l (rs @ new) (reduction_scan_of (rs @ new)) i = Some e"
    by (intro reduced_entry_append[OF assms])
  then have "e \<in> set (case reduced_entry_at date ?l (rs @ new) (reduction_scan_of (rs @ new)) i of None \<Rightarrow> [] | Some e \<Rightarrow> [e])"
    by simp
  then show "e \<in> set (rv_entries (reduceRecords date (rs @ new) lifetime))"
    using i(1) by (auto simp: reduceRecords_def Let_def intro!: bexI[of _ i])
qed


definition tool_call_record :: "string \<Rightarrow> string \<Rightarrow> session_record" where
  "tool_call_record i call = (text_record i ''assistant'' ''x'')\<lparr>r_body := Message ((text_message ''assistant'' ''x'')\<lparr>
     m_content := Some (Blocks [obj [(''type'', JStr (js ''toolCall'')), (''id'', JStr (js call)),
       (''name'', JStr (js ''read'')), (''arguments'', obj [(''path'', JStr (js ''f''))])]])\<rparr>)\<rparr>"

definition tool_result_record :: "string \<Rightarrow> string \<Rightarrow> nat \<Rightarrow> session_record" where
  "tool_result_record i call n = (text_record i ''toolResult'' ''x'')\<lparr>r_body := Message ((text_message ''toolResult'' ''x'')\<lparr>
     m_toolCallId := Some (js call),
     m_content := Some (Blocks [obj [(''type'', JStr (js ''text'')), (''text'', JStr (0x61 # replicate n 0x0a))]])\<rparr>)\<rparr>"

definition stop_record :: "string \<Rightarrow> session_record" where
  "stop_record i = (text_record i ''assistant'' ''done'')\<lparr>r_body := Message ((text_message ''assistant'' ''done'')\<lparr>
     m_stopReason := Some (js ''stop'')\<rparr>)\<rparr>"

definition sample_tools :: "session_record list" where
  "sample_tools = [text_record ''u1'' ''user'' ''a'', tool_call_record ''a1'' ''k1'', tool_result_record ''t1'' ''k1'' 110,
     stop_record ''a2'', stop_record ''a3'']"

theorem reduceRecords_monotone_witness:
  "map re_recordId (rv_entries (reduceRecords (\<lambda>_. None) sample_tools None)) = [js ''t1''] \<and>
   js ''t1'' \<in> re_recordId ` set (rv_entries (reduceRecords (\<lambda>_. None) (sample_tools @ [sample_user]) None))"
proof -
  have f: "fresh_calls sample_tools [sample_user]" by code_simp
  have e: "map re_recordId (rv_entries (reduceRecords (\<lambda>_. None) sample_tools None)) = [js ''t1'']" by code_simp
  then have "js ''t1'' \<in> set (map re_recordId (rv_entries (reduceRecords (\<lambda>_. None) sample_tools None)))" by simp
  with e show ?thesis using reduceRecords_monotone[OF f, of "\<lambda>_. None" None]
    by (auto intro: rev_image_eqI)
qed

lemma applyReduction_agrees:
  "list_all2 (\<lambda>m m'. rm_role m' = rm_role m \<and> rm_toolCallId m' = rm_toolCallId m \<and> rm_rest m' = rm_rest m \<and>
      (m' = m \<or> rm_role m = js ''toolResult'' \<and>
        (\<exists>e. e \<in> set (rv_entries view) \<and> rm_toolCallId m = Some (re_toolCallId e) \<and>
          rm_content m' = JArr [obj [(''type'', JStr (js ''text'')), (''text'', JStr (re_line e))]])))
    ms (applyReduction ms view)"
proof (cases "rv_entries view = []")
  case True
  then show ?thesis by (simp add: applyReduction_def list_all2_same)
next
  case False
  have line_of: "map_last (map (\<lambda>e. (re_toolCallId e, re_line e)) (rv_entries view)) i = Some l \<Longrightarrow>
      \<exists>e. e \<in> set (rv_entries view) \<and> i = re_toolCallId e \<and> l = re_line e" for i l
    by (auto simp: map_last_def dest!: map_of_SomeD)
  show ?thesis using False
    by (auto simp: applyReduction_def Let_def list_all2_map2 list_all2_same split: option.splits if_splits
        dest!: line_of)
qed

text \<open>
  A reduction touches tool-result text only. \<open>applyReduction\<close> keeps the number and order of the
  messages, every role, call id and host field; a message differs only when it is a tool result whose
  call id the view lists, and then its content is the one replacement line of such an entry.
\<close>

theorem applyReduction_frame:
  "list_all2 (\<lambda>m m'. rm_role m' = rm_role m \<and> rm_toolCallId m' = rm_toolCallId m \<and> rm_rest m' = rm_rest m \<and>
      (m' = m \<or> rm_role m = js ''toolResult'' \<and>
        (\<exists>e. e \<in> set (rv_entries view) \<and> rm_toolCallId m = Some (re_toolCallId e) \<and>
          rm_content m' = JArr [obj [(''type'', JStr (js ''text'')), (''text'', JStr (re_line e))]])))
    ms (applyReduction ms view)"
  by (rule applyReduction_agrees)

end
