(* ===== verification/Guards.thy ===== *)
theory Guards
  imports Reduction
begin

text \<open>
  \<^bold>\<open>guards.ts\<close>: tool pairing, the request limit, and the recovery edits a branch may carry. The
  pairing guard is proved to accept exactly the message lists that a step relation over the set of
  open calls derives.
\<close>

section \<open>Tool pairing\<close>

definition call_ids :: "jsval \<Rightarrow> jstring list" where
  "call_ids content = concat (map (\<lambda>part.
     (case (isRecord part, jfield part ''type'' = JStr (js ''toolCall''), jfield part ''id'') of
        (True, True, JStr i) \<Rightarrow> [i] | _ \<Rightarrow> [])) (arr_of content))"

fun pairs_loop :: "jstring set \<Rightarrow> 'a reducible_message list \<Rightarrow> unit res" where
  "pairs_loop pending [] =
     (if pending \<noteq> {} then throw CONTEXT_TOOL_BOUNDARY ''CONTEXT_TOOL_BOUNDARY: wait for the tool batch to finish''
      else Inr ())"
| "pairs_loop pending (m # ms) =
     (if rm_role m = js ''assistant'' then
        (if pending \<noteq> {}
         then throw CONTEXT_TOOL_BOUNDARY ''CONTEXT_TOOL_BOUNDARY: missing tool results before an assistant turn''
         else pairs_loop (pending \<union> set (call_ids (rm_content m))) ms)
      else if rm_role m = js ''toolResult'' then
        (case rm_toolCallId m of
           Some i \<Rightarrow> if i \<in> pending then pairs_loop (pending - {i}) ms
                     else throw CONTEXT_TOOL_BOUNDARY ''CONTEXT_TOOL_BOUNDARY: an unmatched tool result''
         | None \<Rightarrow> throw CONTEXT_TOOL_BOUNDARY ''CONTEXT_TOOL_BOUNDARY: an unmatched tool result'')
      else if rm_role m = js ''user'' \<and> pending \<noteq> {}
      then throw CONTEXT_TOOL_BOUNDARY ''CONTEXT_TOOL_BOUNDARY: user input interrupts an unfinished tool batch''
      else pairs_loop pending ms)"

definition assertToolPairs :: "'a reducible_message list \<Rightarrow> unit res" where
  "assertToolPairs ms = pairs_loop {} ms"

text \<open>The pairing discipline as steps: \<open>paired P ms Q\<close> reads the messages with open calls \<open>P\<close> and leaves \<open>Q\<close>.\<close>

inductive paired :: "jstring set \<Rightarrow> 'a reducible_message list \<Rightarrow> jstring set \<Rightarrow> bool" where
  Done: "paired P [] P"
| Calls: "rm_role m = js ''assistant'' \<Longrightarrow> paired (set (call_ids (rm_content m))) ms Q \<Longrightarrow> paired {} (m # ms) Q"
| Result: "rm_role m = js ''toolResult'' \<Longrightarrow> rm_toolCallId m = Some i \<Longrightarrow> i \<in> P \<Longrightarrow> paired (P - {i}) ms Q \<Longrightarrow>
    paired P (m # ms) Q"
| Between: "rm_role m = js ''user'' \<Longrightarrow> paired {} ms Q \<Longrightarrow> paired {} (m # ms) Q"
| Other: "rm_role m \<notin> {js ''assistant'', js ''toolResult'', js ''user''} \<Longrightarrow> paired P ms Q \<Longrightarrow> paired P (m # ms) Q"

inductive_cases paired_NilE [elim!]: "paired P [] Q"
inductive_cases paired_ConsE: "paired P (m # ms) Q"
inductive_simps paired_Nil_iff [simp]: "paired P [] Q"

lemma pairs_loop_paired: "pairs_loop P ms = Inr u \<longleftrightarrow> paired P ms {}"
proof (induction P ms rule: pairs_loop.induct)
  case (2 P m ms)
  show ?case
  proof
    assume "pairs_loop P (m # ms) = Inr u"
    with 2 show "paired P (m # ms) {}"
      by (auto split: if_splits option.splits intro: paired.intros)
  next
    assume "paired P (m # ms) {}"
    then show "pairs_loop P (m # ms) = Inr u"
      by (cases rule: paired_ConsE) (use 2 in auto)
  qed
qed (auto intro: paired.intros)

lemma paired_append: "paired P ms Q \<Longrightarrow> paired Q ns R \<Longrightarrow> paired P (ms @ ns) R"
  by (induction P ms Q rule: paired.induct) (auto intro: paired.intros)

text \<open>Every tool result answers a call made before it.\<close>

lemma paired_result_called:
  "paired P ms Q \<Longrightarrow> m \<in> set ms \<Longrightarrow> rm_role m = js ''toolResult'' \<Longrightarrow>
   \<exists>i. rm_toolCallId m = Some i \<and> (i \<in> P \<or> (\<exists>a \<in> set ms. rm_role a = js ''assistant'' \<and> i \<in> set (call_ids (rm_content a))))"
proof (induction P ms Q rule: paired.induct)
  case (Calls a ms Q)
  then show ?case by (cases "m = a") auto
next
  case (Result r i P ms Q)
  then show ?case by (cases "m = r") auto
qed auto

text \<open>Messages that agree on roles, call ids and the calls of assistant messages pair alike.\<close>

lemma pairs_loop_cong:
  "list_all2 (\<lambda>m m'. rm_role m' = rm_role m \<and> rm_toolCallId m' = rm_toolCallId m \<and>
      (m' = m \<or> rm_role m = js ''toolResult'')) ms ms' \<Longrightarrow> pairs_loop P ms' = pairs_loop P ms"
  by (induction ms ms' arbitrary: P rule: list_all2_induct) (auto split: option.split)

section \<open>Request limit\<close>

definition requestLimit :: "int option \<Rightarrow> int \<Rightarrow> int res" where
  "requestLimit contextWindow reserveTokens =
     (case contextWindow of
        None \<Rightarrow> throw CONTEXT_CAPACITY ''CONTEXT_CAPACITY: model window is too small or unknown''
      | Some w \<Rightarrow>
          if w - reserveTokens < 2048
          then throw CONTEXT_CAPACITY ''CONTEXT_CAPACITY: model window is too small or unknown''
          else Inr (w - reserveTokens))"

section \<open>Recovery edits\<close>

definition has_tool_call :: "message \<Rightarrow> bool" where
  "has_tool_call m = (case m_content m of
     Some (Blocks bs) \<Rightarrow> list_ex (\<lambda>b. jfield b ''type'' = JStr (js ''toolCall'')) bs | _ \<Rightarrow> False)"

text \<open>The edit omits the response of \<open>lastMessage\<close>, a failed one with no tool call.\<close>

definition omits_failed :: "session_record option \<Rightarrow> jstring \<Rightarrow> jsval \<Rightarrow> bool" where
  "omits_failed lastMessage target repl =
     (case lastMessage of None \<Rightarrow> False
      | Some r \<Rightarrow> repl = JNull \<and> r_id r = target \<and>
          (case r_body r of
             Message m \<Rightarrow> m_role m = js ''assistant'' \<and> m_stopReason m = Some (js ''error'') \<and> \<not> has_tool_call m
           | _ \<Rightarrow> False))"

fun recovery_loop :: "session_record option \<Rightarrow> session_record list \<Rightarrow> unit res" where
  "recovery_loop lastMessage [] = Inr ()"
| "recovery_loop lastMessage (r # rs) =
     (case r_body r of
        ContextEdit t repl \<Rightarrow>
          (if \<not> omits_failed lastMessage t repl
           then throw CONTEXT_PREVIEW_UNSUPPORTED ''CONTEXT_PREVIEW_UNSUPPORTED: only failed-response recovery omissions are supported''
           else recovery_loop lastMessage rs)
      | Message _ \<Rightarrow> recovery_loop (Some r) rs
      | Compaction _ \<Rightarrow> recovery_loop None rs
      | _ \<Rightarrow> recovery_loop lastMessage rs)"

definition assertRecoveryEdits :: "session_record list \<Rightarrow> unit res" where
  "assertRecoveryEdits branch = recovery_loop None branch"

text \<open>The latest message of a branch after its latest checkpoint.\<close>

fun latest_message :: "session_record option \<Rightarrow> session_record list \<Rightarrow> session_record option" where
  "latest_message acc [] = acc"
| "latest_message acc (r # rs) =
     latest_message (case r_body r of Message _ \<Rightarrow> Some r | Compaction _ \<Rightarrow> None | _ \<Rightarrow> acc) rs"

text \<open>Record \<open>i\<close> of the branch, if an edit, omits the latest message before it.\<close>

definition edit_ok :: "session_record option \<Rightarrow> session_record list \<Rightarrow> nat \<Rightarrow> bool" where
  "edit_ok acc branch i = (case r_body (branch ! i) of
     ContextEdit t repl \<Rightarrow> omits_failed (latest_message acc (take i branch)) t repl | _ \<Rightarrow> True)"

lemma edit_ok_Suc:
  "edit_ok acc (r # rs) (Suc i) = edit_ok (case r_body r of Message _ \<Rightarrow> Some r | Compaction _ \<Rightarrow> None | _ \<Rightarrow> acc) rs i"
  unfolding edit_ok_def nth_Cons_Suc take_Suc_Cons latest_message.simps ..

lemma recovery_loop_Inr: "recovery_loop acc branch = Inr () \<longleftrightarrow> (\<forall>i < length branch. edit_ok acc branch i)"
proof (induction branch arbitrary: acc)
  case (Cons r rs)
  have split: "(\<forall>i < length (r # rs). P i) \<longleftrightarrow> P 0 \<and> (\<forall>i < length rs. P (Suc i))" for P
    by (auto simp: less_Suc_eq_0_disj)
  have first: "edit_ok acc (r # rs) 0 = (case r_body r of ContextEdit t repl \<Rightarrow> omits_failed acc t repl | _ \<Rightarrow> True)"
    unfolding edit_ok_def nth_Cons_0 take_0 latest_message.simps ..
  show ?case unfolding split edit_ok_Suc first
    by (cases "r_body r") (simp_all add: Cons.IH)
qed simp

section \<open>Properties\<close>

lemma assertToolPairs_called:
  assumes "assertToolPairs ms = Inr u" and m: "m \<in> set ms" "rm_role m = js ''toolResult''"
  shows "\<exists>i a. rm_toolCallId m = Some i \<and> a \<in> set ms \<and> rm_role a = js ''assistant'' \<and> i \<in> set (call_ids (rm_content a))"
proof -
  have "paired {} ms {}" using assms(1) by (simp add: assertToolPairs_def pairs_loop_paired)
  from paired_result_called[OF this m] show ?thesis by blast
qed

text \<open>
  C26: The pairing guard accepts exactly the paired conversations. \<open>assertToolPairs\<close> returns exactly when
  the messages follow the pairing discipline from no open call to no open call: an assistant turn
  opens its calls only when none is open, each result closes an open call, and the user speaks only
  when none is open. The lemma before shows that every result then answers a call of the list.
\<close>

theorem assertToolPairs_exact:
  "assertToolPairs ms = Inr u \<longleftrightarrow> paired {} ms {}"
  by (simp add: assertToolPairs_def pairs_loop_paired)

text \<open>
  C27: A reduced view keeps the pairing. Applying any reduction view changes neither the verdict of
  \<open>assertToolPairs\<close> nor its message: calls stay verbatim and every result keeps its call id.
\<close>

theorem applyReduction_keeps_pairs:
  "assertToolPairs (applyReduction ms view) = assertToolPairs ms"
  unfolding assertToolPairs_def
  by (rule pairs_loop_cong, rule list_all2_mono[OF applyReduction_agrees]) auto

text \<open>
  Recovery edits are judged against the message they follow. \<open>assertRecoveryEdits\<close> returns exactly
  when every context edit of the branch omits, without replacement, the latest message before it
  since the preceding checkpoint, and that message is a failed assistant response without a tool
  call.
\<close>

theorem assertRecoveryEdits_exact:
  "assertRecoveryEdits branch = Inr () \<longleftrightarrow>
   list_all (edit_ok None branch) [0..<length branch]"
  unfolding assertRecoveryEdits_def recovery_loop_Inr by (auto simp: list_all_iff)

end
