(* ===== verification/Quote_Diagnostics.thy ===== *)
theory Quote_Diagnostics
  imports Notes
begin

text \<open>
  \<^bold>\<open>quote-diagnostics.ts\<close>: every failing quotation of a schema-valid note, where it actually
  stands, and the messages built from that. The diagnosis agrees with the validator.
\<close>

datatype quote_failure_kind = Elsewhere | Format | Absent

record quote_location =
  ql_entryId :: jstring
  ql_role :: jstring

record quote_failure =
  qf_section :: note_section
  qf_index :: nat
  qf_quote :: jstring
  qf_cited :: "jstring list"
  qf_kind :: quote_failure_kind
  qf_foundIn :: "quote_location list"

record quote_diagnosis =
  qd_failures :: "quote_failure list"
  qd_unreadable :: bool

record quote_counts =
  qc_failed :: nat
  qc_elsewhere :: nat
  qc_format :: nat
  qc_absent :: nat

definition MAX_LOCATIONS :: nat where "MAX_LOCATIONS = 5"

definition typographic :: "u16 \<Rightarrow> u16" where
  "typographic u =
     (if u \<in> {0x2018, 0x2019, 0x201a, 0x201b, 0x2032} then 0x27
      else if u \<in> {0x201c, 0x201d, 0x201e, 0x201f, 0x2033} then 0x22
      else if 0x2010 \<le> u \<and> u \<le> 0x2015 \<or> u = 0x2212 then 0x2d else u)"

definition normalizeQuote :: "host \<Rightarrow> jstring \<Rightarrow> jstring" where
  "normalizeQuote h text = trim (collapse is_space 0x20 (map typographic (nfkc h text)))"

text \<open>The values of \<open>new Map(rs.map((r) => [r.id, r]))\<close>: first places, last values.\<close>

definition map_values :: "session_record list \<Rightarrow> session_record list" where
  "map_values rs = map (\<lambda>i. the (last_with_id rs i)) (dedup (map r_id rs))"

definition readable_records :: "session_record list \<Rightarrow> session_record list" where
  "readable_records branch = filter (\<lambda>r. sourceText r \<noteq> []) (map_values branch)"

definition location_of :: "session_record \<Rightarrow> quote_location" where
  "location_of r = \<lparr>ql_entryId = r_id r, ql_role = sourceRole r\<rparr>"

definition diagnose_fact :: "host \<Rightarrow> session_record list \<Rightarrow> note_section \<Rightarrow> nat \<times> note_fact \<Rightarrow> quote_failure list" where
  "diagnose_fact h branch s p =
     (case f_quote (snd p) of
        None \<Rightarrow> []
      | Some q \<Rightarrow>
          if list_ex (\<lambda>i. readable_id branch i \<and> quoted_in branch q i) (f_sources (snd p)) then []
          else
            let readable = readable_records branch;
                exact = filter (\<lambda>r. contains q (sourceText r)) readable;
                target = normalizeQuote h q;
                near = (if target \<noteq> [] then filter (\<lambda>r. contains target (normalizeQuote h (sourceText r))) readable else []);
                found = (if exact = [] then near else exact);
                kind = (if exact \<noteq> [] then Elsewhere else if near \<noteq> [] then Format else Absent)
            in [\<lparr>qf_section = s, qf_index = fst p, qf_quote = q, qf_cited = f_sources (snd p), qf_kind = kind,
                 qf_foundIn = map location_of (take MAX_LOCATIONS found)\<rparr>])"

definition diagnoseQuotes :: "host \<Rightarrow> memory_note \<Rightarrow> session_record list \<Rightarrow> quote_diagnosis" where
  "diagnoseQuotes h note branch =
     \<lparr>qd_failures = concat (map (\<lambda>s. concat (map (diagnose_fact h branch s) (indexed (items note s)))) noteSections),
      qd_unreadable = list_ex (\<lambda>f. list_ex (\<lambda>i. \<not> readable_id branch i) (f_sources f)
          \<or> list_ex (\<lambda>i. \<not> readable_id branch i) (f_supersedes f)) (all_items note)\<rparr>"

definition quoteCounts :: "quote_failure list \<Rightarrow> quote_counts" where
  "quoteCounts fs =
     \<lparr>qc_failed = length fs, qc_elsewhere = length (filter (\<lambda>f. qf_kind f = Elsewhere) fs),
      qc_format = length (filter (\<lambda>f. qf_kind f = Format) fs),
      qc_absent = length (filter (\<lambda>f. qf_kind f = Absent) fs)\<rparr>"

definition count_part :: "nat \<Rightarrow> string \<Rightarrow> jstring list" where
  "count_part n text = (if n = 0 then [] else [nat_str n @ js text])"

definition quoteFailureMessage :: "quote_counts \<Rightarrow> bool \<Rightarrow> jstring" where
  "quoteFailureMessage c repaired =
     (let parts = count_part (qc_elsewhere c) '' found verbatim in other entries''
            @ count_part (qc_format c) '' matching only after spacing or punctuation changes''
            @ count_part (qc_absent c) '' found in no entry''
      in js ''CONTEXT_NOTE_QUOTE: '' @ nat_str (qc_failed c) @ js '' quotation''
         @ (if qc_failed c = 1 then js '' does'' else js ''s do'') @ js '' not match the entries cited''
         @ (if parts = [] then [] else js '' ('' @ join (js '', '') parts @ js '')'')
         @ (if repaired then js '' after one quotation repair'' else [])
         @ js ''. No checkpoint committed; original history retained.'')"

definition feedback_line :: "quote_failure \<Rightarrow> jstring" where
  "feedback_line f =
     (let places = join (js '', '') (map (\<lambda>l. ql_entryId l @ js '' ('' @ ql_role l @ js '')'') (qf_foundIn f));
          field = js (section_name (qf_section f)) @ js ''['' @ nat_str (qf_index f) @ js ''].quote''
      in case qf_kind f of
           Elsewhere \<Rightarrow> field @ js '' is not in '' @ join (js '', '') (qf_cited f) @ js ''; the exact text is in '' @ places
             @ js ''. Cite that entry, or drop the quote. Text from an assistant or tool entry is not a user ruling.''
         | Format \<Rightarrow> field @ js '' differs from '' @ places @ js '' in spacing or punctuation; copy the text exactly or drop the quote.''
         | Absent \<Rightarrow> field @ js '' is in no readable entry; quote exact text from a cited entry or drop the quote.'')"

definition quoteFeedback :: "quote_failure list \<Rightarrow> jstring" where
  "quoteFeedback fs = join newline (map feedback_line fs)"

section \<open>Facts\<close>

lemma map_values_set: "r \<in> set (map_values rs) \<longleftrightarrow> last_with_id rs (r_id r) = Some r"
proof
  assume "r \<in> set (map_values rs)"
  then obtain i where i: "i \<in> r_id ` set rs" "r = the (last_with_id rs i)" by (auto simp: map_values_def)
  then obtain q where q: "last_with_id rs i = Some q" using last_with_id_None[of rs i] by auto
  with i last_with_id_Some[OF q] show "last_with_id rs (r_id r) = Some r" by simp
next
  assume "last_with_id rs (r_id r) = Some r"
  with last_with_id_Some[OF this] show "r \<in> set (map_values rs)" by (force simp: map_values_def)
qed

lemma map_values_ids: "map r_id (map_values rs) = dedup (map r_id rs)"
proof -
  have "r_id (the (last_with_id rs i)) = i" if "i \<in> r_id ` set rs" for i
    using that last_with_id_None[of rs i] by (auto dest: last_with_id_Some)
  then show ?thesis unfolding map_values_def map_map comp_def by (intro map_idI) auto
qed

lemma diagnose_fact_Nil:
  "diagnose_fact h branch s p = [] \<longleftrightarrow>
     (case f_quote (snd p) of None \<Rightarrow> True
      | Some q \<Rightarrow> list_ex (\<lambda>i. readable_id branch i \<and> quoted_in branch q i) (f_sources (snd p)))"
  by (simp add: diagnose_fact_def Let_def split: option.split)

lemma in_all_items: "f \<in> set (all_items n) \<longleftrightarrow> (\<exists>s i. i < length (items n s) \<and> items n s ! i = f)"
  by (auto simp: set_all_items in_set_conv_nth)

lemma diagnose_Nil_iff:
  "qd_failures (diagnoseQuotes h note branch) = [] \<longleftrightarrow> (\<forall>f \<in> set (all_items note). case f_quote f of None \<Rightarrow> True
      | Some q \<Rightarrow> list_ex (\<lambda>i. readable_id branch i \<and> quoted_in branch q i) (f_sources f))"
proof -
  have "qd_failures (diagnoseQuotes h note branch) = [] \<longleftrightarrow>
      (\<forall>s. \<forall>p \<in> set (indexed (items note s)). diagnose_fact h branch s p = [])"
    by (simp add: diagnoseQuotes_def)
  also have "\<dots> \<longleftrightarrow> (\<forall>s. \<forall>f \<in> set (items note s). case f_quote f of None \<Rightarrow> True
      | Some q \<Rightarrow> list_ex (\<lambda>i. readable_id branch i \<and> quoted_in branch q i) (f_sources f))"
    unfolding diagnose_fact_Nil
    by (subst ball_indexed[where P = "\<lambda>f. case f_quote f of None \<Rightarrow> True
      | Some q \<Rightarrow> list_ex (\<lambda>i. readable_id branch i \<and> quoted_in branch q i) (f_sources f)"]) (rule refl)
  finally show ?thesis by (auto simp: set_all_items)
qed

lemma diagnose_fact_in:
  "f \<in> set (qd_failures (diagnoseQuotes h note branch)) \<longleftrightarrow>
   (\<exists>s i. i < length (items note s) \<and> f \<in> set (diagnose_fact h branch s (i, items note s ! i)))"
  by (fastforce simp: diagnoseQuotes_def in_set_indexed)

lemma diagnose_evidenced:
  "qd_failures (diagnoseQuotes h note branch) = [] \<and> \<not> qd_unreadable (diagnoseQuotes h note branch)
     \<longleftrightarrow> note_evidenced branch note"
  unfolding diagnose_Nil_iff
  by (auto simp: diagnoseQuotes_def note_evidenced_def fact_evidenced_def list_all_iff list_ex_iff split: option.splits)

section \<open>Properties\<close>

text \<open>
  C29: The quotation diagnosis agrees with the validator. For every value and branch,
  \<open>validateNoteContent\<close> returns the value exactly when the schema validator accepts it and
  \<open>diagnoseQuotes\<close> finds no failing quotation and no unreadable id in it: the two read the note and the
  branch separately, the validator fact by fact up to its first failure, the diagnosis to the end.
\<close>

theorem diagnoseQuotes_agrees:
  "validateNoteContent h note branch = Inr note \<longleftrightarrow>
     check h noteSchema note \<and> qd_failures (diagnoseQuotes h note branch) = [] \<and> \<not> qd_unreadable (diagnoseQuotes h note branch)"
  unfolding diagnose_evidenced by (simp add: validateNoteContent_Inr)

text \<open>
  A diagnosed location is where the text stands. Every location of a failure of kind
  \<open>Elsewhere\<close> names the latest record with that id, which is readable and contains the quotation
  verbatim; at most five locations are given; and a failure of kind \<open>Absent\<close> has none.
\<close>

theorem diagnoseQuotes_locations:
  assumes "f \<in> set (qd_failures (diagnoseQuotes h note branch))"
  shows "length (qf_foundIn f) \<le> MAX_LOCATIONS \<and>
    (qf_kind f = Absent \<longleftrightarrow> qf_foundIn f = []) \<and>
    (qf_kind f = Elsewhere \<longrightarrow> (\<forall>l \<in> set (qf_foundIn f). readable_id branch (ql_entryId l) \<and>
       quoted_in branch (qf_quote f) (ql_entryId l)))"
proof -
  obtain s p where f: "f \<in> set (diagnose_fact h branch s p)"
    using assms unfolding diagnose_fact_in by blast
  have loc: "readable_id branch (r_id r) \<and> (contains q (sourceText r) \<longrightarrow> quoted_in branch q (r_id r))"
    if "r \<in> set (readable_records branch)" for r q
    using that by (simp add: readable_records_def map_values_set readable_id_def quoted_in_def)
  have "length (qf_foundIn f) \<le> MAX_LOCATIONS" "qf_kind f = Absent \<longleftrightarrow> qf_foundIn f = []"
    using f by (auto simp: diagnose_fact_def Let_def MAX_LOCATIONS_def split: option.splits if_splits)
  moreover have "readable_id branch (ql_entryId l) \<and> quoted_in branch (qf_quote f) (ql_entryId l)"
    if k: "qf_kind f = Elsewhere" and l: "l \<in> set (qf_foundIn f)" for l
  proof -
    obtain r where "r \<in> set (readable_records branch)" "contains (qf_quote f) (sourceText r)" "l = location_of r"
      using f k l by (auto simp: diagnose_fact_def Let_def split: option.splits if_splits dest!: in_set_takeD)
    with loc show ?thesis by (simp add: location_of_def)
  qed
  ultimately show ?thesis by blast
qed

definition misquoted_note :: memory_note where
  "misquoted_note = note_with_state [obj [(''text'', JStr (js ''x'')), (''sources'', JArr [JStr (js ''u1'')]),
     (''quote'', JStr (js ''said''))]]"

theorem diagnoseQuotes_locations_witness:
  "\<exists>f. qd_failures (diagnoseQuotes plain_host misquoted_note [sample_user, text_record ''u2'' ''user'' ''said'']) = [f] \<and>
     qf_kind f = Elsewhere \<and> map ql_entryId (qf_foundIn f) = [js ''u2''] \<and> length (qf_foundIn f) \<le> MAX_LOCATIONS"
proof -
  let ?d = "qd_failures (diagnoseQuotes plain_host misquoted_note [sample_user, text_record ''u2'' ''user'' ''said''])"
  have "map (\<lambda>f. (qf_kind f, map ql_entryId (qf_foundIn f))) ?d = [(Elsewhere, [js ''u2''])]" by code_simp
  then obtain f where f: "?d = [f]" "qf_kind f = Elsewhere" "map ql_entryId (qf_foundIn f) = [js ''u2'']" by auto
  with diagnoseQuotes_locations[of f plain_host misquoted_note "[sample_user, text_record ''u2'' ''user'' ''said'']"]
  show ?thesis by simp
qed

end
