(* ===== verification/Scope_Diagnostics.thy ===== *)
theory Scope_Diagnostics
  imports Notes
begin

text \<open>
  \<^bold>\<open>scope-diagnostics.ts\<close>: the citations of a note that name no record or a record without text,
  counted without their ids.
\<close>

record scope_counts =
  sc_missing :: nat
  sc_unreadable :: nat
  sc_inSupersedes :: nat
  sc_unreadableKinds :: "(jstring \<times> nat) list"

record scope_sets =
  ss_missing :: "jstring list"
  ss_unreadable :: "jstring list"
  ss_superseding :: "jstring list"

text \<open>Adding to a set that keeps its insertion order.\<close>

definition set_add :: "'a \<Rightarrow> 'a list \<Rightarrow> 'a list" where
  "set_add x xs = (if x \<in> set xs then xs else xs @ [x])"

definition scope_check :: "session_record list \<Rightarrow> jstring \<times> bool \<Rightarrow> scope_sets \<Rightarrow> scope_sets" where
  "scope_check branch p st =
     (case last_with_id branch (fst p) of
        Some r \<Rightarrow>
          if sourceText r \<noteq> [] then st
          else st\<lparr>ss_unreadable := set_add (fst p) (ss_unreadable st),
                  ss_superseding := (if snd p then set_add (fst p) (ss_superseding st) else ss_superseding st)\<rparr>
      | None \<Rightarrow> st\<lparr>ss_missing := set_add (fst p) (ss_missing st),
                   ss_superseding := (if snd p then set_add (fst p) (ss_superseding st) else ss_superseding st)\<rparr>)"

text \<open>The citations in the order the loops visit them; \<open>True\<close> marks a superseded id.\<close>

definition citations :: "memory_note \<Rightarrow> (jstring \<times> bool) list" where
  "citations note = concat (map (\<lambda>f. map (\<lambda>i. (i, False)) (f_sources f) @ map (\<lambda>i. (i, True)) (f_supersedes f))
     (all_items note))"

definition scope_sets_of :: "memory_note \<Rightarrow> session_record list \<Rightarrow> scope_sets" where
  "scope_sets_of note branch = fold (scope_check branch) (citations note)
     \<lparr>ss_missing = [], ss_unreadable = [], ss_superseding = []\<rparr>"

fun bump :: "jstring \<Rightarrow> (jstring \<times> nat) list \<Rightarrow> (jstring \<times> nat) list" where
  "bump k [] = [(k, 1)]"
| "bump k ((l, n) # ps) = (if l = k then (l, n + 1) # ps else (l, n) # bump k ps)"

definition diagnoseScope :: "memory_note \<Rightarrow> session_record list \<Rightarrow> scope_counts" where
  "diagnoseScope note branch =
     (let st = scope_sets_of note branch in
      \<lparr>sc_missing = length (ss_missing st), sc_unreadable = length (ss_unreadable st),
       sc_inSupersedes = length (ss_superseding st),
       sc_unreadableKinds = fold (\<lambda>i. bump (sourceRole (the (last_with_id branch i)))) (ss_unreadable st) []\<rparr>)"

section \<open>The sets the loops build\<close>

lemma set_set_add [simp]: "set (set_add x xs) = insert x (set xs)"
  by (auto simp: set_add_def)

lemma distinct_set_add: "distinct xs \<Longrightarrow> distinct (set_add x xs)"
  by (simp add: set_add_def)

definition unread :: "session_record list \<Rightarrow> jstring \<Rightarrow> bool" where
  "unread branch i = (case last_with_id branch i of None \<Rightarrow> False | Some r \<Rightarrow> sourceText r = [])"

lemma fold_scope_check:
  fixes branch cs st
  defines "st' \<equiv> fold (scope_check branch) cs st"
  shows "set (ss_missing st') = set (ss_missing st) \<union> {i \<in> fst ` set cs. last_with_id branch i = None}"
    and "set (ss_unreadable st') = set (ss_unreadable st) \<union> {i \<in> fst ` set cs. unread branch i}"
    and "set (ss_superseding st') = set (ss_superseding st) \<union> {i. (i, True) \<in> set cs \<and> \<not> readable_id branch i}"
    and "distinct (ss_missing st) \<Longrightarrow> distinct (ss_missing st')"
    and "distinct (ss_unreadable st) \<Longrightarrow> distinct (ss_unreadable st')"
    and "distinct (ss_superseding st) \<Longrightarrow> distinct (ss_superseding st')"
  unfolding st'_def
proof (induction cs arbitrary: st)
  case (Cons c cs)
  {
    case 1
    show ?case using Cons(1)[of "scope_check branch c st"]
      by (auto simp: scope_check_def split: option.splits)
  next
    case 2
    show ?case using Cons(2)[of "scope_check branch c st"]
      by (auto simp: scope_check_def unread_def split: option.splits)
  next
    case 3
    show ?case using Cons(3)[of "scope_check branch c st"]
      by (cases c) (auto simp: scope_check_def readable_id_def split: option.splits)
  next
    case 4
    show ?case using 4 by (simp, intro Cons(4)) (auto simp: scope_check_def distinct_set_add split: option.splits)
  next
    case 5
    show ?case using 5 by (simp, intro Cons(5)) (auto simp: scope_check_def distinct_set_add split: option.splits)
  next
    case 6
    show ?case using 6 by (simp, intro Cons(6)) (auto simp: scope_check_def distinct_set_add split: option.splits)
  }
qed simp_all

lemma bump_total: "sum_list (map snd (bump k ps)) = Suc (sum_list (map snd ps))"
  by (induction k ps rule: bump.induct) auto

section \<open>Properties\<close>

text \<open>
  The scope diagnosis counts exactly the refused citations. \<open>missing\<close> is the number of distinct
  cited or superseded ids that name no record, \<open>unreadable\<close> the number of those whose record has no
  text, \<open>inSupersedes\<close> the number of refused ids some fact supersedes, and the kinds add up to
  \<open>unreadable\<close>. So the counts are zero exactly when every citation is readable.
\<close>

theorem diagnoseScope_counts:
  "sc_missing (diagnoseScope note branch) = card {i \<in> fst ` set (citations note). last_with_id branch i = None} \<and>
   sc_unreadable (diagnoseScope note branch) = card {i \<in> fst ` set (citations note). unread branch i} \<and>
   sc_inSupersedes (diagnoseScope note branch) = card {i. (i, True) \<in> set (citations note) \<and> \<not> readable_id branch i} \<and>
   sum_list (map snd (sc_unreadableKinds (diagnoseScope note branch))) = sc_unreadable (diagnoseScope note branch) \<and>
   (sc_missing (diagnoseScope note branch) + sc_unreadable (diagnoseScope note branch) = 0
     \<longleftrightarrow> list_all (\<lambda>f. list_all (readable_id branch) (f_sources f @ f_supersedes f)) (all_items note))"
proof -
  let ?e = "\<lparr>ss_missing = [], ss_unreadable = [], ss_superseding = []\<rparr>"
  let ?st = "scope_sets_of note branch"
  have sets: "set (ss_missing ?st) = {i \<in> fst ` set (citations note). last_with_id branch i = None}"
    "set (ss_unreadable ?st) = {i \<in> fst ` set (citations note). unread branch i}"
    "set (ss_superseding ?st) = {i. (i, True) \<in> set (citations note) \<and> \<not> readable_id branch i}"
    unfolding scope_sets_of_def using fold_scope_check(1-3)[where cs = "citations note" and branch = branch and st = ?e] by auto
  have "distinct (ss_missing ?st)" "distinct (ss_unreadable ?st)" "distinct (ss_superseding ?st)"
    unfolding scope_sets_of_def using fold_scope_check(4-6)[where cs = "citations note" and branch = branch and st = ?e] by auto
  then have cards: "length (ss_missing ?st) = card (set (ss_missing ?st))"
    "length (ss_unreadable ?st) = card (set (ss_unreadable ?st))"
    "length (ss_superseding ?st) = card (set (ss_superseding ?st))"
    by (simp_all add: distinct_card)
  have kinds: "sum_list (map snd (fold (\<lambda>i. bump (g i)) is ps)) = length is + sum_list (map snd ps)" for g "is" ps
    by (induction "is" arbitrary: ps) (simp_all add: bump_total)
  have refused: "last_with_id branch i = None \<or> unread branch i \<longleftrightarrow> \<not> readable_id branch i" for i
    by (simp add: unread_def readable_id_def split: option.split)
  have ids: "fst ` set (citations note) = (\<Union>f \<in> set (all_items note). set (f_sources f) \<union> set (f_supersedes f))"
  proof -
    have "fst ` set (map (\<lambda>i. (i, False)) xs @ map (\<lambda>i. (i, True)) ys) = set xs \<union> set ys" for xs ys :: "jstring list"
      by (simp add: image_Un image_image)
    then show ?thesis by (simp add: citations_def image_UN)
  qed
  have "length (ss_missing ?st) + length (ss_unreadable ?st) = 0 \<longleftrightarrow> set (ss_missing ?st) \<union> set (ss_unreadable ?st) = {}"
    by auto
  also have "\<dots> \<longleftrightarrow> (\<forall>i \<in> fst ` set (citations note). readable_id branch i)"
    unfolding sets using refused by blast
  also have "\<dots> \<longleftrightarrow> list_all (\<lambda>f. list_all (readable_id branch) (f_sources f @ f_supersedes f)) (all_items note)"
    unfolding ids by (auto simp: list_all_iff)
  finally show ?thesis using cards sets by (simp add: diagnoseScope_def Let_def kinds)
qed

end
