(* ===== verification/Schema_Diagnostics.thy ===== *)
theory Schema_Diagnostics
  imports Notes
begin

text \<open>
  \<^bold>\<open>schema-diagnostics.ts\<close>: why a parsed answer fails the note schema, with the facts that lack
  sources told apart from every other fault.
\<close>

record uncited_fact =
  uf_section :: note_section
  uf_index :: nat

record schema_diagnosis =
  sd_uncited :: "uncited_fact list"
  sd_other :: bool
  sd_pending :: "memory_note option"

definition PLACEHOLDER :: jstring where "PLACEHOLDER = js ''uncited''"

definition lacks_sources :: "jsval \<Rightarrow> bool" where
  "lacks_sources item \<longleftrightarrow> isRecord item \<and> (jfield item ''sources'' = JUndef \<or> jfield item ''sources'' = JArr [])"

definition patch_item :: "jsval \<Rightarrow> jsval" where
  "patch_item item = (if lacks_sources item then jset item ''sources'' (JArr [JStr PLACEHOLDER]) else item)"

definition patch_section :: "jsval \<Rightarrow> note_section \<Rightarrow> jsval \<Rightarrow> jsval" where
  "patch_section v s patched =
     (case jfield v (section_name s) of
        JArr xs \<Rightarrow> jset patched (section_name s) (JArr (map patch_item xs))
      | _ \<Rightarrow> patched)"

definition uncited_in :: "jsval \<Rightarrow> note_section \<Rightarrow> uncited_fact list" where
  "uncited_in v s =
     map (\<lambda>p. \<lparr>uf_section = s, uf_index = fst p\<rparr>) (filter (\<lambda>p. lacks_sources (snd p)) (indexed (items v s)))"

text \<open>\<open>patched[section][index].sources = []\<close>.\<close>

definition clear_sources :: "uncited_fact \<Rightarrow> jsval \<Rightarrow> jsval" where
  "clear_sources f n =
     (let xs = items n (uf_section f) in
      jset n (section_name (uf_section f)) (JArr (xs[uf_index f := jset (xs ! uf_index f) ''sources'' (JArr [])])))"

definition diagnoseSchema :: "host \<Rightarrow> jsval \<Rightarrow> schema_diagnosis" where
  "diagnoseSchema h v =
     (if \<not> isRecord v then \<lparr>sd_uncited = [], sd_other = True, sd_pending = None\<rparr>
      else
        let patched = fold (patch_section v) noteSections v;
            uncited = concat (map (uncited_in v) noteSections)
        in if \<not> check h noteSchema patched then \<lparr>sd_uncited = uncited, sd_other = True, sd_pending = None\<rparr>
           else \<lparr>sd_uncited = uncited, sd_other = False, sd_pending = Some (fold clear_sources uncited patched)\<rparr>)"

record schema_counts =
  sc_uncited :: "(note_section \<times> nat) list"
  sc_other :: bool

fun bump_section :: "note_section \<Rightarrow> (note_section \<times> nat) list \<Rightarrow> (note_section \<times> nat) list" where
  "bump_section k [] = [(k, 1)]"
| "bump_section k ((l, n) # ps) = (if l = k then (l, n + 1) # ps else (l, n) # bump_section k ps)"

definition schemaCounts :: "schema_diagnosis \<Rightarrow> schema_counts" where
  "schemaCounts d =
     \<lparr>sc_uncited = fold (\<lambda>f. bump_section (uf_section f)) (sd_uncited d) [], sc_other = sd_other d\<rparr>"

definition schemaFailureMessage :: "schema_counts \<Rightarrow> jstring" where
  "schemaFailureMessage c =
     (let sections = map (\<lambda>p. nat_str (snd p) @ js '' in '' @ js (section_name (fst p))) (sc_uncited c);
          total = sum_list (map snd (sc_uncited c));
          reason = (if total \<noteq> 0
            then nat_str total @ js '' fact'' @ (if total = 1 then js '' has'' else js ''s have'') @ js '' no sources (''
              @ join (js '', '') sections @ js '')'' @ (if sc_other c then js '', and the note fails the schema otherwise too'' else [])
            else js ''writer must return the complete note schema'')
      in js ''CONTEXT_NOTE_INVALID: '' @ reason @ js ''. No checkpoint committed; original history retained.'')"

section \<open>Facts\<close>

lemma isRecord_patch: "isRecord v \<Longrightarrow> isRecord (fold (patch_section w) ss v)"
  by (induction ss arbitrary: v) (auto simp: patch_section_def split: jsval.split)

lemma jset_same: "map_of ps (js k) = Some w \<Longrightarrow> jset (JObj ps) k w = JObj ps"
proof -
  have "map_of ps l = Some w \<Longrightarrow> obj_put l w ps = ps" for l by (induction ps) auto
  then show "map_of ps (js k) = Some w \<Longrightarrow> jset (JObj ps) k w = JObj ps" by (simp add: jset_def)
qed

lemma patch_identity:
  assumes "isRecord v" and "\<forall>s. \<forall>x \<in> set (items v s). \<not> lacks_sources x"
  shows "fold (patch_section v) ss v = v"
proof -
  have "patch_section v s v = v" for s
  proof (cases "jfield v (section_name s)")
    case (JArr xs)
    then have "items v s = xs" by (simp add: items_def)
    with assms(2) have "\<forall>x \<in> set xs. \<not> lacks_sources x" by blast
    then have "map patch_item xs = xs" by (intro map_idI) (simp add: patch_item_def)
    moreover obtain ps where v: "v = JObj ps" using assms(1) by (auto simp: isRecord_iff)
    moreover have "map_of ps (js (section_name s)) = Some (JArr xs)"
      using JArr v by (auto simp: jget_JObj split: option.splits)
    ultimately show ?thesis using JArr jset_same by (simp add: patch_section_def)
  qed (simp_all add: patch_section_def)
  then show ?thesis by (induction ss) auto
qed

lemma uncited_Nil: "concat (map (uncited_in v) noteSections) = [] \<longleftrightarrow> (\<forall>s. \<forall>x \<in> set (items v s). \<not> lacks_sources x)"
  using ball_indexed[where P = "\<lambda>x. \<not> lacks_sources x"] by (simp add: uncited_in_def filter_empty_conv)

lemma conforms_sections:
  assumes "conforms len noteSchema v"
  shows "\<forall>f \<in> set (items v s). conforms len fact_schema f"
  using assms by (cases s)
    (auto simp: noteSchema_def conforms_SObject items_def facts_schema_def conforms_SArray split: if_splits)

lemma conforms_fact_sources: "conforms len fact_schema f \<Longrightarrow> \<not> lacks_sources f"
  by (auto simp: fact_schema_def ids_schema_def conforms_SObject conforms_SArray lacks_sources_def split: if_splits)

section \<open>Properties\<close>

text \<open>
  The schema diagnosis is clean exactly for the notes the schema accepts. Under the validator's
  documented behaviour, an answer has no uncited fact and no other fault exactly when it passes the
  note schema; the pending note is then the answer itself.
\<close>

theorem diagnoseSchema_agrees:
  assumes "documented_check h len"
  shows "(sd_uncited (diagnoseSchema h v) = [] \<and> \<not> sd_other (diagnoseSchema h v) \<longleftrightarrow> check h noteSchema v) \<and>
    (check h noteSchema v \<longrightarrow> sd_pending (diagnoseSchema h v) = Some v)"
proof (cases "isRecord v")
  case False
  then have "\<not> check h noteSchema v" using assms noteSchema_isRecord by (auto simp: documented_check_def)
  with False show ?thesis by (simp add: diagnoseSchema_def)
next
  case True
  show ?thesis
  proof (cases "\<forall>s. \<forall>x \<in> set (items v s). \<not> lacks_sources x")
    case clean: True
    then have "concat (map (uncited_in v) noteSections) = []" by (simp only: uncited_Nil)
    then show ?thesis using patch_identity[OF True clean] True
      by (simp add: diagnoseSchema_def Let_def del: concat_eq_Nil_conv)
  next
    case dirty: False
    then have "concat (map (uncited_in v) noteSections) \<noteq> []" unfolding uncited_Nil by simp
    moreover have "\<not> check h noteSchema v"
      using dirty assms conforms_sections conforms_fact_sources unfolding documented_check_def by metis
    ultimately show ?thesis using True by (simp add: diagnoseSchema_def Let_def del: concat_eq_Nil_conv)
  qed
qed

definition uncited_note :: memory_note where
  "uncited_note = note_with_state [obj [(''text'', JStr (js ''x''))]]"

theorem diagnoseSchema_agrees_witness:
  "sd_pending (diagnoseSchema plain_host sample_note) = Some sample_note \<and>
   sd_uncited (diagnoseSchema plain_host uncited_note) \<noteq> []"
proof -
  have "check plain_host noteSchema sample_note" using sample_note_conforms by (simp add: plain_host_def)
  moreover have "sd_uncited (diagnoseSchema plain_host uncited_note) \<noteq> []" by code_simp
  ultimately show ?thesis using diagnoseSchema_agrees[OF plain_host_documented, of sample_note] by blast
qed

end
