(* ===== verification/Note_Envelope.thy ===== *)
theory Note_Envelope
  imports Notes
begin

text \<open>
  \<^bold>\<open>note-envelope.ts\<close>: the two schema envelopes a writer's answer may arrive in, and their removal.
\<close>

definition NOTE_SECTIONS :: "string list" where
  "NOTE_SECTIONS = [''instructions'', ''failedPaths'', ''reasons'', ''state'', ''nextSteps'', ''files'', ''gaps'']"

datatype note_envelope = TypeEnvelope | SchemaEnvelope

definition hasExactly :: "jsval \<Rightarrow> string list \<Rightarrow> bool" where
  "hasExactly v keys \<longleftrightarrow> length (keys_of v) = length keys \<and> list_all (\<lambda>k. js k \<in> set (keys_of v)) keys"

definition removeNoteEnvelope :: "jsval \<Rightarrow> jsval \<times> note_envelope option" where
  "removeNoteEnvelope v =
     (if \<not> isRecord v then (v, None)
      else if as_str (jfield v ''type'') \<noteq> None \<and> hasExactly v (NOTE_SECTIONS @ [''type''])
      then (JObj (js_object (filter (\<lambda>p. fst p \<noteq> js ''type'') (case v of JObj ps \<Rightarrow> ps | _ \<Rightarrow> []))), Some TypeEnvelope)
      else if hasExactly v [''type'', ''properties'', ''required''] \<and> isRecord (jfield v ''properties'')
              \<and> hasExactly (jfield v ''properties'') NOTE_SECTIONS
      then (jfield v ''properties'', Some SchemaEnvelope)
      else (v, None))"

section \<open>Facts\<close>

lemma hasExactly_set:
  assumes "distinct (keys_of v)" and "distinct keys"
  shows "hasExactly v keys \<longleftrightarrow> set (keys_of v) = js ` set keys"
proof -
  have inj: "card (js ` set keys) = length keys"
    using assms(2) by (simp add: card_image inj_on_def distinct_card)
  show ?thesis
  proof
    assume "hasExactly v keys"
    then have "js ` set keys \<subseteq> set (keys_of v)" "card (set (keys_of v)) = card (js ` set keys)"
      using inj distinct_card[OF assms(1)] by (auto simp: hasExactly_def list_all_iff)
    then show "set (keys_of v) = js ` set keys" by (metis List.finite_set card_subset_eq)
  next
    assume e: "set (keys_of v) = js ` set keys"
    then have "length (keys_of v) = length keys" using inj distinct_card[OF assms(1)] by simp
    then show "hasExactly v keys" using e by (auto simp: hasExactly_def list_all_iff)
  qed
qed

lemma NOTE_SECTIONS_facts [simp]: "distinct NOTE_SECTIONS" "''type'' \<notin> set NOTE_SECTIONS" "length NOTE_SECTIONS = 7"
  by (simp_all add: NOTE_SECTIONS_def)

lemma keys_of_JObj [simp]: "keys_of (JObj ps) = map fst ps"
  by (simp add: keys_of_def)

lemma section_not_index: "k \<in> set NOTE_SECTIONS \<Longrightarrow> index_key (js k) = None"
  by (auto simp: NOTE_SECTIONS_def js_def index_key_def)

lemma removed_sections:
  assumes "json_ok v" and "removeNoteEnvelope v = (w, Some e)"
  shows "isRecord w \<and> hasExactly w NOTE_SECTIONS"
proof -
  obtain ps where v: "v = JObj ps" using assms(2) by (auto simp: removeNoteEnvelope_def isRecord_iff split: if_splits)
  have d: "distinct (map fst ps)" using assms(1) v by (auto dest: js_object_fixed_distinct)
  show ?thesis
  proof (cases "as_str (jfield v ''type'') \<noteq> None \<and> hasExactly v (NOTE_SECTIONS @ [''type''])")
    case True
    let ?qs = "filter (\<lambda>p. fst p \<noteq> js ''type'') ps"
    have w: "w = JObj (js_object ?qs)" using assms(2) v True by (auto simp: removeNoteEnvelope_def)
    have k: "set (map fst ps) = js ` set (NOTE_SECTIONS @ [''type''])"
      using True hasExactly_set[of v "NOTE_SECTIONS @ [''type'']"] d v by simp
    have dq: "distinct (map fst ?qs)" using d by (rule distinct_map_filter)
    have "set (map fst ?qs) = set (map fst ps) - {js ''type''}" by auto
    also have "\<dots> = js ` set NOTE_SECTIONS" unfolding k by auto
    finally have keys: "set (map fst ?qs) = js ` set NOTE_SECTIONS" .
    have "set (js_object ?qs) = set ?qs" by (rule mset_eq_setD[OF mset_js_object[OF dq]])
    then have "set (map fst (js_object ?qs)) = js ` set NOTE_SECTIONS" using keys by simp
    then show ?thesis using hasExactly_set[of w NOTE_SECTIONS] js_object_distinct[of ?qs] w by simp
  next
    case False
    have step: "removeNoteEnvelope v = (if hasExactly v [''type'', ''properties'', ''required''] \<and>
        isRecord (jfield v ''properties'') \<and> hasExactly (jfield v ''properties'') NOTE_SECTIONS
        then (jfield v ''properties'', Some SchemaEnvelope) else (v, None))"
      unfolding removeNoteEnvelope_def using v by (subst if_not_P[OF False]) simp
    show ?thesis using assms(2) unfolding step by (cases "hasExactly v [''type'', ''properties'', ''required''] \<and>
        isRecord (jfield v ''properties'') \<and> hasExactly (jfield v ''properties'') NOTE_SECTIONS") simp_all
  qed
qed

lemma sections_unchanged:
  assumes "isRecord v" and "hasExactly v NOTE_SECTIONS"
  shows "removeNoteEnvelope v = (v, None)"
  using assms by (auto simp: removeNoteEnvelope_def hasExactly_def)

section \<open>Properties\<close>

text \<open>
  Removing an envelope uncovers a note or changes nothing. For a JSON value, \<open>removeNoteEnvelope\<close>
  either returns the value itself, or a record whose keys are exactly the seven sections; applying
  it again then changes nothing, so at most one level is ever removed.
\<close>

theorem removeNoteEnvelope_sections:
  assumes "json_ok v"
  shows "(snd (removeNoteEnvelope v) = None \<longrightarrow> fst (removeNoteEnvelope v) = v) \<and>
    (snd (removeNoteEnvelope v) \<noteq> None \<longrightarrow>
       isRecord (fst (removeNoteEnvelope v)) \<and> hasExactly (fst (removeNoteEnvelope v)) NOTE_SECTIONS \<and>
       removeNoteEnvelope (fst (removeNoteEnvelope v)) = (fst (removeNoteEnvelope v), None))"
proof -
  have "snd (removeNoteEnvelope v) = None \<Longrightarrow> fst (removeNoteEnvelope v) = v"
    by (auto simp: removeNoteEnvelope_def split: if_splits)
  moreover have "isRecord (fst (removeNoteEnvelope v)) \<and> hasExactly (fst (removeNoteEnvelope v)) NOTE_SECTIONS"
    if "snd (removeNoteEnvelope v) \<noteq> None"
    using removed_sections[OF assms] that by (metis not_None_eq prod.collapse)
  ultimately show ?thesis using sections_unchanged by blast
qed

theorem removeNoteEnvelope_sections_witness:
  "removeNoteEnvelope (obj [(''type'', JStr (js ''object'')), (''properties'', sample_note), (''required'', JArr [])])
     = (sample_note, Some SchemaEnvelope) \<and> hasExactly sample_note NOTE_SECTIONS"
proof -
  let ?v = "obj [(''type'', JStr (js ''object'')), (''properties'', sample_note), (''required'', JArr [])]"
  have r: "removeNoteEnvelope ?v = (sample_note, Some SchemaEnvelope)" by code_simp
  have "json_ok ?v" by code_simp
  from removeNoteEnvelope_sections[OF this] r show ?thesis by simp
qed

end
