(* ===== verification/Work_Notes.thy ===== *)
theory Work_Notes
  imports Checkpoints Quote_Diagnostics
begin

text \<open>
  \<^bold>\<open>work-notes.ts\<close>: the notes an agent writes while it works, their merge into the previous
  checkpoint's note, and the user messages a notes checkpoint carries.
\<close>

section \<open>The work-note schema\<close>

text \<open>\<open>^[^\r\n\u0085\u2028\u2029]+$\<close>\<close>

definition ONE_LINE :: "jstring \<Rightarrow> bool" where
  "ONE_LINE s \<longleftrightarrow> s \<noteq> [] \<and> list_all (\<lambda>u. \<not> line_break u) s"

definition entryIds :: "nat \<Rightarrow> schema" where
  "entryIds minItems = ids_schema minItems True"

definition work_fact_schema :: schema where
  "work_fact_schema = SObject
     [(''text'', False, SString 1 (Some 4000) ONE_LINE),
      (''sources'', False, entryIds 1),
      (''quote'', True, SString 1 (Some 4000) any_text),
      (''supersedes'', True, entryIds 0)]"

definition work_facts :: "nat \<Rightarrow> schema" where
  "work_facts maxItems = SArray work_fact_schema 0 (Some maxItems) False"

definition workNoteSchema :: schema where
  "workNoteSchema = SObject
     [(''state'', False, SArray work_fact_schema 1 (Some 40) False),
      (''reasons'', True, work_facts 40),
      (''failedPaths'', True, work_facts 40),
      (''files'', True, work_facts 40),
      (''nextSteps'', True, work_facts 5),
      (''gaps'', True, SArray (SString 1 (Some 1000) ONE_LINE) 0 (Some 20) False)]"

section \<open>Validation\<close>

text \<open>\<open>v ?? []\<close>\<close>

definition or_empty :: "jsval \<Rightarrow> jsval" where
  "or_empty v = (if v = JUndef \<or> v = JNull then JArr [] else v)"

definition work_memory :: "jsval \<Rightarrow> memory_note" where
  "work_memory v = obj
     [(''instructions'', JArr []), (''failedPaths'', or_empty (jfield v ''failedPaths'')),
      (''reasons'', or_empty (jfield v ''reasons'')), (''state'', jfield v ''state''),
      (''nextSteps'', or_empty (jfield v ''nextSteps'')), (''files'', or_empty (jfield v ''files'')),
      (''gaps'', or_empty (jfield v ''gaps''))]"

definition validateWorkNote :: "host \<Rightarrow> jsval \<Rightarrow> session_record list \<Rightarrow> memory_note res" where
  "validateWorkNote h v branch =
     (if \<not> check h workNoteSchema v
      then throw CONTEXT_NOTE_INVALID ''CONTEXT_NOTE_INVALID: a work note has state and optional data sections, one line per fact''
      else (case validateNote h (work_memory v) branch 2000 of
          Inr n \<Rightarrow> Inr n
        | Inl e \<Rightarrow>
            if err_code e \<noteq> CONTEXT_NOTE_QUOTE then Inl e
            else let feedback = quoteFeedback (qd_failures (diagnoseQuotes h (work_memory v) branch)) in
              Inl (Err CONTEXT_NOTE_QUOTE
                (if feedback \<noteq> [] then err_message e @ newline @ feedback else err_message e))))"

record work_note_entry =
  wn_index :: nat
  wn_id :: jstring
  wn_note :: memory_note
  wn_gapsListed :: bool

definition work_note_at :: "host \<Rightarrow> session_record list \<Rightarrow> nat \<times> session_record \<Rightarrow> work_note_entry list" where
  "work_note_at h branch p =
     (case r_body (snd p) of
        Custom t d \<Rightarrow>
          if t \<noteq> CONTEXT_NOTE_TYPE then []
          else (case validateWorkNote h d (take (fst p) branch) of
              Inl _ \<Rightarrow> []
            | Inr n \<Rightarrow> [\<lparr>wn_index = fst p, wn_id = r_id (snd p), wn_note = n,
                wn_gapsListed = (isRecord d \<and> jfield d ''gaps'' \<noteq> JUndef)\<rparr>])
      | _ \<Rightarrow> [])"

text \<open>The index after the record \<open>afterId\<close>; the empty and the absent id are falsy.\<close>

definition start_after :: "session_record list \<Rightarrow> jstring option \<Rightarrow> nat" where
  "start_after branch afterId =
     (case afterId of Some (u # i) \<Rightarrow> (case first_at branch (u # i) of Some k \<Rightarrow> Suc k | None \<Rightarrow> 0) | _ \<Rightarrow> 0)"

definition workNotes :: "host \<Rightarrow> session_record list \<Rightarrow> jstring option \<Rightarrow> work_note_entry list" where
  "workNotes h branch afterId =
     concat (map (work_note_at h branch) (drop (start_after branch afterId) (indexed branch)))"

section \<open>Merge\<close>

definition empty_note :: memory_note where
  "empty_note = obj [(''instructions'', JArr []), (''failedPaths'', JArr []), (''reasons'', JArr []), (''state'', JArr []),
     (''nextSteps'', JArr []), (''files'', JArr []), (''gaps'', JArr [])]"

definition merge_sections :: "note_section list" where
  "merge_sections = [FailedPaths, Reasons, State, Files]"

definition superseded_ids :: "memory_note \<Rightarrow> jstring list" where
  "superseded_ids note = dedup (concat (map f_supersedes (all_items note)))"

definition replaced :: "jstring list \<Rightarrow> note_fact \<Rightarrow> bool" where
  "replaced ids f = list_ex (\<lambda>i. i \<in> set ids) (f_sources f)"

definition droppable :: "memory_note \<Rightarrow> memory_note \<Rightarrow> note_fact list" where
  "droppable merged note = items merged FailedPaths @ items merged Reasons @ items merged State @ items merged Files
     @ (if items note NextSteps \<noteq> [] then [] else items merged NextSteps)"

text \<open>A superseded id supports more earlier facts than the note gives in their place.\<close>

definition ambiguous :: "memory_note \<Rightarrow> memory_note \<Rightarrow> jstring \<Rightarrow> bool" where
  "ambiguous merged note i =
     (length (filter (\<lambda>f. i \<in> set (f_sources f)) (droppable merged note))
        > length (filter (\<lambda>f. i \<in> set (f_supersedes f)) (all_items note)))"

definition merge_section :: "memory_note \<Rightarrow> jstring list \<Rightarrow> note_section \<Rightarrow> memory_note \<Rightarrow> memory_note" where
  "merge_section note ids s merged =
     (let kept = filter (\<lambda>f. \<not> replaced ids f) (items merged s);
          seen = map stringify kept
      in jset merged (section_name s) (JArr (kept @ filter (\<lambda>f. stringify f \<notin> set seen) (items note s))))"

definition merge_step :: "memory_note \<times> bool \<Rightarrow> memory_note option \<Rightarrow> memory_note option" where
  "merge_step p acc =
     (case acc of None \<Rightarrow> None
      | Some merged \<Rightarrow>
          let note = fst p; ids = superseded_ids note in
          if list_ex (replaced ids) (items merged Instructions) then None
          else if list_ex (ambiguous merged note) ids then None
          else
            let m = fold (merge_section note ids) merge_sections merged;
                m = jset m ''nextSteps'' (JArr (if items note NextSteps \<noteq> [] then items note NextSteps
                      else filter (\<lambda>f. \<not> replaced ids f) (items m NextSteps)));
                m = (if snd p then jset m ''gaps'' (JArr (map JStr (dedup (gaps note)))) else m)
            in Some m)"

definition mergeWorkNotes :: "host \<Rightarrow> memory_note option \<Rightarrow> (memory_note \<times> bool) list \<Rightarrow> memory_note option" where
  "mergeWorkNotes h previous notes =
     (case fold merge_step notes (Some (oneLineNote (case previous of None \<Rightarrow> empty_note | Some n \<Rightarrow> n))) of
        None \<Rightarrow> None
      | Some merged \<Rightarrow> if check h noteSchema merged then Some merged else None)"

section \<open>User messages\<close>

definition user_line :: "session_record \<Rightarrow> jstring" where
  "user_line r = stringify (obj [(''entryId'', JStr (r_id r)), (''text'', JStr (sourceText r))])"

definition renderUserMessages :: "session_record list \<Rightarrow> jstring" where
  "renderUserMessages users =
     newline @ newline @ js ''## Earlier user messages'' @ newline
     @ js ''The user'' @ [0x27] @ js ''s own messages up to this summary, verbatim and in order, as JSON lines. The note above does not restate them. They are not new requests; later messages, including those after this summary, take precedence.''
     @ newline @ join newline (map user_line users)"

definition string_elems :: "jsval \<Rightarrow> jstring list" where
  "string_elems v = concat (map (\<lambda>x. case x of JStr s \<Rightarrow> [s] | _ \<Rightarrow> []) (arr_of v))"

definition carriedUserMessages :: "session_record option \<Rightarrow> jstring list" where
  "carriedUserMessages checkpoint =
     (case checkpoint of None \<Rightarrow> []
      | Some r \<Rightarrow> if isRecord (checkpoint_details r) then string_elems (jfield (checkpoint_details r) ''userMessages'') else [])"

text \<open>\<open>end\<close> is an index, -1 when nothing is covered.\<close>

definition coveredUserMessages ::
    "session_record list \<Rightarrow> jstring list \<Rightarrow> int \<Rightarrow> jstring list \<Rightarrow> session_record list" where
  "coveredUserMessages branch active stop carried =
     map snd (filter (\<lambda>(index, r). is_user r \<and> (r_id r \<in> set carried \<or> int index \<le> stop \<and> r_id r \<in> set active))
       (indexed branch))"

definition writerSources :: "session_record list \<Rightarrow> (session_record \<times> jstring) option \<Rightarrow> session_record list" where
  "writerSources branch previous =
     (let start = (case previous of None \<Rightarrow> 0
                   | Some (_, covered) \<Rightarrow> (case first_at branch covered of Some k \<Rightarrow> Suc k | None \<Rightarrow> 0));
          carried = carriedUserMessages (map_option fst previous)
      in filter (\<lambda>r. r_id r \<in> set carried) (take start branch) @ drop start branch)"

text \<open>\<open>String(v)\<close>\<close>

fun js_string :: "jsval \<Rightarrow> jstring" where
  "js_string JUndef = js ''undefined''"
| "js_string (JStr s) = s"
| "js_string (JNum JNonFinite) = js ''NaN''"
| "js_string (JArr xs) = join [0x2c] (map (\<lambda>x. if x = JUndef \<or> x = JNull then [] else js_string x) xs)"
| "js_string (JObj ps) = js ''[object Object]''"
| "js_string v = stringify v"

text \<open>The loop over the listed ids: users found so far, last position, until one does not fit.\<close>

fun user_walk :: "session_record list \<Rightarrow> int \<Rightarrow> int \<Rightarrow> jsval list \<Rightarrow> session_record list" where
  "user_walk branch stop prev [] = []"
| "user_walk branch stop prev (i # rest) =
     (let k = (case i of JStr s \<Rightarrow> (case first_at branch s of Some n \<Rightarrow> int n | None \<Rightarrow> -1) | _ \<Rightarrow> -1) in
      if k \<le> prev \<or> k > stop \<or> \<not> is_user (branch ! nat k) then []
      else branch ! nat k # user_walk branch stop k rest)"

definition user_messages_ok :: "session_record list \<Rightarrow> session_record \<Rightarrow> bool" where
  "user_messages_ok branch r =
     (case r_body r of
        Compaction c \<Rightarrow>
          (let d = c_details c in
           if \<not> isRecord d \<or> jfield d ''userMessages'' = JUndef then True
           else
             let ids = arr_of (jfield d ''userMessages'');
                 stop = (case first_at branch (js_string (jfield d ''coveredThrough'')) of Some n \<Rightarrow> int n | None \<Rightarrow> -1);
                 users = user_walk branch stop (-1) ids
             in as_arr (jfield d ''userMessages'') \<noteq> None \<and> ids \<noteq> [] \<and> length users = length ids
                \<and> ends_with (renderUserMessages users) (c_summary c))
      | _ \<Rightarrow> True)"

definition assertUserMessages :: "session_record list \<Rightarrow> unit res" where
  "assertUserMessages branch =
     each (\<lambda>r. if user_messages_ok branch r then Inr ()
       else Inl (Err CONTEXT_NOTE_QUOTE (js ''CONTEXT_NOTE_QUOTE: the checkpoint'' @ [0x27] @ js ''s user messages do not match the originals''))) branch"


section \<open>Facts of a merge\<close>

lemma fold_fact_reads [simp]:
  "f_sources (fold_fact f) = f_sources f" "f_supersedes (fold_fact f) = f_supersedes f"
  "f_quote (fold_fact f) = f_quote f"
proof -
  have other: "k \<noteq> ''text'' \<Longrightarrow> jfield (fold_fact f) k = jfield f k" for k
  proof (cases "isRecord f")
    case False
    then show ?thesis by (cases f) (auto simp: fold_fact_def jset_def isRecord_def)
  qed (simp add: fold_fact_def jfield_jset)
  show "f_sources (fold_fact f) = f_sources f" "f_supersedes (fold_fact f) = f_supersedes f"
    "f_quote (fold_fact f) = f_quote f"
    by (simp_all add: f_sources_def f_supersedes_def f_quote_def other)
qed

lemma fact_evidenced_fold_fact [simp]: "fact_evidenced rs (fold_fact f) = fact_evidenced rs f"
  by (simp add: fact_evidenced_def split: option.splits)

lemma replaced_fold_fact [simp]: "replaced ids (fold_fact f) = replaced ids f"
  by (simp add: replaced_def)

lemma oneLineNote_items:
  assumes "isRecord n"
  shows "items (oneLineNote n) s = map fold_fact (items n s)"
  unfolding oneLineNote_def Let_def items_jset(2)[OF fold_sections_frame(1)[OF assms]]
  by (rule fold_sections_items) (simp_all add: assms distinct_noteSections)

lemma isRecord_oneLineNote: "isRecord n \<Longrightarrow> isRecord (oneLineNote n)"
  by (simp add: oneLineNote_def Let_def fold_sections_frame)

text \<open>The section of a merged note: what is kept of the earlier facts, then the new ones.\<close>

definition merged_facts :: "memory_note \<Rightarrow> note_section \<Rightarrow> memory_note \<Rightarrow> note_fact list" where
  "merged_facts note s merged =
     (let kept = filter (\<lambda>f. \<not> replaced (superseded_ids note) f) (items merged s) in
      if s = Instructions then items merged s
      else if s = NextSteps then (if items note NextSteps \<noteq> [] then items note NextSteps else kept)
      else kept @ filter (\<lambda>f. stringify f \<notin> set (map stringify kept)) (items note s))"

lemma merge_section_eq:
  "merge_section note ids = (\<lambda>s v. jset v (section_name s) (JArr
     (let kept = filter (\<lambda>f. \<not> replaced ids f) (items v s)
      in kept @ filter (\<lambda>f. stringify f \<notin> set (map stringify kept)) (items note s))))"
  by (simp add: fun_eq_iff merge_section_def Let_def)

lemma merge_step_Some:
  assumes "merge_step p (Some merged) = Some m" "isRecord merged"
  shows "isRecord m" "items m s = merged_facts (fst p) s merged"
    "gaps m = (if snd p then dedup (gaps (fst p)) else gaps merged)"
    "list_all (\<lambda>f. \<not> replaced (superseded_ids (fst p)) f) (items merged Instructions)"
proof -
  let ?note = "fst p" and ?ids = "superseded_ids (fst p)"
  let ?a = "fold (merge_section ?note ?ids) merge_sections merged"
  let ?b = "jset ?a ''nextSteps'' (JArr (if items ?note NextSteps \<noteq> [] then items ?note NextSteps
                      else filter (\<lambda>f. \<not> replaced ?ids f) (items ?a NextSteps)))"
  have m: "m = (if snd p then jset ?b ''gaps'' (JArr (map JStr (dedup (gaps ?note)))) else ?b)"
    and instr: "\<not> list_ex (replaced ?ids) (items merged Instructions)"
    using assms(1) by (auto simp: merge_step_def Let_def split: if_splits)
  show "list_all (\<lambda>f. \<not> replaced ?ids f) (items merged Instructions)"
    using instr by (auto simp: list_all_iff list_ex_iff)
  have a: "isRecord ?a" "gaps ?a = gaps merged" "\<And>t. t \<notin> set merge_sections \<Longrightarrow> items ?a t = items merged t"
    unfolding merge_section_eq using fold_sections_frame[OF assms(2)] by auto
  have at: "items ?a t = merged_facts ?note t merged" if "t \<in> set merge_sections" for t
    using that unfolding merge_section_eq
    by (subst fold_sections_items[OF assms(2)]) (auto simp: merge_sections_def merged_facts_def Let_def)
  have b: "isRecord ?b" "gaps ?b = gaps merged"
    using a gaps_jset(1)[of ?a NextSteps] by auto
  have bt: "items ?b t = (if t = NextSteps then merged_facts ?note t merged else items ?a t)" for t
    using items_jset(1)[OF a(1), of NextSteps] a(3)[of NextSteps] by (simp add: merged_facts_def merge_sections_def)
  show "isRecord m" using b by (simp add: m)
  show "gaps m = (if snd p then dedup (gaps ?note) else gaps merged)" using b by (simp add: m gaps_jset)
  have "items m s = items ?b s" using b(1) by (simp add: m items_jset)
  also have "\<dots> = merged_facts ?note s merged"
    using bt[of s] at[of s] a(3)[of s] by (cases s) (auto simp: merged_facts_def merge_sections_def)
  finally show "items m s = merged_facts ?note s merged" .
qed

lemma merged_facts_from: "f \<in> set (merged_facts note s merged) \<Longrightarrow> f \<in> set (items merged s) \<or> f \<in> set (items note s)"
  by (auto simp: merged_facts_def Let_def split: if_splits)

lemma merged_facts_keeps:
  "f \<in> set (items merged s) \<Longrightarrow> \<not> replaced (superseded_ids note) f \<Longrightarrow> s \<noteq> NextSteps \<Longrightarrow> f \<in> set (merged_facts note s merged)"
  by (auto simp: merged_facts_def Let_def)

lemma merge_step_None [simp]: "fold merge_step ns None = None"
  by (induction ns) (simp_all add: merge_step_def)

lemma fold_merge_Some:
  assumes "fold merge_step ns (Some merged) = Some m" "isRecord merged"
  shows "isRecord m \<and> items m Instructions = items merged Instructions \<and>
    (\<forall>s. \<forall>f \<in> set (items m s). f \<in> set (items merged s) \<or> (\<exists>n \<in> fst ` set ns. f \<in> set (items n s))) \<and>
    (\<forall>s. s \<noteq> NextSteps \<longrightarrow> (\<forall>f \<in> set (items merged s).
       (\<forall>n \<in> fst ` set ns. \<not> replaced (superseded_ids n) f) \<longrightarrow> f \<in> set (items m s))) \<and>
    (\<forall>n \<in> fst ` set ns. list_all (\<lambda>f. \<not> replaced (superseded_ids n) f) (items merged Instructions))"
  using assms
proof (induction ns arbitrary: merged)
  case (Cons p ns)
  obtain k where k: "merge_step p (Some merged) = Some k" "fold merge_step ns (Some k) = Some m"
    using Cons.prems(1) by (cases "merge_step p (Some merged)") auto
  note step = merge_step_Some[OF k(1) Cons.prems(2)]
  have instr: "items k Instructions = items merged Instructions" by (simp add: step(2) merged_facts_def)
  from Cons.IH[OF k(2) step(1)] show ?case
    unfolding instr using step(2,4) merged_facts_from merged_facts_keeps by simp metis
qed auto


text \<open>The plan of a merge: the steps of the last note that gives any, or the earlier ones, less what later notes supersede.\<close>

definition unsuperseded :: "(memory_note \<times> bool) list \<Rightarrow> note_fact list \<Rightarrow> note_fact list" where
  "unsuperseded notes fs = filter (\<lambda>f. \<not> list_ex (\<lambda>n. replaced (superseded_ids (fst n)) f) notes) fs"

lemma fold_merge_plan:
  assumes "fold merge_step ns (Some merged) = Some m" "isRecord merged"
  shows "items m NextSteps = (let later = takeWhile (\<lambda>n. items (fst n) NextSteps = []) (rev ns) in
    unsuperseded later (case drop (length later) (rev ns) of [] \<Rightarrow> items merged NextSteps | n # _ \<Rightarrow> items (fst n) NextSteps))"
  using assms
proof (induction ns arbitrary: m rule: rev_induct)
  case (snoc n ns)
  obtain k where k: "fold merge_step ns (Some merged) = Some k" "merge_step n (Some k) = Some m"
    using snoc.prems(1) merge_step_None[of "[n]"] by (cases "fold merge_step ns (Some merged)") simp_all
  have "isRecord k" using fold_merge_Some[OF k(1) snoc.prems(2)] by blast
  note step = merge_step_Some(2)[OF k(2) this, of NextSteps]
  show ?case
    using snoc.IH[OF k(1) snoc.prems(2)]
    by (simp add: step merged_facts_def Let_def unsuperseded_def) (simp add: filter_filter conj_commute)
qed (simp add: unsuperseded_def)

section \<open>Properties of notes and merges\<close>

lemma validateWorkNote_Inr:
  "validateWorkNote h v branch = Inr n \<longleftrightarrow>
     check h workNoteSchema v \<and> n = work_memory v \<and> check h noteSchema n \<and> note_evidenced branch n \<and> noteBytes n \<le> 6000"
proof -
  have "validateWorkNote h v branch = Inr n \<longleftrightarrow> check h workNoteSchema v \<and> validateNote h (work_memory v) branch 2000 = Inr n"
    by (auto simp: validateWorkNote_def Let_def split: sum.splits)
  then show ?thesis by (auto simp: validateNote_Inr)
qed

lemma work_memory_reads:
  "isRecord (work_memory v)" "items (work_memory v) Instructions = []"
  by (simp_all add: work_memory_def isRecord_def items_def obj_def jget_JObj)

text \<open>
  C23: A work note is evidence only when it is valid where it was written. Every entry \<open>workNotes\<close>
  returns stands after the given record, is a context note of the branch, carries no instruction,
  satisfies the note schema and the 2000-token bound, and each of its facts is evidenced by the
  records before it; the entries are in branch order.
\<close>

theorem workNotes_sound:
  "list_all (\<lambda>e. start_after branch afterId \<le> wn_index e \<and> wn_index e < length branch \<and>
       wn_id e = r_id (branch ! wn_index e) \<and>
       (case r_body (branch ! wn_index e) of
          Custom t d \<Rightarrow> t = CONTEXT_NOTE_TYPE \<and> wn_note e = work_memory d \<and> check h workNoteSchema d
        | _ \<Rightarrow> False) \<and>
       items (wn_note e) Instructions = [] \<and> check h noteSchema (wn_note e) \<and> noteBytes (wn_note e) \<le> 6000 \<and>
       note_evidenced (take (wn_index e) branch) (wn_note e))
     (workNotes h branch afterId) \<and>
   sorted_wrt (<) (map wn_index (workNotes h branch afterId))"
proof -
  have sound: "e \<in> set (work_note_at h branch p) \<Longrightarrow> wn_index e = fst p \<and> wn_id e = r_id (snd p) \<and>
       (case r_body (snd p) of
          Custom t d \<Rightarrow> t = CONTEXT_NOTE_TYPE \<and> wn_note e = work_memory d \<and> check h workNoteSchema d
        | _ \<Rightarrow> False) \<and>
       items (wn_note e) Instructions = [] \<and> check h noteSchema (wn_note e) \<and> noteBytes (wn_note e) \<le> 6000 \<and>
       note_evidenced (take (fst p) branch) (wn_note e)" for e p
    by (auto simp: work_note_at_def work_memory_reads split: body.splits if_splits sum.splits
        dest!: validateWorkNote_Inr[THEN iffD1, OF sym])
  have one: "length (work_note_at h branch p) \<le> 1" for p
    by (auto simp: work_note_at_def split: body.splits sum.splits)
  have sorted: "sorted_wrt (<) (map fst ps) \<Longrightarrow> sorted_wrt (<) (map wn_index (concat (map (work_note_at h branch) ps)))" for ps
  proof (induction ps)
    case (Cons p ps)
    have "\<forall>e \<in> set (work_note_at h branch p). \<forall>e' \<in> set (concat (map (work_note_at h branch) ps)). wn_index e < wn_index e'"
    proof (intro ballI)
      fix e e' assume e: "e \<in> set (work_note_at h branch p)" "e' \<in> set (concat (map (work_note_at h branch) ps))"
      then obtain q where q: "q \<in> set ps" "e' \<in> set (work_note_at h branch q)" by auto
      then have "fst p < fst q" using Cons.prems by simp
      then show "wn_index e < wn_index e'" using sound[OF e(1)] sound[OF q(2)] by simp
    qed
    moreover have "sorted_wrt (<) (map wn_index (work_note_at h branch p))"
      using one[of p] by (cases "work_note_at h branch p") auto
    ultimately show ?case using Cons by (auto simp: sorted_wrt_append)
  qed simp
  have range: "(i, r) \<in> set (drop k (indexed branch)) \<Longrightarrow> k \<le> i \<and> i < length branch \<and> branch ! i = r" for i r k
    by (auto simp: in_set_conv_nth)
  have "map fst (drop (start_after branch afterId) (indexed branch)) = [start_after branch afterId..<length branch]"
    by (simp add: indexed_def flip: drop_map)
  then have "sorted_wrt (<) (map wn_index (workNotes h branch afterId))"
    unfolding workNotes_def by (intro sorted) (simp only: sorted_wrt_upt)
  moreover have "\<forall>e \<in> set (workNotes h branch afterId). \<exists>p \<in> set (drop (start_after branch afterId) (indexed branch)).
      e \<in> set (work_note_at h branch p)" by (auto simp: workNotes_def)
  ultimately show ?thesis unfolding list_all_iff using sound range by fastforce
qed

text \<open>
  C22: A merge loses no fact silently and invents none. When \<open>mergeWorkNotes\<close> returns a note, it
  passes the note schema; its instructions are exactly the previous ones, folded to one line; every
  fact of it is a folded previous fact or a fact of a work note, of the same section. A previous
  fact of another section is missing only when some work note supersedes one of its sources, or when it is
  a next step and some work note gives next steps of its own: the plan is replaced as a whole. It is then
  the steps of the last note that gives any, less those that the notes after it supersede; without such a
  note it is the previous steps, less those that a note supersedes.
\<close>

theorem mergeWorkNotes_sound:
  assumes "mergeWorkNotes h (Some p) notes = Some m" and "isRecord p"
  shows "check h noteSchema m \<and>
    items m Instructions = map fold_fact (items p Instructions) \<and>
    (\<forall>s. list_all (\<lambda>f. f \<in> fold_fact ` set (items p s) \<or> list_ex (\<lambda>n. f \<in> set (items (fst n) s)) notes) (items m s)) \<and>
    (\<forall>s. list_all (\<lambda>f. fold_fact f \<in> set (items m s) \<or>
        s \<noteq> Instructions \<and> list_ex (\<lambda>n. replaced (superseded_ids (fst n)) f) notes \<or>
        s = NextSteps \<and> list_ex (\<lambda>n. items (fst n) NextSteps \<noteq> []) notes) (items p s)) \<and>
    items m NextSteps = (let later = takeWhile (\<lambda>n. items (fst n) NextSteps = []) (rev notes) in
      unsuperseded later (case drop (length later) (rev notes) of
          [] \<Rightarrow> map fold_fact (items p NextSteps) | n # _ \<Rightarrow> items (fst n) NextSteps))"
proof -
  have m: "fold merge_step notes (Some (oneLineNote p)) = Some m" "check h noteSchema m"
    using assms(1) by (auto simp: mergeWorkNotes_def split: option.splits if_splits)
  note merged = fold_merge_Some[OF m(1) isRecord_oneLineNote[OF assms(2)], unfolded oneLineNote_items[OF assms(2)]]
  note plan = fold_merge_plan[OF m(1) isRecord_oneLineNote[OF assms(2)], unfolded oneLineNote_items[OF assms(2)]]
  have steps: "fold_fact f \<in> set (items m NextSteps) \<or> list_ex (\<lambda>n. replaced (superseded_ids (fst n)) f) notes"
    if "f \<in> set (items p NextSteps)" "\<not> list_ex (\<lambda>n. items (fst n) NextSteps \<noteq> []) notes" for f
  proof -
    have all: "takeWhile (\<lambda>n. items (fst n) NextSteps = []) (rev notes) = rev notes"
      using that(2) by (simp add: list_ex_iff)
    have "items m NextSteps = unsuperseded (rev notes) (map fold_fact (items p NextSteps))"
      using plan unfolding Let_def all by simp
    then show ?thesis using that(1) by (auto simp: unsuperseded_def list_ex_iff)
  qed
  have "fold_fact f \<in> set (items m s) \<or> s \<noteq> Instructions \<and> list_ex (\<lambda>n. replaced (superseded_ids (fst n)) f) notes"
    if "f \<in> set (items p s)" "s \<noteq> NextSteps" for f s
    using merged that by (fastforce simp: list_ex_iff)
  with steps have kept: "\<forall>s. list_all (\<lambda>f. fold_fact f \<in> set (items m s) \<or>
        s \<noteq> Instructions \<and> list_ex (\<lambda>n. replaced (superseded_ids (fst n)) f) notes \<or>
        s = NextSteps \<and> list_ex (\<lambda>n. items (fst n) NextSteps \<noteq> []) notes) (items p s)"
    unfolding list_all_iff by (metis note_section.distinct)
  have "\<forall>s. list_all (\<lambda>f. f \<in> fold_fact ` set (items p s) \<or> list_ex (\<lambda>n. f \<in> set (items (fst n) s)) notes) (items m s)"
    using merged by (fastforce simp: list_all_iff list_ex_iff)
  with merged m(2) kept plan show ?thesis by blast
qed

text \<open>
  A merge keeps its evidence. Merging notes whose facts are all evidenced by the originals gives
  a note whose facts are all evidenced by the same originals, so the checkpoint needs no writer to
  be supported.
\<close>

theorem mergeWorkNotes_evidenced:
  assumes "mergeWorkNotes h (Some p) notes = Some m" and "isRecord p"
    and "note_evidenced rs p" and "list_all (\<lambda>n. note_evidenced rs (fst n)) notes"
  shows "note_evidenced rs m"
proof -
  have "fold merge_step notes (Some (oneLineNote p)) = Some m"
    using assms(1) by (auto simp: mergeWorkNotes_def split: option.splits if_splits)
  note merged = fold_merge_Some[OF this isRecord_oneLineNote[OF assms(2)]]
  have "fact_evidenced rs f" if "f \<in> set (items m s)" for f s
  proof -
    have "f \<in> fold_fact ` set (items p s) \<or> (\<exists>n \<in> fst ` set notes. f \<in> set (items n s))"
      using merged that unfolding oneLineNote_items[OF assms(2)] by auto
    then show ?thesis using assms(3,4) by (auto simp: note_evidenced_iff list_all_iff)
  qed
  then show ?thesis by (simp add: note_evidenced_iff)
qed

section \<open>Properties of carried user messages\<close>

text \<open>Positions of the branch in order, up to \<open>stop\<close>, each a user message and the first with its id.\<close>

definition user_positions :: "session_record list \<Rightarrow> int \<Rightarrow> int \<Rightarrow> nat list \<Rightarrow> bool" where
  "user_positions branch prev stop ps \<longleftrightarrow>
     sorted_wrt (<) (prev # map int ps) \<and>
     list_all (\<lambda>p. int p \<le> stop \<and> is_user (branch ! p) \<and> first_at branch (r_id (branch ! p)) = Some p) ps"

lemma user_walk_complete:
  assumes "-1 \<le> prev"
  shows "length (user_walk branch stop prev ids) = length ids \<longleftrightarrow>
     (\<exists>ps. user_positions branch prev stop ps \<and> ids = map (\<lambda>p. JStr (r_id (branch ! p))) ps)"
  using assms
proof (induction ids arbitrary: prev)
  case Nil
  show ?case by (auto simp: user_positions_def intro!: exI[of _ "[]"])
next
  case (Cons i ids)
  let ?k = "case i of JStr s \<Rightarrow> (case first_at branch s of Some n \<Rightarrow> int n | None \<Rightarrow> -1) | _ \<Rightarrow> -1"
  have at: "prev < ?k \<longleftrightarrow> (\<exists>p. prev < int p \<and> i = JStr (r_id (branch ! p)) \<and> first_at branch (r_id (branch ! p)) = Some p \<and> ?k = int p)"
  proof
    assume k: "prev < ?k"
    with Cons.prems obtain s p where "i = JStr s" "first_at branch s = Some p"
      by (auto split: jsval.splits option.splits)
    with k first_at_less[of branch s p] show "\<exists>p. prev < int p \<and> i = JStr (r_id (branch ! p)) \<and>
        first_at branch (r_id (branch ! p)) = Some p \<and> ?k = int p" by (auto intro!: exI[of _ p])
  qed auto
  show ?case
  proof (cases "prev < ?k \<and> ?k \<le> stop \<and> is_user (branch ! nat ?k)")
    case True
    then obtain p where p: "prev < int p" "i = JStr (r_id (branch ! p))" "first_at branch (r_id (branch ! p)) = Some p" "?k = int p"
      using at by blast
    have ok: "int p \<le> stop" "is_user (branch ! p)" using True p(4) by (simp_all add: p(4))
    have "length (user_walk branch stop prev (i # ids)) = length (i # ids) \<longleftrightarrow>
        length (user_walk branch stop (int p) ids) = length ids"
      using True by (simp add: Let_def p(2,3))
    also have "\<dots> \<longleftrightarrow> (\<exists>ps. user_positions branch (int p) stop ps \<and> ids = map (\<lambda>p. JStr (r_id (branch ! p))) ps)"
      by (rule Cons.IH) simp
    also have "\<dots> \<longleftrightarrow> (\<exists>ps. user_positions branch prev stop ps \<and> i # ids = map (\<lambda>p. JStr (r_id (branch ! p))) ps)"
      (is "?lhs \<longleftrightarrow> ?rhs")
    proof
      assume ?lhs
      then obtain ps where "user_positions branch (int p) stop ps" "ids = map (\<lambda>p. JStr (r_id (branch ! p))) ps" by blast
      then show ?rhs using p ok by (intro exI[of _ "p # ps"]) (auto simp: user_positions_def)
    next
      assume ?rhs
      then obtain rs where rs: "user_positions branch prev stop rs \<and> i # ids = map (\<lambda>p. JStr (r_id (branch ! p))) rs" ..
      then obtain q qs where q: "user_positions branch prev stop (q # qs)" "i = JStr (r_id (branch ! q))"
        "ids = map (\<lambda>p. JStr (r_id (branch ! p))) qs" by (cases rs) auto
      have "first_at branch (r_id (branch ! q)) = Some q" using q(1) by (simp add: user_positions_def)
      moreover have "r_id (branch ! q) = r_id (branch ! p)" using q(2) p(2) by simp
      ultimately have "q = p" using p(3) by (metis option.inject)
      with q show ?lhs by (intro exI[of _ qs]) (auto simp: user_positions_def)
    qed
    finally show ?thesis .
  next
    case False
    have "length (user_walk branch stop prev (i # ids)) \<noteq> length (i # ids)"
      using False by (simp add: Let_def not_less) blast
    moreover have "\<not> (\<exists>ps. user_positions branch prev stop ps \<and> i # ids = map (\<lambda>p. JStr (r_id (branch ! p))) ps)"
    proof
      assume "\<exists>ps. user_positions branch prev stop ps \<and> i # ids = map (\<lambda>p. JStr (r_id (branch ! p))) ps"
      then obtain rs where rs: "user_positions branch prev stop rs \<and> i # ids = map (\<lambda>p. JStr (r_id (branch ! p))) rs" ..
      then obtain q qs where q: "user_positions branch prev stop (q # qs)" "i = JStr (r_id (branch ! q))"
        by (cases rs) auto
      with False show False by (simp add: user_positions_def)
    qed
    ultimately show ?thesis by blast
  qed
qed

lemma user_walk_positions:
  "user_positions branch prev stop ps \<Longrightarrow> -1 \<le> prev \<Longrightarrow>
   user_walk branch stop prev (map (\<lambda>p. JStr (r_id (branch ! p))) ps) = map ((!) branch) ps"
proof (induction ps arbitrary: prev)
  case (Cons p ps)
  then have "user_positions branch (int p) stop ps" by (auto simp: user_positions_def)
  with Cons show ?case by (simp add: user_positions_def)
qed simp


definition coverage_end :: "session_record list \<Rightarrow> jsval \<Rightarrow> int" where
  "coverage_end branch d =
     (case first_at branch (js_string (jfield d ''coveredThrough'')) of None \<Rightarrow> -1 | Some n \<Rightarrow> int n)"

definition messages_rendered :: "session_record list \<Rightarrow> compaction \<Rightarrow> bool" where
  "messages_rendered branch c \<longleftrightarrow>
     (\<exists>ps front. ps \<noteq> [] \<and> user_positions branch (-1) (coverage_end branch (c_details c)) ps \<and>
        jfield (c_details c) ''userMessages'' = JArr (map (\<lambda>p. JStr (r_id (branch ! p))) ps) \<and>
        c_summary c = front @ renderUserMessages (map ((!) branch) ps))"

lemma user_messages_ok_iff:
  "user_messages_ok branch r \<longleftrightarrow>
     (case r_body r of
        Compaction c \<Rightarrow> if isRecord (c_details c) \<and> jfield (c_details c) ''userMessages'' \<noteq> JUndef
          then messages_rendered branch c else True
      | _ \<Rightarrow> True)"
proof -
  have walk: "as_arr v \<noteq> None \<and> arr_of v \<noteq> [] \<and> length (user_walk branch stop (-1) (arr_of v)) = length (arr_of v) \<and>
        ends_with (renderUserMessages (user_walk branch stop (-1) (arr_of v))) t \<longleftrightarrow>
      (\<exists>ps front. ps \<noteq> [] \<and> user_positions branch (-1) stop ps \<and> v = JArr (map (\<lambda>p. JStr (r_id (branch ! p))) ps) \<and>
         t = front @ renderUserMessages (map ((!) branch) ps))" (is "?l \<longleftrightarrow> ?r") for v stop t
  proof
    assume l: ?l
    then obtain xs where v: "v = JArr xs" by (cases v) auto
    with l obtain ps where ps: "user_positions branch (-1) stop ps" "xs = map (\<lambda>p. JStr (r_id (branch ! p))) ps"
      using user_walk_complete[of "-1" branch stop xs] by auto
    have "user_walk branch stop (-1) (arr_of v) = map ((!) branch) ps"
      using user_walk_positions[OF ps(1)] by (simp add: v ps(2))
    with l ps v show ?r by (auto simp: ends_with_iff)
  next
    assume ?r
    then obtain ps front where ps: "ps \<noteq> []" "user_positions branch (-1) stop ps"
      "v = JArr (map (\<lambda>p. JStr (r_id (branch ! p))) ps)" "t = front @ renderUserMessages (map ((!) branch) ps)" by blast
    with user_walk_positions[OF ps(2)] show ?l by (simp add: ends_with_iff)
  qed
  show ?thesis
  proof (cases "r_body r")
    case (Compaction c)
    show ?thesis
    proof (cases "isRecord (c_details c) \<and> jfield (c_details c) ''userMessages'' \<noteq> JUndef")
      case True
      then show ?thesis
        by (simp only: user_messages_ok_def messages_rendered_def coverage_end_def Compaction body.case Let_def
            walk not_True_eq_False if_False if_True simp_thms)
    qed (auto simp: user_messages_ok_def Compaction)
  qed (simp_all add: user_messages_ok_def)
qed

text \<open>
  C24: User messages in a checkpoint are the user's own words. \<open>assertUserMessages\<close> passes exactly
  when every compaction record that lists user messages lists, in order and without repetition,
  user messages of the branch that stand within its coverage, at least one, and its summary ends
  with their exact rendering.
\<close>

theorem assertUserMessages_exact:
  "assertUserMessages branch = Inr () \<longleftrightarrow>
     list_all (\<lambda>r. case r_body r of
        Compaction c \<Rightarrow> if isRecord (c_details c) \<and> jfield (c_details c) ''userMessages'' \<noteq> JUndef
          then messages_rendered branch c else True
      | _ \<Rightarrow> True) branch"
proof -
  have "assertUserMessages branch = Inr () \<longleftrightarrow> (\<forall>r \<in> set branch. user_messages_ok branch r)"
    by (auto simp: assertUserMessages_def each_Inr split: if_splits)
  then show ?thesis unfolding user_messages_ok_iff list_all_iff .
qed

lemma user_positionsI:
  "sorted_wrt (<) ps \<Longrightarrow> (\<And>p. p \<in> set ps \<Longrightarrow> p \<le> e \<and> is_user (branch ! p) \<and> first_at branch (r_id (branch ! p)) = Some p) \<Longrightarrow>
   user_positions branch (-1) (int e) ps"
  unfolding user_positions_def list_all_iff by (auto simp: sorted_wrt_map)

text \<open>
  C25: What the writer carries is accepted. On a branch with distinct ids, the user messages
  \<open>coveredUserMessages\<close> selects through the covered record, when every carried one lies in that
  range, pass the check of the next validation once their ids are listed and their rendering ends
  the summary.
\<close>

theorem carried_messages_accepted:
  assumes "distinct (map r_id branch)" and "first_at branch covered = Some e"
    and "list_all (\<lambda>i. case first_at branch i of None \<Rightarrow> True | Some k \<Rightarrow> k \<le> e) carried"
    and "coveredUserMessages branch active (int e) carried \<noteq> []"
    and "r_body r = Compaction c" and "isRecord (c_details c)"
    and "jfield (c_details c) ''coveredThrough'' = JStr covered"
    and "jfield (c_details c) ''userMessages'' = JArr (map (JStr \<circ> r_id) (coveredUserMessages branch active (int e) carried))"
    and "c_summary c = front @ renderUserMessages (coveredUserMessages branch active (int e) carried)"
  shows "user_messages_ok branch r"
proof -
  let ?p = "\<lambda>(i, r). is_user r \<and> (r_id r \<in> set carried \<or> int i \<le> int e \<and> r_id r \<in> set active)"
  let ?ps = "map fst (filter ?p (indexed branch))"
  have users: "coveredUserMessages branch active (int e) carried = map ((!) branch) ?ps"
    unfolding coveredUserMessages_def by (auto simp: in_set_indexed)
  have first: "first_at branch (r_id (branch ! k)) = Some k" if "k < length branch" for k
    using first_at_distinct[OF assms(1) that] .
  have "sorted_wrt (<) ?ps"
  proof -
    have "sorted_wrt (\<lambda>p q. fst p < fst q) (indexed branch)"
      unfolding indexed_def sorted_wrt_iff_nth_less by auto
    then show ?thesis unfolding sorted_wrt_map by (rule sorted_wrt_filter)
  qed
  moreover have "p \<le> e \<and> is_user (branch ! p) \<and> p < length branch" if "p \<in> set ?ps" for p
  proof -
    have p: "p < length branch" "is_user (branch ! p)" "r_id (branch ! p) \<in> set carried \<or> p \<le> e"
      using that by (auto simp: in_set_indexed)
    have "p \<le> e" if "r_id (branch ! p) \<in> set carried"
    proof -
      have "case first_at branch (r_id (branch ! p)) of None \<Rightarrow> True | Some k \<Rightarrow> k \<le> e"
        using assms(3) that unfolding list_all_iff by blast
      then show ?thesis by (simp add: first[OF p(1)])
    qed
    with p show ?thesis by blast
  qed
  ultimately have pos: "user_positions branch (-1) (int e) ?ps"
    using first by (intro user_positionsI) blast+
  have end_is: "coverage_end branch (c_details c) = int e" by (simp add: coverage_end_def assms(2,7))
  have "user_positions branch (-1) (coverage_end branch (c_details c)) ?ps" unfolding end_is by (rule pos)
  moreover have "?ps \<noteq> []" using assms(4) unfolding users by blast
  moreover have "jfield (c_details c) ''userMessages'' = JArr (map (\<lambda>p. JStr (r_id (branch ! p))) ?ps)"
    unfolding assms(8) users by simp
  moreover have "c_summary c = front @ renderUserMessages (map ((!) branch) ?ps)"
    unfolding assms(9) users ..
  ultimately have "messages_rendered branch c"
    unfolding messages_rendered_def by (intro exI[of _ ?ps] exI[of _ front] conjI)
  then show ?thesis by (simp add: user_messages_ok_iff assms(5))
qed


section \<open>Witnesses\<close>

definition sample_work_note :: memory_note where
  "sample_work_note = note_with_state
     [obj [(''text'', JStr (js ''y'')), (''sources'', JArr [JStr (js ''u2'')]), (''supersedes'', JArr [JStr (js ''u1'')])]]"

definition sample_branch2 :: "session_record list" where
  "sample_branch2 = [sample_user, text_record ''u2'' ''user'' ''b'']"

lemma sample_merge: "mergeWorkNotes plain_host (Some sample_note) [(sample_work_note, False)] = Some sample_work_note"
  by code_simp

text \<open>A first work note gives a plan of two steps; a second one supersedes a step of it and a fact of the note.\<close>

definition plain_fact :: "string \<Rightarrow> string \<Rightarrow> string list \<Rightarrow> note_fact" where
  "plain_fact t source ids = obj ([(''text'', JStr (js t)), (''sources'', JArr [JStr (js source)])] @
     (if ids = [] then [] else [(''supersedes'', JArr (map (JStr \<circ> js) ids))]))"

definition note_with_plan :: "note_fact list \<Rightarrow> note_fact list \<Rightarrow> memory_note" where
  "note_with_plan facts steps = jset (note_with_state facts) ''nextSteps'' (JArr steps)"

definition planned_before :: memory_note where
  "planned_before = note_with_plan [plain_fact ''w'' ''u1'' [], plain_fact ''x'' ''u2'' []] [plain_fact ''p'' ''u3'' []]"

definition planned_notes :: "(memory_note \<times> bool) list" where
  "planned_notes = [(note_with_plan [] [plain_fact ''a'' ''u4'' [], plain_fact ''b'' ''u5'' []], False),
     (note_with_plan [plain_fact ''c'' ''u6'' [''u2''], plain_fact ''d'' ''u6'' [''u4'']] [], False)]"

definition planned_after :: memory_note where
  "planned_after = note_with_plan [plain_fact ''w'' ''u1'' [], plain_fact ''c'' ''u6'' [''u2''], plain_fact ''d'' ''u6'' [''u4'']]
     [plain_fact ''b'' ''u5'' []]"

lemma planned_merge: "mergeWorkNotes plain_host (Some planned_before) planned_notes = Some planned_after"
  by code_simp

theorem mergeWorkNotes_sound_witness:
  "list_all (\<lambda>f. fold_fact f \<in> set (items planned_after State) \<or> list_ex (\<lambda>n. replaced (superseded_ids (fst n)) f) planned_notes)
     (items planned_before State) \<and>
   items planned_after NextSteps = unsuperseded [planned_notes ! 1] [plain_fact ''a'' ''u4'' [], plain_fact ''b'' ''u5'' []]"
proof -
  have "isRecord planned_before" by code_simp
  note sound = mergeWorkNotes_sound[OF planned_merge this]
  have later: "takeWhile (\<lambda>n. items (fst n) NextSteps = []) (rev planned_notes) = [planned_notes ! 1]"
    "drop 1 (rev planned_notes) = [planned_notes ! 0]" "items (fst (planned_notes ! 0)) NextSteps = [plain_fact ''a'' ''u4'' [], plain_fact ''b'' ''u5'' []]"
    by code_simp+
  have "items planned_after NextSteps = unsuperseded [planned_notes ! 1] [plain_fact ''a'' ''u4'' [], plain_fact ''b'' ''u5'' []]"
    using sound later by (simp only: Let_def) simp
  moreover have "list_all (\<lambda>f. fold_fact f \<in> set (items planned_after State) \<or>
      list_ex (\<lambda>n. replaced (superseded_ids (fst n)) f) planned_notes) (items planned_before State)"
    using sound[THEN conjunct2, THEN conjunct2, THEN conjunct2, THEN conjunct1, THEN spec[of _ State]]
    by (auto simp: list_all_iff)
  ultimately show ?thesis by (intro conjI)
qed

theorem mergeWorkNotes_evidenced_witness: "note_evidenced sample_branch2 sample_work_note"
  by (rule mergeWorkNotes_evidenced[OF sample_merge]) code_simp+

definition sample_carry :: compaction where
  "sample_carry = \<lparr>c_summary = js ''S'' @ renderUserMessages sample_branch2, c_firstKeptEntryId = js ''u1'', c_tokensBefore = JInt 1,
       c_details = obj [(''coveredThrough'', JStr (js ''u2'')), (''userMessages'', JArr [JStr (js ''u1''), JStr (js ''u2'')])]\<rparr>"

lemma sample_carried: "coveredUserMessages sample_branch2 [js ''u2''] (int 1) [js ''u1''] = sample_branch2"
  by (simp add: coveredUserMessages_def sample_branch2_def indexed_def)

theorem carried_messages_accepted_witness:
  "user_messages_ok sample_branch2 \<lparr>r_id = js ''c'', r_parent = None, r_time = [], r_body = Compaction sample_carry, r_native = JObj []\<rparr>"
proof (rule carried_messages_accepted[where covered = "js ''u2''" and e = 1 and carried = "[js ''u1'']" and active = "[js ''u2'']"
      and front = "js ''S''" and c = sample_carry], unfold sample_carried)
  show "sample_branch2 \<noteq> []" by (simp add: sample_branch2_def)
  show "c_summary sample_carry = js ''S'' @ renderUserMessages sample_branch2" by (simp add: sample_carry_def)
  show "r_body \<lparr>r_id = js ''c'', r_parent = None, r_time = [], r_body = Compaction sample_carry, r_native = JObj []\<rparr> = Compaction sample_carry"
    by simp
qed (code_simp+)

end
