(* ===== verification/Text_Scan.thy ===== *)
theory Text_Scan
  imports Host
begin

text \<open>
  Text scanning shared by the components whose source uses regular expressions with the \<open>u\<close> flag: the
  characters of a string (a surrogate pair is one, a lone surrogate is one), the code point of a
  character, and the maximal runs of a class.
\<close>

fun chars :: "jstring \<Rightarrow> jstring list" where
  "chars [] = []"
| "chars [u] = [[u]]"
| "chars (u # v # s) = (if high_surrogate u \<and> low_surrogate v then [u, v] # chars s else [u] # chars (v # s))"

definition char_point :: "jstring \<Rightarrow> nat" where
  "char_point c = (case c of [u, v] \<Rightarrow> pair_point u v | u # _ \<Rightarrow> unit_point u | [] \<Rightarrow> 0)"

lemma concat_chars [simp]: "concat (chars s) = s"
  by (induction s rule: chars.induct) auto

lemma length_chars_le: "length (chars s) \<le> length s"
  by (induction s rule: chars.induct) auto

text \<open>The class \<open>[\p{L}\p{N}_./:-]\<close> of a search word.\<close>

definition hint_char :: "host \<Rightarrow> jstring \<Rightarrow> bool" where
  "hint_char h c \<longleftrightarrow> word_point h (char_point c) \<or> c \<in> {[0x5f], [0x2e], [0x2f], [0x3a], [0x2d]}"

text \<open>The maximal runs of elements with \<open>p\<close>, in order.\<close>

function runs :: "('a \<Rightarrow> bool) \<Rightarrow> 'a list \<Rightarrow> 'a list list" where
  "runs p [] = []"
| "runs p (x # xs) = (if p x then (x # takeWhile p xs) # runs p (dropWhile p xs) else runs p xs)"
  by pat_completeness auto
termination
  by (relation "measure (length \<circ> snd)") (auto simp: length_dropWhile_le less_Suc_eq_le)

lemma list_all_takeWhile: "list_all p (takeWhile p xs)"
  by (induction xs) auto

lemma runs_all: "r \<in> set (runs p xs) \<Longrightarrow> r \<noteq> [] \<and> list_all p r"
proof (induction p xs rule: runs.induct)
  case (2 p x xs)
  then show ?case by (cases "p x") (auto simp: list_all_takeWhile)
qed simp

lemma concat_runs: "concat (runs p xs) = filter p xs"
proof (induction p xs rule: runs.induct)
  case (2 p x xs)
  have "filter p xs = takeWhile p xs @ filter p (dropWhile p xs)"
    by (metis filter_append takeWhile_dropWhile_id filter_True set_takeWhileD)
  with 2 show ?case by (cases "p x") auto
qed simp

lemma runs_infix: "r \<in> set (runs p xs) \<Longrightarrow> \<exists>a b. xs = a @ r @ b"
proof (induction p xs rule: runs.induct)
  case (2 p x xs)
  show ?case
  proof (cases "p x")
    case True
    from 2(3) True consider "r = x # takeWhile p xs" | "r \<in> set (runs p (dropWhile p xs))" by auto
    then show ?thesis
    proof cases
      case 1
      then have "x # xs = [] @ r @ dropWhile p xs" by simp
      then show ?thesis by blast
    next
      case 2
      then obtain a b where "dropWhile p xs = a @ r @ b" using "2.IH"(1) True by blast
      then have "x # xs = (x # takeWhile p xs @ a) @ r @ b" by (metis append.assoc append_Cons takeWhile_dropWhile_id)
      then show ?thesis by blast
    qed
  next
    case False
    then obtain a b where "xs = a @ r @ b" using 2 by auto
    then have "x # xs = (x # a) @ r @ b" by simp
    then show ?thesis by blast
  qed
qed simp

end
