(* ===== verification/Quote_Repair.thy ===== *)
theory Quote_Repair
  imports Text_Scan Quote_Diagnostics Schema_Diagnostics
begin

text \<open>
  \<^bold>\<open>quote-repair.ts\<close>: the one request that asks the writer to correct failing quotations, and the
  splice of its answer into the candidate. The splice is an instance of the locale \<open>splice\<close>, the
  contract it shares with the sources repair: one fact is replaced, everything else stays.
\<close>

section \<open>Schema\<close>

definition QUOTE_REPAIR_MAX_FACTS :: nat where "QUOTE_REPAIR_MAX_FACTS = 5"
definition EXCERPT_CHARS :: nat where "EXCERPT_CHARS = 1600"
definition CITED_EXCERPTS :: nat where "CITED_EXCERPTS = 3"

definition sectionSchema :: schema where
  "sectionSchema = SUnion (map (\<lambda>s. SLiteral (js s))
     [''instructions'', ''failedPaths'', ''reasons'', ''state'', ''nextSteps'', ''files''])"

definition quoteRepairSchema :: schema where
  "quoteRepairSchema = SObject
     [(''repairs'', False, SArray (SObject
        [(''section'', False, sectionSchema), (''index'', False, SInteger 0),
         (''fact'', False, SUnion [fact_schema, SNull])]) 1 (Some QUOTE_REPAIR_MAX_FACTS) False)]"

record quote_repair_outcome =
  qo_requoted :: nat
  qo_unquoted :: nat
  qo_dropped :: nat
  qo_droppedFrom :: "(note_section \<times> nat) list"

definition quoteRepairEligible :: "quote_diagnosis \<Rightarrow> bool" where
  "quoteRepairEligible d \<longleftrightarrow>
     \<not> qd_unreadable d \<and> 0 < length (qd_failures d) \<and> length (qd_failures d) \<le> QUOTE_REPAIR_MAX_FACTS"

section \<open>The request\<close>

record quote_excerpt =
  ex_entryId :: jstring
  ex_role :: jstring
  ex_offset :: nat
  ex_complete :: bool
  ex_text :: jstring

text \<open>\<open>quote.match(/[\p{L}\p{N}_./:-]{4,}/gu)\<close>: the runs of at least four such characters.\<close>

definition hint_words :: "host \<Rightarrow> jstring \<Rightarrow> jstring list" where
  "hint_words h quoted =
     sort_key (\<lambda>w. - int (length w)) (map concat (filter (\<lambda>r. 4 \<le> length r) (runs (hint_char h) (chars quoted))))"

fun first_hit :: "jstring \<Rightarrow> jstring list \<Rightarrow> nat" where
  "first_hit t [] = 0"
| "first_hit t (w # ws) = (case index_of w t of Some hit \<Rightarrow> hit | None \<Rightarrow> first_hit t ws)"

definition repair_anchor :: "host \<Rightarrow> jstring \<Rightarrow> jstring \<Rightarrow> nat" where
  "repair_anchor h t quoted = (case index_of quoted t of Some exact \<Rightarrow> exact | None \<Rightarrow> first_hit t (hint_words h quoted))"

definition excerpt :: "host \<Rightarrow> session_record \<Rightarrow> jstring \<Rightarrow> quote_excerpt" where
  "excerpt h r quoted =
     (let t = sourceText r in
      if length t \<le> EXCERPT_CHARS
      then \<lparr>ex_entryId = r_id r, ex_role = sourceRole r, ex_offset = 0, ex_complete = True, ex_text = t\<rparr>
      else
        let start = nat (max 0 (min (int (length t) - int EXCERPT_CHARS) (int (repair_anchor h t quoted) - int (EXCERPT_CHARS div 4))))
        in \<lparr>ex_entryId = r_id r, ex_role = sourceRole r, ex_offset = start, ex_complete = False,
             ex_text = slice start (start + EXCERPT_CHARS) t\<rparr>)"

definition excerpt_json :: "quote_excerpt \<Rightarrow> jsval" where
  "excerpt_json e = obj
     [(''entryId'', JStr (ex_entryId e)), (''role'', JStr (ex_role e)), (''offset'', JNum (JInt (int (ex_offset e)))),
      (''complete'', JBool (ex_complete e)), (''text'', JStr (ex_text e))]"

fun kind_name :: "quote_failure_kind \<Rightarrow> string" where
  "kind_name Elsewhere = ''elsewhere''"
| "kind_name Format = ''format''"
| "kind_name Absent = ''absent''"

definition shown_excerpts :: "host \<Rightarrow> session_record list \<Rightarrow> jstring list \<Rightarrow> jstring \<Rightarrow> jsval" where
  "shown_excerpts h branch ids quoted =
     JArr (concat (map (\<lambda>i. case last_with_id branch i of None \<Rightarrow> [] | Some r \<Rightarrow> [excerpt_json (excerpt h r quoted)]) ids))"

definition item_at :: "memory_note \<Rightarrow> note_section \<Rightarrow> nat \<Rightarrow> jsval" where
  "item_at n s i = (case nth_opt (items n s) i of None \<Rightarrow> JUndef | Some f \<Rightarrow> f)"

definition failing_json :: "host \<Rightarrow> memory_note \<Rightarrow> session_record list \<Rightarrow> quote_failure \<Rightarrow> jsval" where
  "failing_json h v branch f = obj
     [(''section'', JStr (js (section_name (qf_section f)))), (''index'', JNum (JInt (int (qf_index f)))),
      (''problem'', JStr (js (kind_name (qf_kind f)))), (''fact'', item_at v (qf_section f) (qf_index f)),
      (''cited'', shown_excerpts h branch (take CITED_EXCERPTS (qf_cited f)) (qf_quote f)),
      (''foundIn'', shown_excerpts h branch (map ql_entryId (qf_foundIn f)) (qf_quote f))]"

definition quoteRepairPrompt :: "host \<Rightarrow> memory_note \<Rightarrow> quote_failure list \<Rightarrow> session_record list \<Rightarrow> jstring" where
  "quoteRepairPrompt h v failures branch =
     stringify (obj [(''failing'', JArr (map (failing_json h v branch) failures))])"

section \<open>The answer\<close>

text \<open>\<open>v ?? d\<close>\<close>

definition nullish :: "jsval \<Rightarrow> jsval \<Rightarrow> jsval" where
  "nullish v d = (if v = JUndef \<or> v = JNull then d else v)"

definition sameFact :: "note_fact \<Rightarrow> note_fact \<Rightarrow> bool" where
  "sameFact before after \<longleftrightarrow>
     jfield after ''text'' = jfield before ''text'' \<and>
     stringify (nullish (jfield after ''supersedes'') (JArr [])) = stringify (nullish (jfield before ''supersedes'') (JArr []))"

text \<open>A repair as the schema reads it; a name outside the schema's six cannot pass it.\<close>

record fact_repair =
  fr_section :: note_section
  fr_index :: nat
  fr_value :: jsval

definition section_of :: "jstring \<Rightarrow> note_section" where
  "section_of t = (case find (\<lambda>s. js (section_name s) = t) noteSections of Some s \<Rightarrow> s | None \<Rightarrow> Files)"

definition index_of_num :: "jsval \<Rightarrow> nat" where
  "index_of_num v = (case v of JNum (JInt i) \<Rightarrow> nat i | _ \<Rightarrow> 0)"

definition repair_of :: "string \<Rightarrow> jsval \<Rightarrow> fact_repair" where
  "repair_of field v = \<lparr>fr_section = section_of (str_of (jfield v ''section'')),
     fr_index = index_of_num (jfield v ''index''), fr_value = jfield v field\<rparr>"

definition repairs_of :: "string \<Rightarrow> jsval \<Rightarrow> fact_repair list" where
  "repairs_of field response = map (repair_of field) (arr_of (jfield response ''repairs''))"

text \<open>The text \<open>section:index\<close> that names a fact.\<close>

definition fact_key :: "note_section \<Rightarrow> nat \<Rightarrow> jstring" where
  "fact_key s i = js (section_name s) @ [0x3a] @ nat_str i"

definition repair_key :: "fact_repair \<Rightarrow> jstring" where
  "repair_key r = fact_key (fr_section r) (fr_index r)"

text \<open>Each wanted key answered, and answered once.\<close>

definition keys_match :: "jstring list \<Rightarrow> jstring list \<Rightarrow> bool" where
  "keys_match wanted given \<longleftrightarrow>
     \<not> (card (set given) \<noteq> length given \<or> card (set given) \<noteq> card (set wanted) \<or> list_ex (\<lambda>k. k \<notin> set given) (dedup wanted))"

definition put_fact :: "fact_repair \<Rightarrow> memory_note \<Rightarrow> memory_note" where
  "put_fact r n = jset n (section_name (fr_section r)) (JArr ((items n (fr_section r))[fr_index r := fr_value r]))"

record repair_state =
  qs_note :: memory_note
  qs_outcome :: quote_repair_outcome
  qs_removed :: "(note_section \<times> nat) list"

definition count_drop :: "note_section \<Rightarrow> quote_repair_outcome \<Rightarrow> quote_repair_outcome" where
  "count_drop s out =
     out\<lparr>qo_dropped := qo_dropped out + 1, qo_droppedFrom := bump_section s (qo_droppedFrom out)\<rparr>"

definition count_kept :: "note_fact \<Rightarrow> quote_repair_outcome \<Rightarrow> quote_repair_outcome" where
  "count_kept f out =
     (if f_quote f \<noteq> None then out\<lparr>qo_requoted := qo_requoted out + 1\<rparr> else out\<lparr>qo_unquoted := qo_unquoted out + 1\<rparr>)"

definition repair_step :: "memory_note \<Rightarrow> jstring list \<Rightarrow> fact_repair \<Rightarrow> repair_state \<Rightarrow> repair_state res" where
  "repair_step v userRuling r st =
     (if fr_value r = JNull then
        if fr_section r = Instructions \<and> repair_key r \<in> set userRuling
        then throw CONTEXT_NOTE_REPAIR_LOSS ''CONTEXT_NOTE_REPAIR_LOSS: a quotation repair may not withdraw an instruction whose quotation a user message contains; no checkpoint committed''
        else Inr (st\<lparr>qs_outcome := count_drop (fr_section r) (qs_outcome st),
               qs_removed := qs_removed st @ [(fr_section r, fr_index r)]\<rparr>)
      else (case nth_opt (items v (fr_section r)) (fr_index r) of
          None \<Rightarrow> throw TypeErr ''Cannot read properties of undefined''
        | Some before \<Rightarrow>
            if \<not> sameFact before (fr_value r)
            then throw CONTEXT_NOTE_REPAIR_LOSS ''CONTEXT_NOTE_REPAIR_LOSS: a quotation repair may change only sources and quote; no checkpoint committed''
            else Inr (st\<lparr>qs_note := put_fact r (qs_note st), qs_outcome := count_kept (fr_value r) (qs_outcome st)\<rparr>)))"

fun repair_loop :: "memory_note \<Rightarrow> jstring list \<Rightarrow> fact_repair list \<Rightarrow> repair_state \<Rightarrow> repair_state res" where
  "repair_loop v userRuling [] st = Inr st"
| "repair_loop v userRuling (r # rs) st = bind_res (repair_step v userRuling r st) (repair_loop v userRuling rs)"

definition drop_facts :: "(note_section \<times> nat) list \<Rightarrow> note_section \<Rightarrow> memory_note \<Rightarrow> memory_note" where
  "drop_facts removed s n =
     jset n (section_name s) (JArr (map snd (filter (\<lambda>p. (s, fst p) \<notin> set removed) (indexed (items n s)))))"

definition empty_outcome :: quote_repair_outcome where
  "empty_outcome = \<lparr>qo_requoted = 0, qo_unquoted = 0, qo_dropped = 0, qo_droppedFrom = []\<rparr>"

definition applyQuoteRepair ::
    "host \<Rightarrow> memory_note \<Rightarrow> quote_failure list \<Rightarrow> jsval \<Rightarrow> (memory_note \<times> quote_repair_outcome) res" where
  "applyQuoteRepair h v failures response =
     (if \<not> check h quoteRepairSchema response
      then throw CONTEXT_NOTE_INVALID ''CONTEXT_NOTE_INVALID: the quotation repair did not return its schema''
      else
        let repairs = repairs_of ''fact'' response;
            failure_key = (\<lambda>f. fact_key (qf_section f) (qf_index f));
            wanted = map failure_key failures;
            userRuling = map failure_key (filter (\<lambda>f. list_ex (\<lambda>l. ql_role l = js ''user'') (qf_foundIn f)) failures)
        in if \<not> keys_match wanted (map repair_key repairs)
           then throw CONTEXT_NOTE_INVALID ''CONTEXT_NOTE_INVALID: the quotation repair must answer each failing fact exactly once''
           else bind_res (repair_loop v userRuling repairs \<lparr>qs_note = v, qs_outcome = empty_outcome, qs_removed = []\<rparr>)
             (\<lambda>st. Inr (fold (drop_facts (qs_removed st)) (dedup (map fst (qs_removed st))) (qs_note st), qs_outcome st)))"


section \<open>The splice contract\<close>

text \<open>
  One answer replaces the fact at its place by a function of it and leaves every other fact and the gaps
  as they are. Several answers at distinct places then act independently, whatever their order.
\<close>

locale splice =
  fixes place :: "'r \<Rightarrow> note_section \<times> nat"
    and new_fact :: "'r \<Rightarrow> note_fact \<Rightarrow> note_fact"
    and put :: "'r \<Rightarrow> memory_note \<Rightarrow> memory_note"
  assumes put_record: "isRecord n \<Longrightarrow> isRecord (put r n)"
    and put_gaps: "isRecord n \<Longrightarrow> gaps (put r n) = gaps n"
    and put_items: "isRecord n \<Longrightarrow> snd (place r) < length (items n (fst (place r))) \<Longrightarrow>
      items (put r n) s = (if s = fst (place r)
        then (items n s)[snd (place r) := new_fact r (items n s ! snd (place r))] else items n s)"
begin

definition answer_at :: "'r list \<Rightarrow> note_section \<Rightarrow> nat \<Rightarrow> 'r option" where
  "answer_at rs s i = find (\<lambda>r. place r = (s, i)) rs"

definition in_range :: "memory_note \<Rightarrow> 'r \<Rightarrow> bool" where
  "in_range n r \<longleftrightarrow> snd (place r) < length (items n (fst (place r)))"

lemma answer_at_None: "answer_at rs s i = None \<longleftrightarrow> (s, i) \<notin> set (map place rs)"
  by (auto simp: answer_at_def find_None_iff image_iff)

lemma put_length: "isRecord n \<Longrightarrow> in_range n r \<Longrightarrow> length (items (put r n) s) = length (items n s)"
  by (auto simp: put_items in_range_def)

lemma put_nth:
  "isRecord n \<Longrightarrow> in_range n r \<Longrightarrow> i < length (items n s) \<Longrightarrow>
   items (put r n) s ! i = (if place r = (s, i) then new_fact r (items n s ! i) else items n s ! i)"
  by (cases "place r") (auto simp: put_items in_range_def nth_list_update)

theorem splices:
  assumes "isRecord n" "list_all (in_range n) rs" "distinct (map place rs)"
  shows "isRecord (fold put rs n) \<and> gaps (fold put rs n) = gaps n \<and>
    length (items (fold put rs n) s) = length (items n s) \<and>
    (i < length (items n s) \<longrightarrow> items (fold put rs n) s ! i =
       (case answer_at rs s i of None \<Rightarrow> items n s ! i | Some r \<Rightarrow> new_fact r (items n s ! i)))"
  using assms
proof (induction rs arbitrary: n)
  case Nil
  then show ?case by (simp add: answer_at_def)
next
  case (Cons r rs)
  have r: "in_range n r" using Cons.prems by simp
  have "list_all (in_range (put r n)) rs"
    using Cons.prems(2) put_length[OF Cons.prems(1) r] by (auto simp: in_range_def list_all_iff)
  note IH = Cons.IH[OF put_record[OF Cons.prems(1)] this]
  have "answer_at (r # rs) s i = (if place r = (s, i) then Some r else answer_at rs s i)" by (simp add: answer_at_def)
  moreover have "place r = (s, i) \<Longrightarrow> answer_at rs s i = None"
    using Cons.prems(3) by (auto simp: answer_at_None image_iff)
  ultimately show ?case
    using IH Cons.prems(3) put_nth[OF Cons.prems(1) r, of i s] put_length[OF Cons.prems(1) r, of s] put_gaps[OF Cons.prems(1)]
    by (auto split: option.splits)
qed

end

definition repair_place :: "fact_repair \<Rightarrow> note_section \<times> nat" where
  "repair_place r = (fr_section r, fr_index r)"

interpretation quoted: splice repair_place "\<lambda>r _. fr_value r" put_fact
  by unfold_locales (auto simp: put_fact_def repair_place_def items_jset gaps_jset)

section \<open>Keys\<close>

lemma nat_str_inj [simp]: "nat_str m = nat_str n \<longleftrightarrow> m = n"
  by (metis digits_value_nat_str option.inject)

lemma fact_key_inj [simp]: "fact_key s i = fact_key t j \<longleftrightarrow> s = t \<and> i = j"
proof
  have colon: "takeWhile (\<lambda>u. u \<noteq> 0x3a) (fact_key s i) = js (section_name s)" for s i
    unfolding fact_key_def by (cases s) (simp_all add: js_def)
  assume eq: "fact_key s i = fact_key t j"
  then have "js (section_name s) = js (section_name t)" by (metis colon)
  with eq show "s = t \<and> i = j" by (simp add: fact_key_def)
qed simp

lemma keys_match_iff:
  "keys_match wanted given \<longleftrightarrow> distinct given \<and> set given = set wanted"
proof -
  have "card (set given) = card (set wanted) \<Longrightarrow> set wanted \<subseteq> set given \<Longrightarrow> set wanted = set given"
    using card_subset_eq[of "set given" "set wanted"] by auto
  then show ?thesis
    by (auto simp: keys_match_def list_ex_iff card_distinct) (metis distinct_card)+
qed

section \<open>The loop\<close>

definition repair_allowed :: "memory_note \<Rightarrow> jstring list \<Rightarrow> fact_repair \<Rightarrow> bool" where
  "repair_allowed v userRuling r \<longleftrightarrow>
     (if fr_value r = JNull then \<not> (fr_section r = Instructions \<and> repair_key r \<in> set userRuling)
      else fr_index r < length (items v (fr_section r)) \<and> sameFact (items v (fr_section r) ! fr_index r) (fr_value r))"

definition count_repair :: "fact_repair \<Rightarrow> quote_repair_outcome \<Rightarrow> quote_repair_outcome" where
  "count_repair r out = (if fr_value r = JNull then count_drop (fr_section r) out else count_kept (fr_value r) out)"

abbreviation kept_repairs :: "fact_repair list \<Rightarrow> fact_repair list" where
  "kept_repairs rs \<equiv> filter (\<lambda>r. fr_value r \<noteq> JNull) rs"

abbreviation withdrawn :: "fact_repair list \<Rightarrow> (note_section \<times> nat) list" where
  "withdrawn rs \<equiv> map repair_place (filter (\<lambda>r. fr_value r = JNull) rs)"

lemma repair_loop_Inr:
  "repair_loop v ur rs st = Inr st' \<longleftrightarrow> list_all (repair_allowed v ur) rs \<and>
     st' = \<lparr>qs_note = fold put_fact (kept_repairs rs) (qs_note st), qs_outcome = fold count_repair rs (qs_outcome st),
            qs_removed = qs_removed st @ withdrawn rs\<rparr>"
proof (induction rs arbitrary: st)
  case Nil
  show ?case by (cases st) auto
next
  case (Cons r rs)
  have step: "repair_step v ur r st = Inr k \<longleftrightarrow> repair_allowed v ur r \<and>
      k = \<lparr>qs_note = (if fr_value r = JNull then qs_note st else put_fact r (qs_note st)),
           qs_outcome = count_repair r (qs_outcome st), qs_removed = qs_removed st @ withdrawn [r]\<rparr>" for k
    by (cases st) (auto simp: repair_step_def repair_allowed_def count_repair_def repair_place_def nth_opt_def)
  show ?case by (auto simp: bind_res_eq_Inr step Cons.IH)
qed





section \<open>Properties\<close>



lemma applyQuoteRepair_Inr:
  assumes "applyQuoteRepair h v failures response = Inr (n, out)"
  defines "rs \<equiv> repairs_of ''fact'' response"
  shows "check h quoteRepairSchema response" "distinct (map repair_place rs)"
    "set (map repair_place rs) = set (map (\<lambda>f. (qf_section f, qf_index f)) failures)"
    "list_all (repair_allowed v (map (\<lambda>f. fact_key (qf_section f) (qf_index f))
       (filter (\<lambda>f. list_ex (\<lambda>l. ql_role l = js ''user'') (qf_foundIn f)) failures))) rs"
    "n = fold (drop_facts (withdrawn rs)) (dedup (map fst (withdrawn rs))) (fold put_fact (kept_repairs rs) v)"
    "out = fold count_repair rs empty_outcome"
proof -
  have match: "check h quoteRepairSchema response" "distinct (map repair_key rs)"
      "set (map repair_key rs) = set (map (\<lambda>f. fact_key (qf_section f) (qf_index f)) failures)"
    using assms(1) by (auto simp: applyQuoteRepair_def Let_def keys_match_iff rs_def split: if_splits)
  show "check h quoteRepairSchema response" by (rule match(1))
  let ?k = "\<lambda>(s, i). fact_key s i"
  have key: "map repair_key rs = map ?k (map repair_place rs)"
    "map (\<lambda>f. fact_key (qf_section f) (qf_index f)) failures = map ?k (map (\<lambda>f. (qf_section f, qf_index f)) failures)"
    by (simp_all add: repair_key_def repair_place_def)
  have inj: "inj ?k" by (auto simp: inj_on_def)
  show "distinct (map repair_place rs)" using match(2) unfolding key by (simp only: distinct_map)
  show "set (map repair_place rs) = set (map (\<lambda>f. (qf_section f, qf_index f)) failures)"
    using match(3) inj_image_eq_iff[OF inj] unfolding key set_map by (simp only:)
  show "list_all (repair_allowed v (map (\<lambda>f. fact_key (qf_section f) (qf_index f))
       (filter (\<lambda>f. list_ex (\<lambda>l. ql_role l = js ''user'') (qf_foundIn f)) failures))) rs"
    "n = fold (drop_facts (withdrawn rs)) (dedup (map fst (withdrawn rs))) (fold put_fact (kept_repairs rs) v)"
    "out = fold count_repair rs empty_outcome"
    using assms(1) by (auto simp: applyQuoteRepair_def Let_def repair_loop_Inr rs_def split: if_splits)
qed






text \<open>
  The repair outcome accounts for every failing fact. The requoted, unquoted and dropped counts add
  up to the number of distinct failing facts, and the withdrawn facts by section to the dropped ones.
\<close>

theorem applyQuoteRepair_counts:
  assumes "applyQuoteRepair h v failures response = Inr (n, out)"
  shows "qo_requoted out + qo_unquoted out + qo_dropped out = card ((\<lambda>f. (qf_section f, qf_index f)) ` set failures) \<and>
    sum_list (map snd (qo_droppedFrom out)) = qo_dropped out"
proof -
  note res = applyQuoteRepair_Inr[OF assms]
  have bump: "sum_list (map snd (bump_section s ps)) = Suc (sum_list (map snd ps))" for s ps
    by (induction s ps rule: bump_section.induct) auto
  have count: "qo_requoted (fold count_repair rs o1) + qo_unquoted (fold count_repair rs o1) + qo_dropped (fold count_repair rs o1)
      = qo_requoted o1 + qo_unquoted o1 + qo_dropped o1 + length rs \<and>
    sum_list (map snd (qo_droppedFrom (fold count_repair rs o1))) + qo_dropped o1
      = sum_list (map snd (qo_droppedFrom o1)) + qo_dropped (fold count_repair rs o1)" for rs o1
  proof (induction rs arbitrary: o1)
    case (Cons r rs)
    show ?case using Cons[of "count_repair r o1"]
      by (auto simp: count_repair_def count_drop_def count_kept_def bump split: if_splits)
  qed simp
  have "card ((\<lambda>f. (qf_section f, qf_index f)) ` set failures) = length (repairs_of ''fact'' response)"
    using distinct_card[OF res(2)] res(3) by simp
  with count[of "repairs_of ''fact'' response" empty_outcome] show ?thesis
    unfolding res(6) by (simp add: empty_outcome_def)
qed


section \<open>Witnesses\<close>

definition sample_repair_response :: jsval where
  "sample_repair_response = obj [(''repairs'', JArr [obj [(''section'', JStr (js ''state'')), (''index'', JNum (JInt 0)),
     (''fact'', obj [(''text'', JStr (js ''x'')), (''sources'', JArr [JStr (js ''u1'')])])]])]"

definition sample_failure :: quote_failure where
  "sample_failure = \<lparr>qf_section = State, qf_index = 0, qf_quote = js ''q'', qf_cited = [js ''u1''], qf_kind = Absent, qf_foundIn = []\<rparr>"

lemma sample_repaired: "applyQuoteRepair plain_host sample_note [sample_failure] sample_repair_response =
    Inr (note_with_state [obj [(''text'', JStr (js ''x'')), (''sources'', JArr [JStr (js ''u1'')])]],
      empty_outcome\<lparr>qo_unquoted := 1\<rparr>)"
  by code_simp







theorem applyQuoteRepair_counts_witness: "card ((\<lambda>f. (qf_section f, qf_index f)) ` set [sample_failure]) = 1"
  using applyQuoteRepair_counts[OF sample_repaired] by (simp add: empty_outcome_def)

end
