(* ===== verification/Sources_Repair.thy ===== *)
theory Sources_Repair
  imports Quote_Repair
begin

text \<open>
  \<^bold>\<open>sources-repair.ts\<close>: the one request that asks the writer for missing sources, and the splice of
  its answer, the second instance of the locale \<open>splice\<close>.
\<close>

definition SOURCES_REPAIR_MAX_FACTS :: nat where "SOURCES_REPAIR_MAX_FACTS = 5"

definition sourcesRepairSchema :: schema where
  "sourcesRepairSchema = SObject
     [(''repairs'', False, SArray (SObject
        [(''section'', False, sectionSchema), (''index'', False, SInteger 0),
         (''sources'', False, ids_schema 1 True)]) 1 (Some SOURCES_REPAIR_MAX_FACTS) False)]"

definition sourcesRepairEligible :: "schema_diagnosis \<Rightarrow> bool" where
  "sourcesRepairEligible d \<longleftrightarrow>
     sd_pending d \<noteq> None \<and> 0 < length (sd_uncited d) \<and> length (sd_uncited d) \<le> SOURCES_REPAIR_MAX_FACTS"

record citable_evidence =
  ce_requests :: "(jstring \<times> jstring) list"
  ce_cited :: "(jstring \<times> jstring \<times> jstring) list"
  ce_entries :: "jstring list"

definition evidence_json :: "citable_evidence \<Rightarrow> (string \<times> jsval) list" where
  "evidence_json e =
     [(''requests'', JArr (map (\<lambda>(i, t). obj [(''entryId'', JStr i), (''text'', JStr t)]) (ce_requests e))),
      (''cited'', JArr (map (\<lambda>(i, role, t). obj [(''entryId'', JStr i), (''role'', JStr role), (''text'', JStr t)]) (ce_cited e))),
      (''entries'', JArr (map JStr (ce_entries e)))]"

definition sourcesRepairPrompt :: "memory_note \<Rightarrow> uncited_fact list \<Rightarrow> citable_evidence \<Rightarrow> jstring" where
  "sourcesRepairPrompt n uncited e =
     stringify (obj ((''uncited'', JArr (map (\<lambda>f. obj
        [(''section'', JStr (js (section_name (uf_section f)))), (''index'', JNum (JInt (int (uf_index f)))),
         (''fact'', item_at n (uf_section f) (uf_index f))]) uncited)) # evidence_json e))"

definition put_sources :: "fact_repair \<Rightarrow> memory_note \<Rightarrow> memory_note" where
  "put_sources r n =
     jset n (section_name (fr_section r))
       (JArr ((items n (fr_section r))[fr_index r := jset (items n (fr_section r) ! fr_index r) ''sources'' (fr_value r)]))"

fun sources_loop :: "fact_repair list \<Rightarrow> memory_note \<Rightarrow> memory_note res" where
  "sources_loop [] n = Inr n"
| "sources_loop (r # rs) n =
     (if fr_index r < length (items n (fr_section r)) then sources_loop rs (put_sources r n)
      else throw TypeErr ''Cannot set properties of undefined'')"

definition applySourcesRepair :: "host \<Rightarrow> memory_note \<Rightarrow> uncited_fact list \<Rightarrow> jsval \<Rightarrow> memory_note res" where
  "applySourcesRepair h n uncited response =
     (if \<not> check h sourcesRepairSchema response
      then throw CONTEXT_NOTE_INVALID ''CONTEXT_NOTE_INVALID: the sources repair did not return its schema''
      else
        let repairs = repairs_of ''sources'' response in
        if \<not> keys_match (map (\<lambda>f. fact_key (uf_section f) (uf_index f)) uncited) (map repair_key repairs)
        then throw CONTEXT_NOTE_INVALID ''CONTEXT_NOTE_INVALID: the sources repair must answer each fact without sources exactly once''
        else sources_loop repairs n)"

section \<open>Facts\<close>

interpretation sourced: splice repair_place "\<lambda>r f. jset f ''sources'' (fr_value r)" put_sources
  by unfold_locales (auto simp: put_sources_def repair_place_def items_jset gaps_jset)

lemma sourced_in_range: "sourced.in_range n r \<longleftrightarrow> fr_index r < length (items n (fr_section r))"
  by (simp add: sourced.in_range_def repair_place_def)

lemma sources_loop_Inr:
  "isRecord n \<Longrightarrow> sources_loop rs n = Inr m \<longleftrightarrow> list_all (sourced.in_range n) rs \<and> m = fold put_sources rs n"
proof (induction rs arbitrary: n)
  case (Cons r rs)
  show ?case
  proof (cases "sourced.in_range n r")
    case True
    have same: "sourced.in_range (put_sources r n) = sourced.in_range n"
      using sourced.put_length[OF Cons.prems True] by (simp add: sourced_in_range fun_eq_iff)
    show ?thesis
      using True Cons.IH[OF sourced.put_record[OF Cons.prems], of r] unfolding same by (auto simp: sourced_in_range)
  qed (simp add: sourced_in_range)
qed auto

section \<open>Properties\<close>

text \<open>
  A sources repair adds sources and changes nothing else. When \<open>applySourcesRepair\<close> succeeds, every
  section keeps its length and order; the fact at an uncited place has the sources of its one answer
  and every other property it had; every other fact and the gaps are unchanged; and the answered
  places are exactly the uncited ones.
\<close>

theorem applySourcesRepair_frame:
  assumes "applySourcesRepair h n uncited response = Inr m" and "isRecord n"
  shows "(\<forall>s. items m s = map (\<lambda>(i, f).
        case find (\<lambda>r. repair_place r = (s, i)) (repairs_of ''sources'' response) of None \<Rightarrow> f
        | Some r \<Rightarrow> jset f ''sources'' (fr_value r)) (indexed (items n s))) \<and>
    gaps m = gaps n \<and>
    set (map repair_place (repairs_of ''sources'' response)) = (\<lambda>f. (uf_section f, uf_index f)) ` set uncited"
proof -
  let ?rs = "repairs_of ''sources'' response" and ?k = "\<lambda>(s, i). fact_key s i"
  have match: "distinct (map repair_key ?rs)"
      "set (map repair_key ?rs) = set (map (\<lambda>f. fact_key (uf_section f) (uf_index f)) uncited)"
    and loop: "sources_loop ?rs n = Inr m"
    using assms(1) by (auto simp: applySourcesRepair_def Let_def keys_match_iff split: if_splits)
  have key: "map repair_key ?rs = map ?k (map repair_place ?rs)"
    "map (\<lambda>f. fact_key (uf_section f) (uf_index f)) uncited = map ?k (map (\<lambda>f. (uf_section f, uf_index f)) uncited)"
    by (simp_all add: repair_key_def repair_place_def)
  have inj: "inj ?k" by (auto simp: inj_on_def)
  have dist: "distinct (map repair_place ?rs)" using match(1) unfolding key by (simp only: distinct_map)
  have places: "set (map repair_place ?rs) = set (map (\<lambda>f. (uf_section f, uf_index f)) uncited)"
    using match(2) inj_image_eq_iff[OF inj] unfolding key set_map by (simp only:)
  have range: "list_all (sourced.in_range n) ?rs" and m: "m = fold put_sources ?rs n"
    using loop sources_loop_Inr[OF assms(2)] by auto
  note spl = sourced.splices[OF assms(2) range dist, folded m]
  have "items m s = map (\<lambda>(i, f). case find (\<lambda>r. repair_place r = (s, i)) ?rs of None \<Rightarrow> f
        | Some r \<Rightarrow> jset f ''sources'' (fr_value r)) (indexed (items n s))" for s
  proof (rule nth_equalityI)
    fix i assume "i < length (items m s)"
    then have "i < length (items n s)" using spl by simp
    then show "items m s ! i = map (\<lambda>(i, f). case find (\<lambda>r. repair_place r = (s, i)) ?rs of None \<Rightarrow> f
        | Some r \<Rightarrow> jset f ''sources'' (fr_value r)) (indexed (items n s)) ! i"
      using spl[of s i] by (simp add: sourced.answer_at_def)
  qed (use spl in simp)
  with spl places show ?thesis by simp
qed

text \<open>
  C36: A sources repair keeps what a fact says. In a successful repair every fact of the note, answered
  or not, keeps its text, its quotation and what it supersedes, and an answered one has exactly the
  answer's sources.
\<close>

theorem applySourcesRepair_keeps_facts:
  assumes "applySourcesRepair h n uncited response = Inr m" and "isRecord n"
  shows "list_all2 (\<lambda>f g. f_text g = f_text f \<and> f_quote g = f_quote f \<and> f_supersedes g = f_supersedes f) (items n s) (items m s)"
proof -
  have other: "k \<noteq> ''sources'' \<Longrightarrow> jfield (jset f ''sources'' w) k = jfield f k" for f w k
    by (cases "isRecord f", simp add: jfield_jset, cases f, simp_all add: jset_def)
  have "items m s = map (\<lambda>(i, f). case find (\<lambda>r. repair_place r = (s, i)) (repairs_of ''sources'' response) of None \<Rightarrow> f
        | Some r \<Rightarrow> jset f ''sources'' (fr_value r)) (indexed (items n s))"
    using applySourcesRepair_frame[OF assms] by blast
  then show ?thesis
    by (auto simp: list_all2_conv_all_nth f_text_def f_quote_def f_supersedes_def other split: option.splits)
qed


section \<open>Witnesses\<close>

definition sample_sources_response :: jsval where
  "sample_sources_response = obj [(''repairs'', JArr [obj [(''section'', JStr (js ''state'')), (''index'', JNum (JInt 0)),
     (''sources'', JArr [JStr (js ''u1'')])]])]"

definition sample_pending :: memory_note where
  "sample_pending = note_with_state [obj [(''text'', JStr (js ''x'')), (''sources'', JArr [])]]"

definition sample_sourced :: memory_note where
  "sample_sourced = note_with_state [obj [(''text'', JStr (js ''x'')), (''sources'', JArr [JStr (js ''u1'')])]]"

lemma sample_sources_repaired:
  "applySourcesRepair plain_host sample_pending [\<lparr>uf_section = State, uf_index = 0\<rparr>] sample_sources_response = Inr sample_sourced"
  by code_simp

lemma sample_pending_record: "isRecord sample_pending"
  by (simp add: sample_pending_def note_with_state_def obj_def)

theorem applySourcesRepair_frame_witness:
  "gaps sample_sourced = gaps sample_pending \<and>
   set (map repair_place (repairs_of ''sources'' sample_sources_response)) = {(State, 0)}"
  using applySourcesRepair_frame[OF sample_sources_repaired sample_pending_record] by simp

theorem applySourcesRepair_keeps_facts_witness:
  "list_all2 (\<lambda>f g. f_text g = f_text f) (items sample_pending State) (items sample_sourced State)"
  by (rule list_all2_mono[OF applySourcesRepair_keeps_facts[OF sample_sources_repaired sample_pending_record]]) simp

end
