(* ===== verification/Preparation.thy ===== *)
theory Preparation
  imports Checkpoints
begin

text \<open>
  \<^bold>\<open>preparation-candidate.ts\<close>: freezing the input of a preparation, finishing its result into a
  candidate, and the mechanical classification of a candidate at submission. Deep freezing and
  \<open>structuredClone\<close> are the identity here, where values cannot be mutated.
\<close>

section \<open>Shapes\<close>

record writer_identity =
  wi_role :: jstring
  wi_model :: jstring
  wi_effort :: jstring
  wi_policyHash :: jstring
  wi_promptHash :: jstring
  wi_schemaHash :: jstring
  wi_contextHash :: "jstring option"

record preparation_input =
  pi_sessionId :: jstring
  pi_epoch :: int
  pi_branch :: "session_record list"
  pi_coveredThrough :: jstring
  pi_processedUserEntryIds :: "jstring list"
  pi_writer :: writer_identity
  pi_noteBudget :: jsval

record checkpoint_ref =
  cr_id :: jstring
  cr_hash :: jstring

record preparation_snapshot =
  ps_candidateId :: jstring
  ps_sessionId :: jstring
  ps_epoch :: int
  ps_branchAncestry :: "(jstring \<times> jstring option) list"
  ps_branchAncestryHash :: jstring
  ps_baseCheckpoint :: "checkpoint_ref option"
  ps_coveredThrough :: jstring
  ps_sourceHash :: jstring
  ps_entryIds :: "jstring list"
  ps_originalIds :: "jstring list"
  ps_horizonIds :: "jstring list"
  ps_horizonHash :: jstring
  ps_writer :: writer_identity
  ps_noteBudget :: jsval
  ps_sources :: "session_record list"

record preparation_provenance =
  pp_writerRole :: jstring
  pp_writerModel :: jstring
  pp_writerEffort :: jstring
  pp_callIds :: "jstring list"

record prepared_candidate =
  pc_input :: preparation_snapshot
  pc_note :: memory_note
  pc_noteHash :: jstring
  pc_bytes :: nat
  pc_provenance :: preparation_provenance
  pc_provenanceHash :: jstring
  pc_outputHash :: jstring

record preparation_submission =
  su_sessionId :: jstring
  su_epoch :: int
  su_branch :: "session_record list"
  su_writer :: writer_identity
  su_noteBudget :: jsval
  su_customInstructions :: "jstring option"

datatype stale_reason =
  NewUserInput | NewSources | UserHorizonIncomplete | CustomInstructions | SubmissionBudget

datatype invalid_reason =
  SessionChanged | EpochChanged | BranchChanged | BaseCheckpointChanged | SourceChanged
  | WriterChanged | ConfigurationInvalid

datatype classification = CurrentFull | StaleReusable stale_reason | Invalid invalid_reason

section \<open>Checks\<close>

text \<open>\<open>hashEntries\<close> of JSON values.\<close>

definition hashValues :: "host \<Rightarrow> jsval list \<Rightarrow> jstring" where
  "hashValues h vs = digest h (concat (map (\<lambda>v. utf8 (stringify v) @ utf8 newline) vs))"

definition inputError :: "'a res" where
  "inputError = throw CONTEXT_PREPARATION_INPUT ''CONTEXT_PREPARATION_INPUT: invalid preparation snapshot''"

definition uniqueIds :: "jstring list \<Rightarrow> bool" where
  "uniqueIds ids \<longleftrightarrow> list_all (\<lambda>i. length i > 0) ids \<and> card (set ids) = length ids"

definition linearBranch :: "session_record list \<Rightarrow> bool" where
  "linearBranch branch \<longleftrightarrow>
     length branch > 0 \<and> uniqueIds (map r_id branch) \<and>
     list_all (\<lambda>(index, r). r_parent r = (if index = 0 then None else Some (r_id (branch ! (index - 1))))) (indexed branch)"

definition lastCheckpoint :: "host \<Rightarrow> session_record list \<Rightarrow> checkpoint_ref option" where
  "lastCheckpoint h branch = map_option
     (\<lambda>i. \<lparr>cr_id = r_id (branch ! i), cr_hash = hashValues h [r_native (branch ! i)]\<rparr>) (find_last_index is_compaction branch)"

definition EFFORTS :: "jstring list" where
  "EFFORTS = map js [''off'', ''minimal'', ''low'', ''medium'', ''high'', ''xhigh'', ''max'']"

definition writerIdentity :: "writer_identity \<Rightarrow> writer_identity res" where
  "writerIdentity w =
     (if \<not> (wi_role w = js ''session'' \<or> wi_role w = js ''fixed'') \<or>
         \<not> contains [0x2f] (wi_model w) \<or> starts_with [0x2f] (wi_model w) \<or> ends_with [0x2f] (wi_model w) \<or>
         wi_effort w \<notin> set EFFORTS \<or>
         \<not> list_all (\<lambda>i. length i > 0) [wi_policyHash w, wi_promptHash w, wi_schemaHash w] \<or>
         wi_contextHash w = Some [] \<or>
         (wi_role w = js ''session'' \<and> wi_contextHash w = None)
      then inputError
      else Inr \<lparr>wi_role = wi_role w, wi_model = wi_model w, wi_effort = wi_effort w, wi_policyHash = wi_policyHash w,
             wi_promptHash = wi_promptHash w, wi_schemaHash = wi_schemaHash w, wi_contextHash = wi_contextHash w\<rparr>)"

definition notePolicy :: "jsval \<Rightarrow> jsval res" where
  "notePolicy budget = bind_res (storedNoteLimit budget) (\<lambda>_.
     if budget = JUndef then throw TypeErr ''Cannot read properties of undefined''
     else Inr (obj (map (\<lambda>k. (k, jfield budget k))
       [''version'', ''mode'', ''tier'', ''sourceTokens'', ''previousTokens'', ''baseTokens'', ''hardTokens''])))"

section \<open>The JSON that is hashed\<close>

definition nullable :: "jstring option \<Rightarrow> jsval" where
  "nullable s = (case s of None \<Rightarrow> JNull | Some t \<Rightarrow> JStr t)"

definition checkpoint_ref_json :: "checkpoint_ref option \<Rightarrow> jsval" where
  "checkpoint_ref_json c = (case c of None \<Rightarrow> JNull
     | Some r \<Rightarrow> obj [(''id'', JStr (cr_id r)), (''hash'', JStr (cr_hash r))])"

definition writer_json :: "writer_identity \<Rightarrow> jsval" where
  "writer_json w = obj
     [(''role'', JStr (wi_role w)), (''model'', JStr (wi_model w)), (''effort'', JStr (wi_effort w)),
      (''policyHash'', JStr (wi_policyHash w)), (''promptHash'', JStr (wi_promptHash w)),
      (''schemaHash'', JStr (wi_schemaHash w)), (''contextHash'', nullable (wi_contextHash w))]"

definition ancestry_json :: "jstring \<times> jstring option \<Rightarrow> jsval" where
  "ancestry_json p = obj [(''id'', JStr (fst p)), (''parentId'', nullable (snd p))]"

abbreviation jstrs :: "jstring list \<Rightarrow> jsval" where
  "jstrs ss \<equiv> JArr (map JStr ss)"

definition envelope_json :: "preparation_snapshot \<Rightarrow> jsval" where
  "envelope_json s = obj
     [(''version'', jint 1), (''sessionId'', JStr (ps_sessionId s)), (''epoch'', jint (ps_epoch s)),
      (''branchAncestry'', JArr (map ancestry_json (ps_branchAncestry s))),
      (''branchAncestryHash'', JStr (ps_branchAncestryHash s)),
      (''baseCheckpoint'', checkpoint_ref_json (ps_baseCheckpoint s)),
      (''coverage'', obj
         [(''coveredThrough'', JStr (ps_coveredThrough s)), (''sourceHash'', JStr (ps_sourceHash s)),
          (''entryIds'', jstrs (ps_entryIds s)), (''originalIds'', jstrs (ps_originalIds s))]),
      (''userHorizon'', obj [(''entryIds'', jstrs (ps_horizonIds s)), (''hash'', JStr (ps_horizonHash s))]),
      (''writer'', writer_json (ps_writer s)), (''noteBudget'', ps_noteBudget s)]"

definition provenance_json :: "preparation_provenance \<Rightarrow> jsval" where
  "provenance_json p = obj
     [(''writerRole'', JStr (pp_writerRole p)), (''writerModel'', JStr (pp_writerModel p)),
      (''writerEffort'', JStr (pp_writerEffort p)), (''callIds'', jstrs (pp_callIds p))]"

section \<open>Operations\<close>

definition position :: "jstring list \<Rightarrow> jstring \<Rightarrow> int" where
  "position ids i = (case find_index (\<lambda>j. j = i) ids of None \<Rightarrow> -1 | Some k \<Rightarrow> int k)"

definition horizon_ok :: "jstring list \<Rightarrow> jstring list \<Rightarrow> bool" where
  "horizon_ok userIds horizon \<longleftrightarrow>
     uniqueIds horizon \<and>
     \<not> list_ex (\<lambda>(index, i). position userIds i < 0 \<or>
         (index > 0 \<and> position userIds i \<le> position userIds (horizon ! (index - 1)))) (indexed horizon)"

definition freezePreparationInput :: "host \<Rightarrow> preparation_input \<Rightarrow> preparation_snapshot res" where
  "freezePreparationInput h p =
     (let branch = pi_branch p in
      case first_at branch (pi_coveredThrough p) of
        None \<Rightarrow> inputError
      | Some stop \<Rightarrow>
        if pi_sessionId p = [] \<or> \<not> \<bar>pi_epoch p\<bar> \<le> max_safe_integer \<or> pi_epoch p < 0 \<or> \<not> linearBranch branch then inputError
        else
          let baseCheckpoint = lastCheckpoint h branch in
          if (case baseCheckpoint of None \<Rightarrow> False | Some c \<Rightarrow>
                (case first_at branch (cr_id c) of None \<Rightarrow> False | Some k \<Rightarrow> k > stop)) then inputError
          else
            let sources = take (stop + 1) branch;
                userIds = map r_id (filter is_user sources);
                horizon = pi_processedUserEntryIds p
            in if \<not> horizon_ok userIds horizon then inputError
            else
              let ancestry = map (\<lambda>r. (r_id r, r_parent r)) branch in
              bind_res (writerIdentity (pi_writer p)) (\<lambda>writer.
              bind_res (notePolicy (pi_noteBudget p)) (\<lambda>noteBudget.
                let envelope = \<lparr>ps_candidateId = [], ps_sessionId = pi_sessionId p, ps_epoch = pi_epoch p,
                      ps_branchAncestry = ancestry,
                      ps_branchAncestryHash = hashValues h (obj [(''sessionId'', JStr (pi_sessionId p))] # map ancestry_json ancestry),
                      ps_baseCheckpoint = baseCheckpoint, ps_coveredThrough = pi_coveredThrough p,
                      ps_sourceHash = hashValues h (map r_native sources), ps_entryIds = map r_id sources,
                      ps_originalIds = map r_id (filter (\<lambda>r. sourceText r \<noteq> []) sources),
                      ps_horizonIds = horizon, ps_horizonHash = hashValues h (map JStr horizon),
                      ps_writer = writer, ps_noteBudget = noteBudget, ps_sources = sources\<rparr>
                in Inr (envelope\<lparr>ps_candidateId := hashValues h [envelope_json envelope]\<rparr>))))"

definition finalizePreparation ::
    "host \<Rightarrow> preparation_snapshot \<Rightarrow> jsval \<Rightarrow> preparation_provenance \<Rightarrow> prepared_candidate res" where
  "finalizePreparation h s result provenance =
     (if pp_writerRole provenance \<noteq> wi_role (ps_writer s) \<or> pp_writerModel provenance \<noteq> wi_model (ps_writer s) \<or>
         pp_writerEffort provenance \<noteq> wi_effort (ps_writer s)
      then throw CONTEXT_PREPARATION_WRITER ''CONTEXT_PREPARATION_WRITER: result writer differs from the frozen configured writer''
      else if pp_callIds provenance = [] \<or> \<not> uniqueIds (pp_callIds provenance)
      then throw CONTEXT_PREPARATION_PROVENANCE ''CONTEXT_PREPARATION_PROVENANCE: missing or ambiguous call accounting links''
      else
        bind_res (storedNoteLimit (ps_noteBudget s)) (\<lambda>limit.
        bind_res (validateNote h result (ps_sources s) limit) (\<lambda>n.
          let noteHash = hashValues h [n]; provenanceHash = hashValues h [provenance_json provenance] in
          Inr \<lparr>pc_input = s, pc_note = n, pc_noteHash = noteHash, pc_bytes = noteBytes n, pc_provenance = provenance,
               pc_provenanceHash = provenanceHash,
               pc_outputHash = hashValues h [obj [(''candidateId'', JStr (ps_candidateId s)), (''noteHash'', JStr noteHash),
                 (''provenanceHash'', JStr provenanceHash)]]\<rparr>)))"

definition ancestry_changed :: "preparation_snapshot \<Rightarrow> session_record list \<Rightarrow> bool" where
  "ancestry_changed s branch = list_ex (\<lambda>(index, p). case nth_opt branch index of None \<Rightarrow> True
     | Some r \<Rightarrow> r_id r \<noteq> fst p \<or> r_parent r \<noteq> snd p) (indexed (ps_branchAncestry s))"

definition classifyPreparation :: "host \<Rightarrow> prepared_candidate \<Rightarrow> preparation_submission \<Rightarrow> classification" where
  "classifyPreparation h candidate submission =
     (let s = pc_input candidate; branch = su_branch submission in
      if su_sessionId submission \<noteq> ps_sessionId s then Invalid SessionChanged
      else if su_epoch submission \<noteq> ps_epoch s then Invalid EpochChanged
      else if \<not> linearBranch branch \<or> ancestry_changed s branch then Invalid BranchChanged
      else if stringify (checkpoint_ref_json (lastCheckpoint h branch)) \<noteq> stringify (checkpoint_ref_json (ps_baseCheckpoint s))
      then Invalid BaseCheckpointChanged
      else
        let prefix = take (length (ps_entryIds s)) branch in
        if hashValues h (map r_native prefix) \<noteq> ps_sourceHash s then Invalid SourceChanged
        else (case writerIdentity (su_writer submission) of
            Inl _ \<Rightarrow> Invalid ConfigurationInvalid
          | Inr writer \<Rightarrow>
              if hashValues h [writer_json writer] \<noteq> hashValues h [writer_json (ps_writer s)] then Invalid WriterChanged
              else (case storedNoteLimit (su_noteBudget submission) of
                  Inl _ \<Rightarrow> Invalid ConfigurationInvalid
                | Inr hardTokens \<Rightarrow>
                    if int (pc_bytes candidate) > hardTokens * 3 then StaleReusable SubmissionBudget
                    else if (case su_customInstructions submission of None \<Rightarrow> False | Some t \<Rightarrow> trim t \<noteq> [])
                    then StaleReusable CustomInstructions
                    else
                      let rest = drop (length (ps_entryIds s)) branch in
                      if list_ex is_user rest then StaleReusable NewUserInput
                      else if rest \<noteq> [] then StaleReusable NewSources
                      else if list_ex (\<lambda>r. is_user r \<and> r_id r \<notin> set (ps_horizonIds s)) prefix
                      then StaleReusable UserHorizonIncomplete
                      else CurrentFull)))"

text \<open>The result is an index, -1 for an empty coverage.\<close>

definition reusablePrefix :: "prepared_candidate \<Rightarrow> classification \<Rightarrow> session_record list \<Rightarrow> int option" where
  "reusablePrefix candidate c branch =
     (if c \<noteq> StaleReusable NewUserInput \<and> c \<noteq> StaleReusable NewSources then None
      else
        let stop = int (length (ps_entryIds (pc_input candidate))) - 1;
            seen = ps_horizonIds (pc_input candidate);
            unseen = list_ex (\<lambda>r. is_user r \<and> r_id r \<notin> set seen) (take (nat (stop + 1)) branch)
        in if unseen then None else Some stop)"


section \<open>Facts\<close>

interpretation vals: line_serializer "\<lambda>v. Inr (stringify v)" json_ok id
  by unfold_locales (auto intro: line_text_stringify stringify_inj)

lemma frames_values:
  "frames (\<lambda>v. Inr (stringify v)) b vs = Inr (b @ concat (map (\<lambda>v. utf8 (stringify v) @ utf8 newline) vs))"
  by (induction vs arbitrary: b) simp_all

lemma frames_native: "frames serializeNative b rs = frames (\<lambda>v. Inr (stringify v)) b (map r_native rs)"
  by (induction rs arbitrary: b) (simp_all add: serializeNative_def)

text \<open>The native source hash of identity.ts is this hash of the native objects.\<close>

lemma hashEntries_values: "hashEntries (digest h) rs = Inr (hashValues h (map r_native rs))"
  by (simp add: hashEntries_def hash_frames_def frames_native frames_values hashValues_def)

text \<open>Two lists of values whose digested bytes differ and whose digests agree.\<close>

definition collision :: "host \<Rightarrow> jsval list \<Rightarrow> jsval list \<Rightarrow> bool" where
  "collision h vs ws \<longleftrightarrow>
     (let bytes = (\<lambda>vs. concat (map (\<lambda>v. utf8 (stringify v) @ utf8 newline) vs))
      in bytes vs \<noteq> bytes ws \<and> digest h (bytes vs) = digest h (bytes ws))"

lemma hashValues_fixes:
  assumes "list_all json_ok vs" "list_all json_ok ws" "hashValues h vs = hashValues h ws"
  shows "vs = ws \<or> collision h vs ws"
proof -
  have "map id vs = map id ws \<or>
    (\<exists>a b. frames (\<lambda>v. Inr (stringify v)) [] vs = Inr a \<and> frames (\<lambda>v. Inr (stringify v)) [] ws = Inr b \<and> a \<noteq> b \<and> digest h a = digest h b)"
    using assms by (intro vals.hash_fixes) (auto simp: list_all_iff hash_frames_def frames_values hashValues_def)
  then show ?thesis by (auto simp: frames_values collision_def Let_def)
qed

lemma uniqueIds_iff: "uniqueIds ids \<longleftrightarrow> [] \<notin> set ids \<and> distinct ids"
  by (auto simp: uniqueIds_def list_all_iff intro: card_distinct distinct_card)

lemma writerIdentity_Inr: "writerIdentity w = Inr w' \<Longrightarrow> w' = w"
  by (cases w) (auto simp: writerIdentity_def inputError_def split: if_splits)

lemma linear_distinct: "linearBranch branch \<Longrightarrow> distinct (map r_id branch)"
  by (simp add: linearBranch_def uniqueIds_iff)

lemma freeze_Inr:
  assumes "freezePreparationInput h p = Inr s"
  shows "\<exists>stop. first_at (pi_branch p) (pi_coveredThrough p) = Some stop \<and> linearBranch (pi_branch p) \<and>
    ps_sessionId s = pi_sessionId p \<and> ps_epoch s = pi_epoch p \<and>
    ps_branchAncestry s = map (\<lambda>r. (r_id r, r_parent r)) (pi_branch p) \<and>
    ps_baseCheckpoint s = lastCheckpoint h (pi_branch p) \<and>
    (case find_last_index is_compaction (pi_branch p) of None \<Rightarrow> True | Some k \<Rightarrow> k \<le> stop) \<and>
    ps_sources s = take (stop + 1) (pi_branch p) \<and> ps_sourceHash s = hashValues h (map r_native (ps_sources s)) \<and>
    ps_entryIds s = map r_id (ps_sources s) \<and> ps_horizonIds s = pi_processedUserEntryIds p \<and>
    horizon_ok (map r_id (filter is_user (ps_sources s))) (pi_processedUserEntryIds p) \<and>
    ps_writer s = pi_writer p \<and> writerIdentity (pi_writer p) = Inr (pi_writer p) \<and>
    notePolicy (pi_noteBudget p) = Inr (ps_noteBudget s) \<and>
    ps_candidateId s = hashValues h [envelope_json s]"
proof -
  let ?branch = "pi_branch p"
  obtain stop where stop: "first_at ?branch (pi_coveredThrough p) = Some stop"
    using assms by (auto simp: freezePreparationInput_def inputError_def Let_def split: option.splits)
  let ?base = "lastCheckpoint h ?branch" and ?sources = "take (stop + 1) ?branch"
  have linear: "linearBranch ?branch"
    using assms by (auto simp: freezePreparationInput_def inputError_def Let_def split: option.splits if_splits)
  have base: "\<not> (case ?base of None \<Rightarrow> False | Some c \<Rightarrow> (case first_at ?branch (cr_id c) of None \<Rightarrow> False | Some k \<Rightarrow> k > stop))"
    and horizon: "horizon_ok (map r_id (filter is_user ?sources)) (pi_processedUserEntryIds p)"
    using assms stop linear by (auto simp: freezePreparationInput_def inputError_def Let_def split: if_splits)
  obtain writer budget where w: "writerIdentity (pi_writer p) = Inr writer" "notePolicy (pi_noteBudget p) = Inr budget"
    using assms stop linear base horizon
    by (auto simp: freezePreparationInput_def inputError_def Let_def split: if_splits)
  have writer: "writer = pi_writer p" using writerIdentity_Inr[OF w(1)] .
  have "case find_last_index is_compaction ?branch of None \<Rightarrow> True | Some k \<Rightarrow> k \<le> stop"
  proof (cases "find_last_index is_compaction ?branch")
    case (Some k)
    then have "first_at ?branch (r_id (?branch ! k)) = Some k"
      using first_at_distinct[OF linear_distinct[OF linear], of k] by (simp add: find_last_index_Some)
    with base Some show ?thesis by (simp add: lastCheckpoint_def)
  qed simp
  then show ?thesis
    using assms stop linear base horizon w writer
    by (auto simp: freezePreparationInput_def inputError_def Let_def envelope_json_def split: if_splits)
qed


lemma finalize_Inr:
  assumes "finalizePreparation h s result prov = Inr c"
  shows "\<exists>limit. storedNoteLimit (ps_noteBudget s) = Inr limit \<and> pc_input c = s \<and> pc_note c = result \<and>
    check h noteSchema result \<and> note_evidenced (ps_sources s) result \<and> int (noteBytes result) \<le> 3 * limit \<and>
    pc_bytes c = noteBytes result \<and> pp_callIds prov \<noteq> []"
  using assms by (auto simp: finalizePreparation_def bind_res_eq_Inr validateNote_Inr Let_def split: if_splits)

text \<open>The classes a candidate reaches after every identity check has passed.\<close>

definition identified :: "classification \<Rightarrow> bool" where
  "identified c \<longleftrightarrow> (case c of Invalid _ \<Rightarrow> False | _ \<Rightarrow> True)"

lemma classify_identified:
  assumes "identified (classifyPreparation h c su)"
  shows "su_sessionId su = ps_sessionId (pc_input c)" "su_epoch su = ps_epoch (pc_input c)"
    "linearBranch (su_branch su)" "\<not> ancestry_changed (pc_input c) (su_branch su)"
    "hashValues h (map r_native (take (length (ps_entryIds (pc_input c))) (su_branch su))) = ps_sourceHash (pc_input c)"
    "writerIdentity (su_writer su) = Inr (su_writer su)"
    "hashValues h [writer_json (su_writer su)] = hashValues h [writer_json (ps_writer (pc_input c))]"
  using assms writerIdentity_Inr[of "su_writer su"]
  by (auto simp: classifyPreparation_def identified_def Let_def split: if_splits sum.splits)

lemma ancestry_kept:
  assumes "\<not> ancestry_changed s branch" "ps_branchAncestry s = map (\<lambda>r. (r_id r, r_parent r)) base"
  shows "length base \<le> length branch \<and> (\<forall>i < length base. r_id (branch ! i) = r_id (base ! i))"
proof -
  have at: "i < length base \<Longrightarrow> \<exists>r. nth_opt branch i = Some r \<and> r_id r = r_id (base ! i)" for i
    using assms by (force simp: ancestry_changed_def list_ex_iff in_set_indexed split: option.splits)
  have "length base \<le> length branch"
  proof (rule ccontr)
    assume "\<not> length base \<le> length branch"
    with at[of "length branch"] show False by (simp add: nth_opt_def)
  qed
  with at show ?thesis by (auto simp: nth_opt_Some)
qed

text \<open>The natives of the records a preparation read, as the branch now holds them.\<close>

lemma prefix_intact:
  assumes "freezePreparationInput h p = Inr s" "identified (classifyPreparation h c su)" "pc_input c = s"
    and "list_all (\<lambda>r. json_ok (r_native r)) (pi_branch p)" "list_all (\<lambda>r. json_ok (r_native r)) (su_branch su)"
  shows "map r_native (take (length (ps_sources s)) (su_branch su)) = map r_native (ps_sources s) \<or>
    collision h (map r_native (take (length (ps_sources s)) (su_branch su))) (map r_native (ps_sources s))"
proof -
  obtain stop where s: "ps_sources s = take (stop + 1) (pi_branch p)" "ps_entryIds s = map r_id (ps_sources s)"
      "ps_sourceHash s = hashValues h (map r_native (ps_sources s))"
    using freeze_Inr[OF assms(1)] by blast
  have "hashValues h (map r_native (take (length (ps_sources s)) (su_branch su))) = hashValues h (map r_native (ps_sources s))"
    using classify_identified(5)[OF assms(2)] assms(3) s(2,3) by simp
  then show ?thesis
    by (intro hashValues_fixes) (use assms(4,5) s(1) in \<open>auto simp: list_all_iff dest: in_set_takeD\<close>)
qed

section \<open>Properties\<close>

text \<open>
  C33: A candidate classified as current covers the submission completely. If a frozen and finished
  candidate is classified \<open>CurrentFull\<close>, then session and epoch are the frozen ones; the branch has
  exactly the covered records, in order, and their native contents are the ones the writer read, or
  an explicit digest collision is at hand; every user message of the branch is in the processed
  horizon; and the note is evidenced by those records and fits the submission's own budget.
\<close>

theorem classify_current_full:
  assumes "freezePreparationInput h p = Inr s" and "finalizePreparation h s result prov = Inr c"
    and "classifyPreparation h c su = CurrentFull"
    and "list_all (\<lambda>r. json_ok (r_native r)) (pi_branch p)" and "list_all (\<lambda>r. json_ok (r_native r)) (su_branch su)"
  shows "su_sessionId su = pi_sessionId p \<and> su_epoch su = pi_epoch p \<and>
    map r_id (su_branch su) = map r_id (pi_branch p) \<and>
    (map r_native (su_branch su) = map r_native (ps_sources s) \<or>
     collision h (map r_native (su_branch su)) (map r_native (ps_sources s))) \<and>
    list_all (\<lambda>r. r_id r \<in> set (pi_processedUserEntryIds p)) (filter is_user (su_branch su)) \<and>
    note_evidenced (ps_sources s) result \<and>
    (\<exists>limit. storedNoteLimit (su_noteBudget su) = Inr limit \<and> int (noteBytes result) \<le> 3 * limit)"
proof -
  have id: "identified (classifyPreparation h c su)" using assms(3) by (simp add: identified_def)
  obtain stop where f: "ps_sessionId s = pi_sessionId p" "ps_epoch s = pi_epoch p"
      "ps_branchAncestry s = map (\<lambda>r. (r_id r, r_parent r)) (pi_branch p)" "ps_sources s = take (stop + 1) (pi_branch p)"
      "ps_entryIds s = map r_id (ps_sources s)" "ps_horizonIds s = pi_processedUserEntryIds p"
    using freeze_Inr[OF assms(1)] by blast
  obtain limit where c: "pc_input c = s" "note_evidenced (ps_sources s) result" "pc_bytes c = noteBytes result"
    using finalize_Inr[OF assms(2)] by blast
  note k = classify_identified[OF id, unfolded c(1)]
  have full: "drop (length (ps_entryIds s)) (su_branch su) = []"
      "list_all (\<lambda>r. is_user r \<longrightarrow> r_id r \<in> set (ps_horizonIds s)) (take (length (ps_entryIds s)) (su_branch su))"
      "\<exists>limit. storedNoteLimit (su_noteBudget su) = Inr limit \<and> int (noteBytes result) \<le> 3 * limit"
    using assms(3) by (auto simp: classifyPreparation_def Let_def c(1,3) list_ex_iff list_all_iff split: if_splits sum.splits)
  then have short: "length (su_branch su) \<le> length (ps_sources s)" by (simp add: f(5))
  have anc: "length (pi_branch p) \<le> length (su_branch su)" "\<forall>i < length (pi_branch p). r_id (su_branch su ! i) = r_id (pi_branch p ! i)"
    using ancestry_kept[OF k(4) f(3)] by auto
  have len: "length (su_branch su) = length (pi_branch p)" "length (ps_sources s) = length (pi_branch p)"
    using short anc(1) f(4) by auto
  have "map r_id (su_branch su) = map r_id (pi_branch p)" using len anc(2) by (intro nth_equalityI) auto
  moreover have "take (length (ps_sources s)) (su_branch su) = su_branch su" using len by simp
  ultimately show ?thesis
    using k(1,2) f(1,2,5,6) c(2) full prefix_intact[OF assms(1) id c(1) assms(4,5)] len
    by (auto simp: list_all_iff)
qed

text \<open>
  Only an intact prefix is reused. When \<open>reusablePrefix\<close> returns an index for the classification of
  a frozen and finished candidate, the branch continues after it, the records up to it are the ones
  the writer read, or a digest collision is at hand, and every user message among them was processed.
\<close>

theorem reusablePrefix_intact:
  assumes "freezePreparationInput h p = Inr s" and "finalizePreparation h s result prov = Inr c"
    and "reusablePrefix c (classifyPreparation h c su) (su_branch su) = Some e"
    and "list_all (\<lambda>r. json_ok (r_native r)) (pi_branch p)" and "list_all (\<lambda>r. json_ok (r_native r)) (su_branch su)"
  shows "e + 1 = int (length (ps_sources s)) \<and> e + 1 < int (length (su_branch su)) \<and>
    (map r_native (take (nat (e + 1)) (su_branch su)) = map r_native (ps_sources s) \<or>
     collision h (map r_native (take (nat (e + 1)) (su_branch su))) (map r_native (ps_sources s))) \<and>
    list_all (\<lambda>r. r_id r \<in> set (pi_processedUserEntryIds p)) (filter is_user (take (nat (e + 1)) (su_branch su)))"
proof -
  obtain stop where f: "ps_entryIds s = map r_id (ps_sources s)" "ps_horizonIds s = pi_processedUserEntryIds p"
    using freeze_Inr[OF assms(1)] by blast
  have c: "pc_input c = s" using finalize_Inr[OF assms(2)] by blast
  have cls: "classifyPreparation h c su = StaleReusable NewUserInput \<or> classifyPreparation h c su = StaleReusable NewSources"
    and e: "e + 1 = int (length (ps_sources s))"
      "list_all (\<lambda>r. r_id r \<in> set (pi_processedUserEntryIds p)) (filter is_user (take (nat (e + 1)) (su_branch su)))"
    using assms(3) by (auto simp: reusablePrefix_def Let_def c f list_ex_iff list_all_iff split: if_splits)
  have id: "identified (classifyPreparation h c su)" using cls by (auto simp: identified_def)
  have "drop (length (ps_entryIds s)) (su_branch su) \<noteq> []"
    using cls by (auto simp: classifyPreparation_def Let_def c split: if_splits sum.splits)
  then have "e + 1 < int (length (su_branch su))" using e(1) by (simp add: f(1))
  then show ?thesis using e prefix_intact[OF assms(1) id c assms(4,5)] by simp
qed


lemma notePolicy_limit:
  assumes "notePolicy b = Inr b'"
  shows "storedNoteLimit b' = storedNoteLimit b"
proof -
  let ?keys = "[''version'', ''mode'', ''tier'', ''sourceTokens'', ''previousTokens'', ''baseTokens'', ''hardTokens'']"
  have b: "b' = obj (map (\<lambda>k. (k, jfield b k)) ?keys)" "b \<noteq> JUndef" "isRecord b"
    using assms by (auto simp: notePolicy_def storedNoteLimit_def stored_budget_ok_def split: if_splits)
  have fields: "jfield b' ''version'' = jfield b ''version''" "jfield b' ''mode'' = jfield b ''mode''"
    "jfield b' ''tier'' = jfield b ''tier''" "jfield b' ''sourceTokens'' = jfield b ''sourceTokens''"
    "jfield b' ''previousTokens'' = jfield b ''previousTokens''" "jfield b' ''baseTokens'' = jfield b ''baseTokens''"
    "jfield b' ''hardTokens'' = jfield b ''hardTokens''"
    by (simp_all add: b(1) obj_def)
  have b': "isRecord b'" "b' \<noteq> JUndef" by (simp_all add: b(1) obj_def)
  show ?thesis
    unfolding storedNoteLimit_def stored_budget_ok_def fields by (simp only: b(2,3) b' simp_thms)
qed

lemma find_last_index_append_none:
  "\<forall>x \<in> set ys. \<not> p x \<Longrightarrow> find_last_index p (xs @ ys) = find_last_index p xs"
proof (induction xs)
  case Nil
  then show ?case by (simp add: find_last_index_None)
qed simp

lemma lastCheckpoint_append:
  "\<forall>r \<in> set ys. \<not> is_compaction r \<Longrightarrow> lastCheckpoint h (xs @ ys) = lastCheckpoint h xs"
  unfolding lastCheckpoint_def find_last_index_append_none
  by (rule map_option_cong[OF refl]) (auto simp: find_last_index_Some nth_append)

lemma ancestry_append:
  "ps_branchAncestry s = map (\<lambda>r. (r_id r, r_parent r)) branch \<Longrightarrow> \<not> ancestry_changed s (branch @ later)"
  by (auto simp: ancestry_changed_def list_ex_iff in_set_indexed nth_opt_def nth_append)

lemma classify_appended:
  assumes "freezePreparationInput h p = Inr s" and "finalizePreparation h s result prov = Inr c"
    and "su_branch su = pi_branch p @ later" and "linearBranch (su_branch su)"
    and "list_all (\<lambda>r. \<not> is_compaction r) later"
    and "su_sessionId su = pi_sessionId p" and "su_epoch su = pi_epoch p" and "su_writer su = pi_writer p"
    and "su_noteBudget su = pi_noteBudget p" and "su_customInstructions su = None"
    and "list_all (\<lambda>r. r_id r \<in> set (pi_processedUserEntryIds p)) (filter is_user (ps_sources s))"
  shows "classifyPreparation h c su =
      (let rest = drop (length (ps_sources s)) (su_branch su) in
       if list_ex is_user rest then StaleReusable NewUserInput else if rest \<noteq> [] then StaleReusable NewSources else CurrentFull) \<and>
    reusablePrefix c (classifyPreparation h c su) (su_branch su) =
      (if drop (length (ps_sources s)) (su_branch su) = [] then None else Some (int (length (ps_sources s)) - 1))"
proof -
  obtain stop where stop: "first_at (pi_branch p) (pi_coveredThrough p) = Some stop" and f: "ps_sessionId s = pi_sessionId p" "ps_epoch s = pi_epoch p"
      "ps_branchAncestry s = map (\<lambda>r. (r_id r, r_parent r)) (pi_branch p)" "ps_sources s = take (stop + 1) (pi_branch p)"
      "ps_entryIds s = map r_id (ps_sources s)" "ps_horizonIds s = pi_processedUserEntryIds p"
      "ps_baseCheckpoint s = lastCheckpoint h (pi_branch p)" "ps_sourceHash s = hashValues h (map r_native (ps_sources s))"
      "ps_writer s = pi_writer p" "writerIdentity (pi_writer p) = Inr (pi_writer p)" "notePolicy (pi_noteBudget p) = Inr (ps_noteBudget s)"
    using freeze_Inr[OF assms(1)] by blast
  obtain limit where c: "storedNoteLimit (ps_noteBudget s) = Inr limit" "pc_input c = s"
      "int (noteBytes result) \<le> 3 * limit" "pc_bytes c = noteBytes result"
    using finalize_Inr[OF assms(2)] by blast
  have limit: "storedNoteLimit (su_noteBudget su) = Inr limit" using c(1) notePolicy_limit[OF f(11)] assms(9) by simp
  have "stop < length (pi_branch p)" using first_at_less[OF stop] by blast
  then have pre: "take (length (ps_sources s)) (su_branch su) = ps_sources s"
    by (simp add: assms(3) f(4) min_absorb2)
  have seen: "\<not> list_ex (\<lambda>r. is_user r \<and> r_id r \<notin> set (ps_horizonIds s)) (ps_sources s)"
    using assms(11) by (auto simp: f(6) list_ex_iff list_all_iff)
  have base: "lastCheckpoint h (su_branch su) = ps_baseCheckpoint s"
    unfolding assms(3) f(7) by (rule lastCheckpoint_append) (use assms(5) in \<open>simp add: list_all_iff\<close>)
  have cls: "classifyPreparation h c su =
      (let rest = drop (length (ps_sources s)) (su_branch su) in
       if list_ex is_user rest then StaleReusable NewUserInput else if rest \<noteq> [] then StaleReusable NewSources else CurrentFull)"
    using ancestry_append[OF f(3), of later] seen c(3)
    by (simp add: classifyPreparation_def Let_def c(2,4) assms(4,6,7,8,10) f(1,2,5,8,9,10) pre base limit assms(3)[symmetric])
  have "ps_sources s \<noteq> []" using \<open>stop < length (pi_branch p)\<close> by (auto simp: f(4))
  then have "take (nat (int (length (ps_sources s)) - 1 + 1)) (su_branch su) = ps_sources s" using pre by simp
  then have "reusablePrefix c (classifyPreparation h c su) (su_branch su) =
      (if drop (length (ps_sources s)) (su_branch su) = [] then None else Some (int (length (ps_sources s)) - 1))"
    unfolding cls using seen by (auto simp: reusablePrefix_def Let_def c(2) f(5) list_ex_iff)
  with cls show ?thesis by blast
qed

text \<open>
  C34: A candidate survives appends. A finished candidate whose frozen prefix was processed in full,
  submitted in the same session and epoch with the same writer and note budget on the frozen branch
  or any linear continuation of it without a new checkpoint, is classified by what follows the
  coverage alone: current when nothing does, and otherwise reusable for exactly the covered prefix.
\<close>

theorem candidate_survives_appends:
  assumes "freezePreparationInput h p = Inr s" and "finalizePreparation h s result prov = Inr c"
    and "su_branch su = pi_branch p @ later" and "linearBranch (su_branch su)"
    and "list_all (\<lambda>r. \<not> is_compaction r) later"
    and "su_sessionId su = pi_sessionId p" and "su_epoch su = pi_epoch p" and "su_writer su = pi_writer p"
    and "su_noteBudget su = pi_noteBudget p" and "su_customInstructions su = None"
    and "list_all (\<lambda>r. r_id r \<in> set (pi_processedUserEntryIds p)) (filter is_user (ps_sources s))"
  shows "classifyPreparation h c su =
      (let rest = drop (length (ps_sources s)) (su_branch su) in
       if list_ex is_user rest then StaleReusable NewUserInput else if rest \<noteq> [] then StaleReusable NewSources else CurrentFull) \<and>
    reusablePrefix c (classifyPreparation h c su) (su_branch su) =
      (if drop (length (ps_sources s)) (su_branch su) = [] then None else Some (int (length (ps_sources s)) - 1))"
  using assms by (rule classify_appended)

section \<open>Witnesses\<close>

definition sample_writer :: writer_identity where
  "sample_writer = \<lparr>wi_role = js ''fixed'', wi_model = js ''a/b'', wi_effort = js ''off'', wi_policyHash = js ''p'',
     wi_promptHash = js ''q'', wi_schemaHash = js ''r'', wi_contextHash = None\<rparr>"

definition sample_budget :: jsval where
  "sample_budget = obj [(''version'', jint 1), (''mode'', JStr (js ''fixed'')), (''tier'', jint 0), (''sourceTokens'', jint 0),
     (''previousTokens'', jint 0), (''baseTokens'', jint 500), (''hardTokens'', jint 500)]"

definition sample_preparation :: preparation_input where
  "sample_preparation = \<lparr>pi_sessionId = js ''s'', pi_epoch = 0, pi_branch = [sample_user], pi_coveredThrough = js ''u1'',
     pi_processedUserEntryIds = [js ''u1''], pi_writer = sample_writer, pi_noteBudget = sample_budget\<rparr>"

definition sample_snapshot :: preparation_snapshot where
  "sample_snapshot = projr (freezePreparationInput plain_host sample_preparation)"

definition sample_provenance :: preparation_provenance where
  "sample_provenance = \<lparr>pp_writerRole = js ''fixed'', pp_writerModel = js ''a/b'', pp_writerEffort = js ''off'', pp_callIds = [js ''k'']\<rparr>"

definition sample_candidate :: prepared_candidate where
  "sample_candidate = projr (finalizePreparation plain_host sample_snapshot sample_note sample_provenance)"

definition sample_submission :: "session_record list \<Rightarrow> preparation_submission" where
  "sample_submission branch = \<lparr>su_sessionId = js ''s'', su_epoch = 0, su_branch = branch, su_writer = sample_writer,
     su_noteBudget = sample_budget, su_customInstructions = None\<rparr>"

lemma isl_projr: "\<not> isl x \<Longrightarrow> x = Inr (projr x)"
  by (cases x) auto

lemma sample_policy: "\<not> isl (notePolicy sample_budget)" "storedNoteLimit sample_budget = Inr 500"
  by code_simp+

lemma sample_frozen: "freezePreparationInput plain_host sample_preparation = Inr sample_snapshot"
proof -
  obtain b where "notePolicy sample_budget = Inr b" using sample_policy(1) isl_projr by blast
  moreover have "writerIdentity sample_writer = Inr sample_writer" by code_simp
  moreover have "horizon_ok [js ''u1''] [js ''u1'']" by code_simp
  moreover have "linearBranch [sample_user]" by code_simp
  ultimately show ?thesis
    unfolding sample_snapshot_def
    by (intro isl_projr) (simp add: freezePreparationInput_def sample_preparation_def first_at_def Let_def
      lastCheckpoint_def max_safe_integer_def)
qed

lemma sample_sources: "ps_sources sample_snapshot = [sample_user]"
  using freeze_Inr[OF sample_frozen] by (auto simp: sample_preparation_def first_at_def)

lemma sample_limit: "storedNoteLimit (ps_noteBudget sample_snapshot) = Inr 500"
proof -
  have "notePolicy sample_budget = Inr (ps_noteBudget sample_snapshot)"
    using freeze_Inr[OF sample_frozen] by (auto simp: sample_preparation_def)
  from notePolicy_limit[OF this] show ?thesis by (simp add: sample_policy(2))
qed

lemma sample_finished: "finalizePreparation plain_host sample_snapshot sample_note sample_provenance = Inr sample_candidate"
proof -
  have "ps_writer sample_snapshot = sample_writer"
    using freeze_Inr[OF sample_frozen] by (auto simp: sample_preparation_def)
  moreover have "validateNote plain_host sample_note [sample_user] 500 = Inr sample_note"
    using sample_note_conforms sample_note_evidenced by (simp add: validateNote_Inr sample_note_bytes plain_host_def)
  moreover have "uniqueIds [js ''k'']" by code_simp
  ultimately show ?thesis
    unfolding sample_candidate_def
    by (intro isl_projr) (simp add: finalizePreparation_def sample_limit sample_sources sample_provenance_def
      sample_writer_def Let_def)
qed

definition sample_child :: session_record where
  "sample_child = (text_record ''u2'' ''user'' ''b'')\<lparr>r_parent := Some (js ''u1'')\<rparr>"

lemma sample_json_ok: "list_all (\<lambda>r. json_ok (r_native r)) [sample_user, sample_child]"
  by code_simp

lemma sample_linear: "linearBranch [sample_user]" "linearBranch [sample_user, sample_child]"
  by code_simp+

lemma sample_child_simps [simp]: "\<not> is_compaction sample_child" "is_user sample_child"
  by (simp_all add: sample_child_def is_compaction_def is_user_def text_message_def)

lemma sample_classified:
  "classifyPreparation plain_host sample_candidate (sample_submission [sample_user]) = CurrentFull"
  "classifyPreparation plain_host sample_candidate (sample_submission [sample_user, sample_child]) = StaleReusable NewUserInput"
  "reusablePrefix sample_candidate (StaleReusable NewUserInput) [sample_user, sample_child] = Some 0"
  using classify_appended[OF sample_frozen sample_finished, of "sample_submission [sample_user]" "[]"]
    classify_appended[OF sample_frozen sample_finished, of "sample_submission [sample_user, sample_child]" "[sample_child]"]
  by (auto simp: sample_submission_def sample_preparation_def sample_sources sample_linear)

theorem candidate_survives_appends_witness:
  "classifyPreparation plain_host sample_candidate (sample_submission [sample_user]) = CurrentFull"
  using candidate_survives_appends[OF sample_frozen sample_finished, of "sample_submission [sample_user]" "[]"]
  by (simp add: sample_submission_def sample_preparation_def sample_sources sample_linear)

theorem classify_current_full_witness:
  "note_evidenced [sample_user] sample_note \<and>
   (\<exists>limit. storedNoteLimit sample_budget = Inr limit \<and> int (noteBytes sample_note) \<le> 3 * limit)"
  using classify_current_full[OF sample_frozen sample_finished sample_classified(1)] sample_json_ok
  by (simp add: sample_submission_def sample_preparation_def sample_sources)

theorem reusablePrefix_intact_witness:
  "\<exists>e. reusablePrefix sample_candidate (StaleReusable NewUserInput) [sample_user, sample_child] = Some e \<and> e + 1 = 1"
  using reusablePrefix_intact[OF sample_frozen sample_finished, of "sample_submission [sample_user, sample_child]" 0] sample_json_ok
  by (simp add: sample_classified(2,3)[unfolded sample_submission_def] sample_submission_def sample_preparation_def sample_sources)

end
