(* ===== verification/Regex.thy ===== *)
theory Regex
  imports Prelude
begin

text \<open>
  The regular expressions of the source, as a datatype, with the backtracking match of the language
  standard: \<open>ends r s i\<close> lists the end positions of the matches of \<open>r\<close> at \<open>i\<close> in the order they are
  tried, and \<open>search\<close> takes the first of them at the leftmost position. Repetitions are greedy; an
  unbounded one is bounded by the length of the text, which no body that consumes a unit exceeds.
  \<open>Look True\<close> and \<open>Look False\<close> are the positive and the negative lookahead.
\<close>

datatype re =
    Ch "u16 \<Rightarrow> bool"
  | Empty
  | Seq re re
  | Alt re re
  | Times nat "nat option" re
  | Boundary
  | AtEnd
  | Look bool re

definition word_unit :: "u16 \<Rightarrow> bool" where
  "word_unit u \<longleftrightarrow> 0x30 \<le> u \<and> u \<le> 0x39 \<or> 0x41 \<le> u \<and> u \<le> 0x5a \<or> u = 0x5f \<or> 0x61 \<le> u \<and> u \<le> 0x7a"

definition word_at :: "jstring \<Rightarrow> nat \<Rightarrow> bool" where
  "word_at s i \<longleftrightarrow> i < length s \<and> word_unit (s ! i)"

definition boundary_at :: "jstring \<Rightarrow> nat \<Rightarrow> bool" where
  "boundary_at s i \<longleftrightarrow> (i > 0 \<and> word_at s (i - 1)) \<noteq> word_at s i"

text \<open>At least \<open>lo\<close> and at most \<open>hi\<close> rounds of \<open>f\<close>, as many as possible first.\<close>

fun rounds :: "(nat \<Rightarrow> nat list) \<Rightarrow> nat \<Rightarrow> nat \<Rightarrow> nat \<Rightarrow> nat list" where
  "rounds f lo 0 i = (if lo = 0 then [i] else [])"
| "rounds f lo (Suc hi) i = concat (map (rounds f (lo - 1) hi) (f i)) @ (if lo = 0 then [i] else [])"

fun ends :: "re \<Rightarrow> jstring \<Rightarrow> nat \<Rightarrow> nat list" where
  "ends (Ch p) s i = (if i < length s \<and> p (s ! i) then [i + 1] else [])"
| "ends Empty s i = [i]"
| "ends (Seq a b) s i = concat (map (ends b s) (ends a s i))"
| "ends (Alt a b) s i = ends a s i @ ends b s i"
| "ends (Times lo hi r) s i = rounds (ends r s) lo (case hi of None \<Rightarrow> length s + 1 | Some n \<Rightarrow> n) i"
| "ends Boundary s i = (if boundary_at s i then [i] else [])"
| "ends AtEnd s i = (if i = length s then [i] else [])"
| "ends (Look b r) s i = (if (ends r s i \<noteq> []) = b then [i] else [])"

text \<open>The first match from position \<open>i\<close>: start and end.\<close>

definition search_from :: "re \<Rightarrow> jstring \<Rightarrow> nat \<Rightarrow> (nat \<times> nat) option" where
  "search_from r s i = (case find (\<lambda>k. ends r s k \<noteq> []) [i..<length s + 1] of
     None \<Rightarrow> None | Some k \<Rightarrow> Some (k, hd (ends r s k)))"

definition search :: "re \<Rightarrow> jstring \<Rightarrow> (nat \<times> nat) option" where
  "search r s = search_from r s 0"

text \<open>\<open>/^...$/.test(s)\<close>\<close>

definition full_match :: "re \<Rightarrow> jstring \<Rightarrow> bool" where
  "full_match r s \<longleftrightarrow> length s \<in> set (ends r s 0)"

definition matches :: "re \<Rightarrow> jstring \<Rightarrow> bool" where
  "matches r s \<longleftrightarrow> search r s \<noteq> None"

section \<open>Building expressions\<close>

definition lit :: "string \<Rightarrow> re" where
  "lit w = foldr (\<lambda>c. Seq (Ch (\<lambda>u. u = of_char c))) w Empty"

text \<open>The \<open>i\<close> flag on ASCII letters.\<close>

definition lower_unit :: "u16 \<Rightarrow> u16" where
  "lower_unit u = (if 0x41 \<le> u \<and> u \<le> 0x5a then u + 0x20 else u)"

definition ilit :: "string \<Rightarrow> re" where
  "ilit w = foldr (\<lambda>c. Seq (Ch (\<lambda>u. lower_unit u = of_char c))) w Empty"

definition re_seq :: "re list \<Rightarrow> re" where
  "re_seq rs = foldr Seq rs Empty"

definition re_alt :: "re list \<Rightarrow> re" where
  "re_alt rs = (case rs of [] \<Rightarrow> Ch (\<lambda>_. False) | r # rs' \<Rightarrow> foldl Alt r rs')"

abbreviation optional :: "re \<Rightarrow> re" where
  "optional r \<equiv> Times 0 (Some 1) r"

abbreviation some_of :: "(u16 \<Rightarrow> bool) \<Rightarrow> re" where
  "some_of p \<equiv> Times 1 None (Ch p)"

abbreviation any_of :: "(u16 \<Rightarrow> bool) \<Rightarrow> re" where
  "any_of p \<equiv> Times 0 None (Ch p)"

definition upper_unit :: "u16 \<Rightarrow> bool" where
  "upper_unit u \<longleftrightarrow> 0x41 \<le> u \<and> u \<le> 0x5a"

definition decimal_unit :: "u16 \<Rightarrow> bool" where
  "decimal_unit u \<longleftrightarrow> 0x30 \<le> u \<and> u \<le> 0x39"

section \<open>Facts\<close>

lemma rounds_bounds:
  "(\<And>i j. j \<in> set (f i) \<Longrightarrow> i \<le> j \<and> (j \<le> n \<or> j = i)) \<Longrightarrow> j \<in> set (rounds f lo hi i) \<Longrightarrow> i \<le> j \<and> (j \<le> n \<or> j = i)"
proof (induction f lo hi i arbitrary: j rule: rounds.induct)
  case (2 f lo hi i)
  from 2(3) consider k where "k \<in> set (f i)" "j \<in> set (rounds f (lo - 1) hi k)" | "j = i" by (auto split: if_splits)
  then show ?case
  proof cases
    case 1
    from 2(1)[OF 1(1) 2(2) 1(2)] 2(2)[OF 1(1)] show ?thesis by auto
  qed simp
qed (auto split: if_splits)

text \<open>A match stays within the text.\<close>

lemma ends_bounds: "j \<in> set (ends r s i) \<Longrightarrow> i \<le> j \<and> (j \<le> length s \<or> j = i)"
proof (induction r arbitrary: i j)
  case (Seq a b)
  then obtain k where "k \<in> set (ends a s i)" "j \<in> set (ends b s k)" by auto
  with Seq.IH show ?case by fastforce
next
  case (Times lo hi r)
  then show ?case using rounds_bounds[of "ends r s" "length s" j lo _ i] by auto
qed (auto split: if_splits)

lemma search_from_Some:
  "search_from r s i = Some (k, e) \<Longrightarrow>
   i \<le> k \<and> k \<le> length s \<and> e \<in> set (ends r s k) \<and> k \<le> e \<and> e \<le> length s \<and> (\<forall>j. i \<le> j \<and> j < k \<longrightarrow> ends r s j = [])"
proof -
  assume "search_from r s i = Some (k, e)"
  then have find: "find (\<lambda>k. ends r s k \<noteq> []) [i..<length s + 1] = Some k" and e: "e = hd (ends r s k)"
    by (auto simp: search_from_def simp del: upt_Suc upt.simps split: option.splits)
  then obtain n where n: "n < length [i..<length s + 1]" "ends r s ([i..<length s + 1] ! n) \<noteq> []" "k = [i..<length s + 1] ! n"
      "\<forall>m < n. ends r s ([i..<length s + 1] ! m) = []"
    unfolding find_Some_iff by blast
  have "ends r s j = []" if "i \<le> j" "j < k" for j
    using n(4)[rule_format, of "j - i"] n(1,3) that by (simp del: upt_Suc)
  moreover have "e \<in> set (ends r s k)" using e n by simp
  ultimately show ?thesis using n ends_bounds[of e r s k] by (auto simp del: upt_Suc)
qed

lemma search_from_None:
  "search_from r s i = None \<longleftrightarrow> (\<forall>k. i \<le> k \<and> k \<le> length s \<longrightarrow> ends r s k = [])"
proof -
  have "search_from r s i = None \<longleftrightarrow> find (\<lambda>k. ends r s k \<noteq> []) [i..<length s + 1] = None"
    by (simp add: search_from_def split: option.splits)
  also have "\<dots> \<longleftrightarrow> (\<forall>k. i \<le> k \<and> k \<le> length s \<longrightarrow> ends r s k = [])"
    unfolding find_None_iff by (simp only: set_upt atLeastLessThan_iff) (auto simp: less_Suc_eq_le)
  finally show ?thesis .
qed

lemma matches_iff: "matches r s \<longleftrightarrow> (\<exists>k \<le> length s. ends r s k \<noteq> [])"
  by (auto simp: matches_def search_def search_from_None)

lemma search_at_start: "ends r s 0 \<noteq> [] \<Longrightarrow> search r s = Some (0, hd (ends r s 0))"
  by (simp add: search_def search_from_def upt_rec)

text \<open>The length a sequence of single classes consumes.\<close>

lemma ends_Ch [simp]: "ends (Ch p) s i = (if i < length s \<and> p (s ! i) then [Suc i] else [])"
  by simp

lemma ends_lit: "j \<in> set (ends (lit w) s i) \<Longrightarrow> j = i + length w \<and> (w = [] \<or> j \<le> length s) \<and> slice i j s = js w"
proof (induction w arbitrary: i)
  case (Cons c w)
  then have i: "i < length s" "s ! i = of_char c" "j \<in> set (ends (lit w) s (Suc i))"
    by (auto simp: lit_def split: if_splits)
  from Cons.IH[OF i(3)] have "j = Suc i + length w" "slice (Suc i) j s = js w" "w = [] \<or> j \<le> length s" by auto
  moreover have "slice i j s = s ! i # slice (Suc i) j s"
    using i(1) \<open>j = Suc i + length w\<close> by (simp add: slice_def Cons_nth_drop_Suc[symmetric])
  ultimately show ?case using i by (auto simp: js_def)
qed (simp add: lit_def slice_def)

lemma lit_at: "take (length w) (drop i s) = js w \<Longrightarrow> ends (lit w) s i = [i + length w]"
proof (induction w arbitrary: i)
  case (Cons c w)
  then have "i < length s" by (cases "i < length s") (auto simp: js_def)
  with Cons have "s ! i = of_char c" "take (length w) (drop (Suc i) s) = js w"
    by (auto simp: js_def Cons_nth_drop_Suc[symmetric])
  with Cons.IH \<open>i < length s\<close> show ?case by (simp add: lit_def)
qed (simp add: lit_def)

end
