(* ===== verification/Events.thy ===== *)
theory Events
  imports Config Regex
begin

text \<open>
  \<^bold>\<open>events.ts\<close>, the contract half: the usage and call records, the closed set of error classes and the
  reduction of any error to a class of it.
\<close>

section \<open>Records\<close>

datatype compaction_outcome = Committed | Failed | AbortedOutcome
datatype compaction_reason = Manual | Threshold | Overflow
datatype writer_effort = EffortMinimal | EffortLow | EffortMedium | EffortHigh | EffortXhigh | EffortMax

record usage_summary =
  us_input :: int
  us_output :: int
  us_cacheRead :: int
  us_cacheWrite :: int
  us_reasoning :: "int option"
  us_totalTokens :: int
  us_cost :: rat

datatype call_phase = Generate | Repair

record writer_call_record =
  wc_phase :: call_phase
  wc_ms :: "int option"
  wc_usage :: "usage_summary option"
  wc_noteBytes :: "nat option"

section \<open>Classes\<close>

definition PROJECT_CODES :: "jstring list" where
  "PROJECT_CODES = map js [
    ''CONTEXT_BLOCKED'', ''CONTEXT_BUSY'', ''CONTEXT_CAPACITY'', ''CONTEXT_COMPACTOR_CONFLICT'',
    ''CONTEXT_CONFIG'', ''CONTEXT_CONTINUATION_MISSING'', ''CONTEXT_EXTERNAL_WRITE'',
    ''CONTEXT_INPUT_TOO_LARGE'', ''CONTEXT_LOCK_CHANGED'', ''CONTEXT_LOCK_CLOSED'',
    ''CONTEXT_LOCK_IDENTITY'', ''CONTEXT_LOCK_LOST'', ''CONTEXT_LOCK_PLATFORM'', ''CONTEXT_LOCK_UNKNOWN'',
    ''CONTEXT_LOCKED'', ''CONTEXT_MIGRATION_REQUIRED'', ''CONTEXT_NO_CUT'', ''CONTEXT_NO_MODEL_OR_SOURCE'',
    ''CONTEXT_NO_NEW_SOURCE'', ''CONTEXT_NOTE_BUDGET'', ''CONTEXT_NOTE_FROZEN'', ''CONTEXT_NOTE_INVALID'',
    ''CONTEXT_NOTE_QUOTE'', ''CONTEXT_NOTE_REPAIR_LOSS'', ''CONTEXT_NOTE_SCOPE'', ''CONTEXT_NOTE_VERSION'',
    ''CONTEXT_PAYLOAD_TOO_LARGE'', ''CONTEXT_RECOVERY_MISSING'', ''CONTEXT_RECOVERY_TOO_LARGE'',
    ''CONTEXT_RESIDENT_NOT_INITIALIZED'', ''CONTEXT_RESIDENT_REQUIRED'', ''CONTEXT_RUNTIME_CONFLICT'',
    ''CONTEXT_SOURCE_CHANGED'', ''CONTEXT_STORAGE_CLOSED'', ''CONTEXT_STORAGE_UNCERTAIN'',
    ''CONTEXT_TOOL_BOUNDARY'', ''CONTEXT_TOOL_CONFLICT'', ''CONTEXT_UNSETTLED'', ''CONTEXT_WRITER_CAPACITY'',
    ''CONTEXT_WRITER_FAILED'', ''CONTEXT_WRITER_UNAVAILABLE'', ''HISTORY_CURSOR_INVALID'',
    ''HISTORY_ENTRY_REQUIRED'', ''HISTORY_GRANT_EXISTS'', ''HISTORY_GRANT_NOT_PERSISTED'',
    ''HISTORY_QUERY_INVALID'', ''HISTORY_QUERY_REQUIRED'', ''HISTORY_SCOPE_DENIED'']"

definition ERRNO_CODES :: "jstring list" where
  "ERRNO_CODES = map js [
    ''EACCES'', ''EAGAIN'', ''EBUSY'', ''ECONNABORTED'', ''ECONNREFUSED'', ''ECONNRESET'', ''EEXIST'',
    ''EHOSTUNREACH'', ''EMFILE'', ''ENOENT'', ''ENOSPC'', ''ENOTFOUND'', ''EPERM'', ''EPIPE'', ''EROFS'',
    ''ETIMEDOUT'']"

section \<open>Patterns\<close>

definition code_unit :: "u16 \<Rightarrow> bool" where
  "code_unit u \<longleftrightarrow> upper_unit u \<or> u = 0x5f"

text \<open>\<open>/\b(?:CONTEXT|HISTORY)_[A-Z_]{1,40}\b/\<close>\<close>

definition project_re :: re where
  "project_re = re_seq [Boundary, re_alt [lit ''CONTEXT'', lit ''HISTORY''], lit ''_'',
     Times 1 (Some 40) (Ch code_unit), Boundary]"

text \<open>\<open>/\babort|\bcancel/i\<close>\<close>

definition abort_re :: re where
  "abort_re = re_alt [re_seq [Boundary, ilit ''abort''], re_seq [Boundary, ilit ''cancel'']]"

text \<open>\<open>/\b(?:status(?: code)?|http)[\s:]{0,4}([45]\d\d)\b/i\<close>; the group is the last three units of a match.\<close>

definition status_re :: re where
  "status_re = re_seq [Boundary, re_alt [re_seq [ilit ''status'', optional (ilit '' code'')], ilit ''http''],
     Times 0 (Some 4) (Ch (\<lambda>u. is_space u \<or> u = 0x3a)),
     Ch (\<lambda>u. u = 0x34 \<or> u = 0x35), Ch decimal_unit, Ch decimal_unit, Boundary]"

text \<open>\<open>/\bE[A-Z]{3,14}\b/\<close>\<close>

definition errno_re :: re where
  "errno_re = re_seq [Boundary, lit ''E'', Times 3 (Some 14) (Ch upper_unit), Boundary]"

definition errorCode :: "jstring option \<Rightarrow> bool \<Rightarrow> jstring" where
  "errorCode message aborted =
     (let t = take 2000 (case message of None \<Rightarrow> [] | Some m \<Rightarrow> m);
          project = map_option (\<lambda>(a, b). slice a b t) (search project_re t)
      in if project \<noteq> None \<and> the project \<in> set PROJECT_CODES then the project
         else if aborted \<or> matches abort_re t then js ''ABORTED''
         else (case search status_re t of
             Some (a, b) \<Rightarrow> js ''HTTP_'' @ slice (b - 3) b t
           | None \<Rightarrow>
               let errno = map_option (\<lambda>(a, b). slice a b t) (search errno_re t)
               in if errno \<noteq> None \<and> the errno \<in> set ERRNO_CODES then the errno else js ''UNKNOWN''))"

section \<open>Facts\<close>

lemma rounds_greedy:
  assumes "\<forall>k < n. p (s ! (i + k))" "i + n \<le> length s" "i + n = length s \<or> \<not> p (s ! (i + n))" "n \<le> hi"
  shows "rounds (ends (Ch p) s) lo hi i = rev (map ((+) i) [lo..<Suc n])"
  using assms
proof (induction n arbitrary: i lo hi)
  case 0
  then show ?case by (cases hi) auto
next
  case (Suc n)
  obtain h where h: "hi = Suc h" using Suc.prems(4) by (cases hi) auto
  have at: "ends (Ch p) s i = [Suc i]" using Suc.prems(1,2) by (auto dest: spec[of _ 0])
  have "\<forall>k < n. p (s ! (Suc i + k))" using Suc.prems(1) by auto
  then have IH: "rounds (ends (Ch p) s) (lo - 1) h (Suc i) = rev (map ((+) (Suc i)) [lo - 1..<Suc n])"
    using Suc.prems h by (intro Suc.IH) auto
  show ?case
  proof (cases lo)
    case 0
    have "[0..<Suc (Suc n)] = 0 # map Suc [0..<Suc n]" by (simp add: upt_conv_Cons map_Suc_upt del: upt_Suc)
    with 0 at h IH show ?thesis by (simp add: comp_def del: upt_Suc ends.simps(1) ends_Ch)
  next
    case (Suc l)
    have "[Suc l..<Suc (Suc n)] = map Suc [l..<Suc n]" by (simp only: map_Suc_upt)
    with Suc at h IH show ?thesis by (simp add: comp_def del: upt_Suc ends.simps(1) ends_Ch)
  qed
qed

lemma code_unit_word: "code_unit u \<Longrightarrow> word_unit u"
  by (auto simp: code_unit_def upper_unit_def word_unit_def)

text \<open>A project code at the start of a text, followed by no word unit, is what the pattern finds.\<close>

definition code_shape :: "jstring \<Rightarrow> bool" where
  "code_shape c \<longleftrightarrow> (take 7 c = js ''CONTEXT'' \<or> take 7 c = js ''HISTORY'') \<and> take 1 (drop 7 c) = js ''_'' \<and>
     9 \<le> length c \<and> length c \<le> 48 \<and> list_all code_unit (drop 8 c)"

lemma code_shape_js:
  assumes "take 7 n = ''CONTEXT'' \<or> take 7 n = ''HISTORY''" "take 1 (drop 7 n) = ''_''" "9 \<le> length n" "length n \<le> 48"
    and "list_all (\<lambda>c. c \<in> set ''ABCDEFGHIJKLMNOPQRSTUVWXYZ_'') (drop 8 n)"
  shows "code_shape (js n)"
proof -
  have "code_unit (of_char c)" if "c \<in> set ''ABCDEFGHIJKLMNOPQRSTUVWXYZ_''" for c
    using that by (auto simp: code_unit_def upper_unit_def)
  then have "list_all code_unit (drop 8 (js n))" using assms(5) by (auto simp: js_def drop_map list_all_iff)
  moreover have "take k (drop j (js n)) = js (take k (drop j n))" for k j by (simp add: js_def drop_map take_map)
  from this[of _ 0] this have "take 7 (js n) = js (take 7 n)" "take 1 (drop 7 (js n)) = js (take 1 (drop 7 n))" by simp_all
  ultimately show ?thesis unfolding code_shape_def using assms(1-4) by auto
qed

lemma project_codes_shape: "list_all code_shape PROJECT_CODES"
  unfolding PROJECT_CODES_def list.map list.pred_inject by (intro conjI TrueI code_shape_js) simp_all

lemma boundary_rounds:
  assumes "1 \<le> n" "\<forall>k < n. word_unit (t ! (b + k))" "b + n \<le> length t" "\<not> word_at t (b + n)"
  shows "concat (map (ends (Seq Boundary Empty) t) (rev (map ((+) b) [1..<Suc n]))) = [b + n]"
proof -
  have last: "[1..<Suc n] = [1..<n] @ [n]" using assms(1) by simp
  have here: "boundary_at t (b + n)"
    using assms(1,2,3) assms(4) by (auto simp: boundary_at_def word_at_def dest: spec[of _ "n - 1"])
  have inside: "\<not> boundary_at t (b + k)" if "1 \<le> k" "k < n" for k
    using assms(2)[rule_format, of k] assms(2)[rule_format, of "k - 1"] assms(3) that
    by (auto simp: boundary_at_def word_at_def)
  have "\<not> boundary_at t x" if "b + 1 \<le> x" "x < b + n" for x
    using inside[of "x - b"] that by simp
  then have "concat (map (ends (Seq Boundary Empty) t) (rev (map ((+) b) [1..<n]))) = []"
    by (auto simp: concat_eq_Nil_conv)
  with here show ?thesis unfolding last by (simp add: rev_map)
qed

lemma project_at:
  assumes "code_shape c" "rest = [] \<or> \<not> word_unit (hd rest)"
  shows "ends project_re (c @ rest) 0 = [length c]"
proof -
  let ?t = "c @ rest" and ?n = "length c - 8"
  have c: "take 1 (drop 7 c) = js ''_''" "9 \<le> length c" "length c \<le> 48" "list_all code_unit (drop 8 c)"
    and name: "take 7 c = js ''CONTEXT'' \<or> take 7 c = js ''HISTORY''"
    using assms(1) by (auto simp: code_shape_def)
  have t7: "take 7 ?t = take 7 c" "take 1 (drop 7 ?t) = js ''_''" using c by auto
  have alt: "ends (re_alt [lit ''CONTEXT'', lit ''HISTORY'']) ?t 0 = [7]"
  proof -
    have other: "ends (lit w) ?t 0 = []" if "length w = 7" "take 7 ?t \<noteq> js w" for w
    proof (cases "ends (lit w) ?t 0")
      case (Cons j js')
      then have "j \<in> set (ends (lit w) ?t 0)" by simp
      from ends_lit[OF this] have "take 7 ?t = js w" using that(1) by (auto simp: slice_def simp del: take_append)
      with that(2) show ?thesis by blast
    qed simp
    have here: "ends (lit w) ?t 0 = [7]" if "length w = 7" "take 7 ?t = js w" for w
      using lit_at[of w 0 ?t] that by (simp del: take_append)
    have differ: "js ''CONTEXT'' \<noteq> js ''HISTORY''" by simp
    from name show ?thesis
    proof
      assume a: "take 7 c = js ''CONTEXT''"
      then have "ends (lit ''CONTEXT'') ?t 0 = [7]" "ends (lit ''HISTORY'') ?t 0 = []"
        using t7(1) differ by (intro here other; simp del: take_append)+
      then show ?thesis by (simp add: re_alt_def)
    next
      assume a: "take 7 c = js ''HISTORY''"
      then have "ends (lit ''HISTORY'') ?t 0 = [7]" "ends (lit ''CONTEXT'') ?t 0 = []"
        using t7(1) differ by (intro here other; simp del: take_append)+
      then show ?thesis by (simp add: re_alt_def)
    qed
  qed
  have under: "ends (lit ''_'') ?t 7 = [8]" using lit_at[of "''_''" 7 ?t] t7(2) by simp
  have run: "\<forall>k < ?n. code_unit (?t ! (8 + k))"
    using c(4) by (auto simp: list_all_length nth_append)
  have stop: "8 + ?n = length ?t \<or> \<not> word_unit (?t ! (8 + ?n))"
    using assms(2) c(2) by (cases rest) (auto simp: nth_append)
  have rounds: "rounds (ends (Ch code_unit) ?t) 1 40 8 = rev (map ((+) 8) [1..<Suc ?n])"
    using run stop c code_unit_word by (intro rounds_greedy) auto
  have edge: "concat (map (ends (Seq Boundary Empty) ?t) (rev (map ((+) 8) [1..<Suc ?n]))) = [8 + ?n]"
    using run stop c code_unit_word by (intro boundary_rounds) (auto simp: word_at_def)
  have "word_unit (?t ! 0)"
  proof -
    have "?t ! 0 = hd (take 7 c)" using c(2) by (cases c) auto
    moreover have "hd (take 7 c) = 0x43 \<or> hd (take 7 c) = 0x48"
      using name by (elim disjE) (simp_all only:, simp_all add: js_def)
    ultimately show ?thesis by (auto simp: word_unit_def)
  qed
  then have "ends Boundary ?t 0 = [0]" using c(2) by (auto simp: boundary_at_def word_at_def)
  then show ?thesis
    using alt under rounds edge c(2) by (simp add: project_re_def re_seq_def del: ends.simps(2,6))
qed

section \<open>Properties\<close>

text \<open>
  Free text never reaches the log. Whatever the message, \<open>errorCode\<close> returns a project code, an
  errno of the list, \<open>ABORTED\<close>, \<open>UNKNOWN\<close>, or \<open>HTTP_\<close> with a status from 400 to 599.
\<close>

theorem errorCode_closed:
  "errorCode message aborted \<in> set PROJECT_CODES \<union> set ERRNO_CODES \<union> {js ''ABORTED'', js ''UNKNOWN''} \<union>
     {js ''HTTP_'' @ [a, b, c] | a b c. a \<in> {0x34, 0x35} \<and> decimal_unit b \<and> decimal_unit c}"
proof -
  have status: "\<exists>x y z. slice (b - 3) b t = [x, y, z] \<and> x \<in> {0x34, 0x35} \<and> decimal_unit y \<and> decimal_unit z"
    if "search status_re t = Some (a, b)" for t a b
  proof -
    have "b \<in> set (ends status_re t a)" using search_from_Some[of status_re t 0 a b] that by (simp add: search_def)
    then obtain i where i: "b = i + 3" "i + 2 < length t" "t ! i \<in> {0x34, 0x35}" "decimal_unit (t ! (i + 1))" "decimal_unit (t ! (i + 2))"
      unfolding status_re_def re_seq_def by (auto split: if_splits)
    have "slice i (i + 3) t = [t ! i, t ! (i + 1), t ! (i + 2)]"
      using i(2) by (simp add: slice_def numeral_3_eq_3 take_Suc_conv_app_nth)
    with i show ?thesis by auto
  qed
  show ?thesis
    using status by (auto simp: errorCode_def Let_def split: option.splits if_splits)
qed

text \<open>
  A project error keeps its class. Any message that starts with a project code and goes on with
  something other than a word character, as every error the core throws does after its code, is
  reduced to exactly that code, whether or not the call was aborted.
\<close>

theorem errorCode_project:
  assumes "code \<in> set PROJECT_CODES" and "rest = [] \<or> \<not> word_unit (hd rest)"
  shows "errorCode (Some (code @ rest)) aborted = code"
proof -
  have shape: "code_shape code" using assms(1) project_codes_shape by (auto simp: list_all_iff)
  then have len: "length code \<le> 48" by (simp add: code_shape_def)
  let ?rest = "take (2000 - length code) rest"
  have t: "take 2000 (code @ rest) = code @ ?rest" using len by simp
  have "?rest = [] \<or> \<not> word_unit (hd ?rest)" using assms(2) len by (cases rest) auto
  from project_at[OF shape this] have "search project_re (code @ ?rest) = Some (0, length code)"
    using search_at_start[of project_re "code @ ?rest"] by simp
  then show ?thesis using assms(1) unfolding errorCode_def option.case t Let_def by (simp add: slice_def)
qed

theorem errorCode_project_witness:
  "errorCode (Some (js ''CONTEXT_NOTE_BUDGET: x'')) True = js ''CONTEXT_NOTE_BUDGET''"
proof -
  have "js ''CONTEXT_NOTE_BUDGET'' \<in> set PROJECT_CODES" by (simp add: PROJECT_CODES_def)
  moreover have "\<not> word_unit (hd (js '': x''))" by code_simp
  ultimately show ?thesis
    using errorCode_project[of "js ''CONTEXT_NOTE_BUDGET''" "js '': x''" True] by (simp add: js_append[symmetric])
qed

text \<open>Classes the core throws that the list does not hold: the log shows such errors as unknown.\<close>

lemma unlisted_classes:
  "js ''CONTEXT_SOURCE_PREFIX'' \<notin> set PROJECT_CODES" "js ''CONTEXT_PREPARATION_INPUT'' \<notin> set PROJECT_CODES"
  "js ''HISTORY_KIND_REQUIRED'' \<notin> set PROJECT_CODES"
  by (simp_all add: PROJECT_CODES_def)

end
