(* ===== verification/History.thy ===== *)
theory History
  imports Text_Scan Notes "HOL-Library.Product_Lexorder" "HOL-Library.AList"
begin

text \<open>
  \<^bold>\<open>history.ts\<close>: branch-scoped search and paginated reads of the originals. The cursor text is
  \<open>base64url\<close> of UTF-8, two functions of the platform in the record \<open>cursor_codec\<close>; theorems that need
  them assume that decoding inverts encoding.
\<close>

section \<open>Snapshots and pages\<close>

record history_snapshot =
  hs_sessionId :: jstring
  hs_leafId :: "jstring option"
  hs_scopeHash :: jstring
  hs_entries :: "session_record list"

record history_excerpt =
  he_entryId :: jstring
  he_parentId :: "jstring option"
  he_role :: jstring
  he_position :: nat
  he_offset :: nat
  he_text :: jstring

record history_page =
  hp_sessionId :: jstring
  hp_leafId :: "jstring option"
  hp_scopeHash :: jstring
  hp_entries :: "history_excerpt list"
  hp_cursor :: "jstring option"
  hp_message :: "jstring option"

record cursor_codec =
  cc_encode :: "jstring \<Rightarrow> jstring"
  cc_decode :: "jstring \<Rightarrow> jstring"

definition documented_codec :: "cursor_codec \<Rightarrow> bool" where
  "documented_codec c \<longleftrightarrow>
     (\<forall>t. well_formed t \<longrightarrow> cc_decode c (cc_encode c t) = t) \<and> (\<forall>t. cc_encode c t = [] \<longleftrightarrow> t = [])"

definition historyQuerySchema :: schema where
  "historyQuerySchema = SObject
     [(''operation'', False, SUnion [SLiteral (js ''search''), SLiteral (js ''read'')]),
      (''query'', True, SString 0 (Some 1000) any_text),
      (''entryId'', True, SString 0 (Some 64) any_text),
      (''cursor'', True, SString 0 (Some 2000) any_text),
      (''grantId'', True, SString 0 (Some 128) any_text)]"

section \<open>Search terms and ranking\<close>

definition han_words :: "host \<Rightarrow> jstring \<Rightarrow> jstring list" where
  "han_words h query =
     map concat (filter (\<lambda>r. 2 \<le> length r) (runs (\<lambda>c. han_point h (char_point c)) (chars query)))"

definition searchTerms :: "host \<Rightarrow> jstring \<Rightarrow> jstring list" where
  "searchTerms h query =
     (let ws = map concat (runs (hint_char h) (chars (locale_lower h query)));
          chinese = concat (map (\<lambda>w. map (\<lambda>i. slice i (i + 2) w) [0..<length w - 1]) (han_words h query))
      in take 64 (dedup (ws @ chinese)))"

definition roleWeight :: "jstring \<Rightarrow> int" where
  "roleWeight role =
     (if role = js ''user'' then 3 else if role = js ''assistant'' then 2
      else if role = js ''toolResult'' \<or> role = js ''bashExecution'' then 0 else 1)"

definition HISTORY_TOOL :: jstring where "HISTORY_TOOL = js ''context_history''"
definition HIT_LIMIT :: nat where "HIT_LIMIT = 4096"
definition HIT_WINDOW :: nat where "HIT_WINDOW = 400"

definition isRetrievalOutput :: "session_record \<Rightarrow> bool" where
  "isRetrievalOutput r = (case r_body r of
     Message m \<Rightarrow> m_role m = js ''toolResult'' \<and> m_toolName m = Some HISTORY_TOOL | _ \<Rightarrow> False)"

section \<open>Placing an excerpt\<close>

text \<open>The occurrences of a term from position \<open>p\<close>, at most \<open>n\<close> of them.\<close>

fun hit_loop :: "jstring \<Rightarrow> jstring \<Rightarrow> nat \<Rightarrow> nat \<Rightarrow> nat list" where
  "hit_loop normalized word p 0 = []"
| "hit_loop normalized word p (Suc n) =
     (case index_from word normalized p of None \<Rightarrow> [] | Some k \<Rightarrow> k # hit_loop normalized word (k + 1) n)"

definition all_hits :: "jstring \<Rightarrow> jstring list \<Rightarrow> (nat \<times> nat) list" where
  "all_hits normalized terms =
     sort (concat (map (\<lambda>(t, word). map (\<lambda>k. (k, t)) (hit_loop normalized word 0 HIT_LIMIT)) (indexed terms)))"

text \<open>The map of the window: how often each term occurs in it.\<close>

type_synonym window = "(nat \<times> nat) list"

fun window_grow :: "nat \<Rightarrow> (nat \<times> nat) list \<Rightarrow> window \<Rightarrow> (nat \<times> nat) list \<times> window" where
  "window_grow start [] w = ([], w)"
| "window_grow start ((k, t) # hits) w =
     (if k - start \<le> HIT_WINDOW
      then window_grow start hits (AList.update t ((case map_of w t of None \<Rightarrow> 0 | Some n \<Rightarrow> n) + 1) w)
      else ((k, t) # hits, w))"

definition window_drop :: "nat \<Rightarrow> window \<Rightarrow> window" where
  "window_drop t w =
     (let left = (case map_of w t of None \<Rightarrow> 1 | Some n \<Rightarrow> n) - 1
      in if left > 0 then AList.update t left w else AList.delete t w)"

fun window_slide :: "(nat \<times> nat) list \<Rightarrow> (nat \<times> nat) list \<Rightarrow> window \<Rightarrow> nat \<Rightarrow> nat \<Rightarrow> nat" where
  "window_slide [] nexts w best most = best"
| "window_slide ((k, t) # firsts) nexts w best most =
     (let (nexts', w') = window_grow k nexts w;
          better = length w' > most
      in window_slide firsts nexts' (window_drop t w') (if better then k else best) (if better then length w' else most))"

definition excerptStart :: "jstring \<Rightarrow> jstring list \<Rightarrow> nat" where
  "excerptStart normalized terms =
     (let hits = all_hits normalized terms in
      if hits = [] then 0 else window_slide hits hits [] (fst (hd hits)) 0 - 120)"

section \<open>Candidates\<close>

record history_candidate =
  hc_entry :: session_record
  hc_text :: jstring
  hc_score :: int
  hc_weight :: int
  hc_position :: nat

definition term_score :: "session_record \<Rightarrow> jstring \<Rightarrow> jstring list \<Rightarrow> int" where
  "term_score r normalized terms =
     sum_list (map (\<lambda>t. if r_id r = t then 10 else if contains t normalized then 1 else 0) terms)"

definition candidate_of :: "host \<Rightarrow> bool \<Rightarrow> jsval \<Rightarrow> jstring list \<Rightarrow> nat \<times> session_record \<Rightarrow> history_candidate list" where
  "candidate_of h reading entryId terms p =
     (let r = snd p; t = sourceText r in
      if t = [] then []
      else if reading then
        (if JStr (r_id r) = entryId
         then [\<lparr>hc_entry = r, hc_text = t, hc_score = 1, hc_weight = 0, hc_position = fst p\<rparr>] else [])
      else if isRetrievalOutput r then []
      else
        let score = term_score r (locale_lower h t) terms in
        if score \<noteq> 0
        then [\<lparr>hc_entry = r, hc_text = t, hc_score = score, hc_weight = roleWeight (sourceRole r), hc_position = fst p\<rparr>]
        else [])"

definition candidates :: "host \<Rightarrow> bool \<Rightarrow> jsval \<Rightarrow> jstring list \<Rightarrow> session_record list \<Rightarrow> history_candidate list" where
  "candidates h reading entryId terms rs =
     sort_key (\<lambda>c. (- hc_score c, - hc_weight c, - int (hc_position c)))
       (concat (map (candidate_of h reading entryId terms) (indexed rs)))"

section \<open>Pages\<close>

text \<open>Shorten an excerpt by a fifth until its JSON fits; \<open>Math.floor(length * 0.8)\<close>.\<close>

definition excerpt_cost :: "jstring \<Rightarrow> int" where
  "excerpt_cost e = int (textTokens (stringify (JStr e))) + 100"

function shrink_excerpt :: "int \<Rightarrow> jstring \<Rightarrow> jstring" where
  "shrink_excerpt remaining e =
     (if excerpt_cost e > remaining \<and> length e \<noteq> 0 then shrink_excerpt remaining (take (4 * length e div 5) e) else e)"
  by pat_completeness auto
termination
proof (relation "measure (\<lambda>(_, e). length e)")
  fix remaining e assume "remaining < excerpt_cost e \<and> length e \<noteq> 0"
  then have "4 * length e div 5 < length e" by (intro less_mult_imp_div_less) simp
  then show "((remaining, take (4 * length e div 5) e), remaining, e) \<in> measure (\<lambda>(_, e). length e)" by simp
qed simp

declare shrink_excerpt.simps [simp del]

text \<open>The page loop over the candidates from \<open>index\<close> on: the excerpts and where it stopped.\<close>

fun page_loop :: "host \<Rightarrow> bool \<Rightarrow> jstring list \<Rightarrow> history_candidate list \<Rightarrow> nat \<Rightarrow> nat \<Rightarrow> int \<Rightarrow>
    history_excerpt list \<times> nat \<times> nat" where
  "page_loop h reading terms [] index offset remaining = ([], index, offset)"
| "page_loop h reading terms (c # cs) index offset remaining =
     (let t = hc_text c;
          start = (if reading then offset else excerptStart (locale_lower h t) terms);
          charLimit = (if reading then nat (remaining * 2) else 1400);
          e = shrink_excerpt remaining (slice start (start + charLimit) t)
      in if e = [] then ([], index, offset)
         else
           let x = \<lparr>he_entryId = r_id (hc_entry c), he_parentId = r_parent (hc_entry c), he_role = sourceRole (hc_entry c),
                  he_position = hc_position c, he_offset = start, he_text = e\<rparr>;
               left = remaining - excerpt_cost e
           in if reading \<and> start + length e < length t then ([x], index, start + length e)
              else if left < 250 then ([x], index + 1, 0)
              else (let (xs, i, off) = page_loop h reading terms cs (index + 1) 0 left in (x # xs, i, off)))"

definition query_signature :: "host \<Rightarrow> jsval \<Rightarrow> jstring" where
  "query_signature h request =
     digest h (utf8 (stringify (JArr [jfield request ''operation'', jfield request ''query'', jfield request ''entryId'',
       JStr (js ''rank-v3'')])))"

definition hash_native :: "host \<Rightarrow> session_record list \<Rightarrow> jstring" where
  "hash_native h rs = projr (hashEntries (digest h) rs)"

definition cursor_json :: "history_snapshot \<Rightarrow> jstring \<Rightarrow> nat \<Rightarrow> nat \<Rightarrow> jsval" where
  "cursor_json s signature index offset = obj
     [(''sessionId'', JStr (hs_sessionId s)), (''leafId'', (case hs_leafId s of None \<Rightarrow> JNull | Some l \<Rightarrow> JStr l)),
      (''scope'', JStr (hs_scopeHash s)), (''signature'', JStr signature),
      (''index'', jint (int index)), (''offset'', jint (int offset))]"

text \<open>The snapshot a cursor belongs to, pinned to the prefix it was made for, with index and offset.\<close>

definition resolve_cursor ::
    "host \<Rightarrow> cursor_codec \<Rightarrow> history_snapshot \<Rightarrow> jstring \<Rightarrow> jstring \<Rightarrow> (history_snapshot \<times> nat \<times> nat) res" where
  "resolve_cursor h codec s signature text_of_cursor =
     (case json_parse (read_number h) (cc_decode codec text_of_cursor) of
        None \<Rightarrow> throw HISTORY_CURSOR_INVALID ''HISTORY_CURSOR_INVALID''
      | Some c \<Rightarrow>
          if \<not> isRecord c \<or> jfield c ''sessionId'' \<noteq> JStr (hs_sessionId s) \<or> jfield c ''signature'' \<noteq> JStr signature \<or>
             \<not> is_safe_integer (jfield c ''index'') \<or> \<not> is_safe_integer (jfield c ''offset'') \<or>
             the (as_int (jfield c ''index'')) < 0 \<or> the (as_int (jfield c ''offset'')) < 0
          then throw HISTORY_CURSOR_INVALID ''HISTORY_CURSOR_INVALID: repeat the original operation, query, entryId and grantId with the cursor, or restart the query on the current branch''
          else
            let place = (nat (the (as_int (jfield c ''index''))), nat (the (as_int (jfield c ''offset'')))) in
            if jfield c ''scope'' \<noteq> JStr (hs_scopeHash s) then
              (let pinned = (case find_index (\<lambda>r. JStr (r_id r) = jfield c ''leafId'') (hs_entries s) of
                      None \<Rightarrow> [] | Some stop \<Rightarrow> take (stop + 1) (hs_entries s))
               in if pinned = [] \<or> JStr (hash_native h pinned) \<noteq> jfield c ''scope''
                  then throw HISTORY_CURSOR_INVALID ''HISTORY_CURSOR_INVALID: source is no longer on this branch''
                  else Inr (s\<lparr>hs_leafId := Some (r_id (last pinned)), hs_entries := pinned, hs_scopeHash := hash_native h pinned\<rparr>, place))
            else Inr (s, place))"

definition no_evidence :: jstring where
  "no_evidence = js ''No matching evidence in this authorized branch. Do not infer missing history.''"

text \<open>The page of a resolved request.\<close>

definition history_page_at ::
    "host \<Rightarrow> cursor_codec \<Rightarrow> history_snapshot \<Rightarrow> jsval \<Rightarrow> int \<Rightarrow> nat \<Rightarrow> nat \<Rightarrow> history_page res" where
  "history_page_at h codec s request budgetTokens index offset =
     (let terms = searchTerms h (case jfield request ''query'' of JStr q \<Rightarrow> q | _ \<Rightarrow> []);
          reading = (jfield request ''operation'' = JStr (js ''read''));
          entryId = jfield request ''entryId''
      in if \<not> reading \<and> terms = []
         then throw HISTORY_QUERY_REQUIRED ''HISTORY_QUERY_REQUIRED: supply search keywords or read an entry ID''
         else if reading \<and> (entryId = JUndef \<or> entryId = JStr []) then throw HISTORY_ENTRY_REQUIRED ''HISTORY_ENTRY_REQUIRED''
         else
           let cs = candidates h reading entryId terms (hs_entries s) in
           if reading \<and> cs = [] then throw HISTORY_SCOPE_DENIED ''HISTORY_SCOPE_DENIED: entry is not in this readable scope''
           else
             let (xs, i, off) = page_loop h reading terms (drop index cs) index offset (max 512 (min 4000 budgetTokens) - 350)
             in Inr \<lparr>hp_sessionId = hs_sessionId s, hp_leafId = hs_leafId s, hp_scopeHash = hs_scopeHash s, hp_entries = xs,
                  hp_cursor = (if i < length cs
                    then Some (cc_encode codec (stringify (cursor_json s (query_signature h request) i off))) else None),
                  hp_message = (if xs = [] then Some no_evidence else None)\<rparr>)"

definition queryHistory ::
    "host \<Rightarrow> cursor_codec \<Rightarrow> history_snapshot \<Rightarrow> jsval \<Rightarrow> int \<Rightarrow> history_page res" where
  "queryHistory h codec s request budgetTokens =
     (if \<not> check h historyQuerySchema request then throw HISTORY_QUERY_INVALID ''HISTORY_QUERY_INVALID''
      else (case jfield request ''cursor'' of
          JStr (u # cursor) \<Rightarrow>
            bind_res (resolve_cursor h codec s (query_signature h request) (u # cursor))
              (\<lambda>(s', index, offset). history_page_at h codec s' request budgetTokens index offset)
        | _ \<Rightarrow> history_page_at h codec s request budgetTokens 0 0))"


section \<open>The shrinking loop\<close>

lemma shrink_prefix: "\<exists>n. shrink_excerpt remaining e = take n e"
proof (induction remaining e rule: shrink_excerpt.induct)
  case (1 remaining e)
  show ?case
  proof (cases "excerpt_cost e > remaining \<and> length e \<noteq> 0")
    case True
    with 1 obtain n where "shrink_excerpt remaining (take (4 * length e div 5) e) = take n (take (4 * length e div 5) e)" by blast
    with True show ?thesis by (subst shrink_excerpt.simps) (auto intro: exI[of _ "min n (4 * length e div 5)"])
  next
    case False
    then have "shrink_excerpt remaining e = take (length e) e" by (subst shrink_excerpt.simps) auto
    then show ?thesis by blast
  qed
qed

lemma shrink_fits: "shrink_excerpt remaining e = [] \<or> excerpt_cost (shrink_excerpt remaining e) \<le> remaining"
proof (induction remaining e rule: shrink_excerpt.induct)
  case (1 remaining e)
  then show ?case by (subst (1 2) shrink_excerpt.simps) auto
qed

lemma excerpt_cost_pos: "0 \<le> excerpt_cost e"
  by (simp add: excerpt_cost_def)

lemma excerpt_cost_unit: "excerpt_cost [u] \<le> 108"
proof -
  have "length (quote [u]) \<le> 8" by (simp add: quote_def quote_unit_def unicode_escape_def Let_def)
  then have "byte_length (quote [u]) \<le> 24" using byte_length_upper[of "quote [u]"] by simp
  then show ?thesis by (simp add: excerpt_cost_def textTokens_def)
qed

lemma shrink_not_empty:
  assumes "108 \<le> remaining"
  shows "e \<noteq> [] \<Longrightarrow> shrink_excerpt remaining e \<noteq> []"
  using assms
proof (induction remaining e rule: shrink_excerpt.induct)
  case (1 remaining e)
  show ?case
  proof (cases "excerpt_cost e > remaining \<and> length e \<noteq> 0")
    case True
    have "length e \<noteq> 1"
    proof
      assume "length e = 1"
      then obtain u where "e = [u]" by (cases e) auto
      with True 1(3) excerpt_cost_unit[of u] show False by simp
    qed
    then have "2 \<le> length e" using True by linarith
    then have "1 \<le> 4 * length e div 5" by linarith
    then have "take (4 * length e div 5) e \<noteq> []" using 1(2) by (cases e) auto
    with 1(1)[OF True] 1(3) True show ?thesis by (subst shrink_excerpt.simps) auto
  next
    case False
    with 1(2) show ?thesis by (subst shrink_excerpt.simps) auto
  qed
qed

section \<open>The page loop\<close>

text \<open>An excerpt is a nonempty piece of a candidate's text at its offset.\<close>

definition excerpt_of :: "history_candidate \<Rightarrow> history_excerpt \<Rightarrow> bool" where
  "excerpt_of c x \<longleftrightarrow>
     he_entryId x = r_id (hc_entry c) \<and> he_parentId x = r_parent (hc_entry c) \<and> he_role x = sourceRole (hc_entry c) \<and>
     he_position x = hc_position c \<and> he_text x \<noteq> [] \<and>
     slice (he_offset x) (he_offset x + length (he_text x)) (hc_text c) = he_text x"

lemma take_slice:
  assumes "e = take n (slice a b t)" "e \<noteq> []"
  shows "slice a (a + length e) t = e"
  using assms by (auto simp: slice_def min_def)

lemma excerpt_in_text: "slice a (a + length e) t = e \<Longrightarrow> e \<noteq> [] \<Longrightarrow> a + length e \<le> length t"
  by (metis (no_types) add_diff_cancel_left' diff_is_0_eq length_slice length_0_conv min_def le_diff_conv2 nat_le_linear add.commute)

lemma page_loop_sound:
  assumes "page_loop h reading terms cs index offset remaining = (xs, i, off)" and "0 \<le> remaining"
  shows "list_all (\<lambda>x. list_ex (\<lambda>c. excerpt_of c x) cs) xs \<and> sum_list (map (excerpt_cost \<circ> he_text) xs) \<le> remaining \<and>
    i \<le> index + length cs \<and> (off = offset \<or> off = 0 \<or> list_ex (\<lambda>c. off \<le> length (hc_text c)) cs)"
  using assms
proof (induction cs arbitrary: index offset remaining xs i off)
  case (Cons c cs)
  define t where "t = hc_text c"
  define start where "start = (if reading then offset else excerptStart (locale_lower h t) terms)"
  define piece where "piece = slice start (start + (if reading then nat (remaining * 2) else 1400)) t"
  define e where "e = shrink_excerpt remaining piece"
  define x where "x = \<lparr>he_entryId = r_id (hc_entry c), he_parentId = r_parent (hc_entry c), he_role = sourceRole (hc_entry c),
                  he_position = hc_position c, he_offset = start, he_text = e\<rparr>"
  define left where "left = remaining - excerpt_cost e"
  have loop: "page_loop h reading terms (c # cs) index offset remaining =
      (if e = [] then ([], index, offset)
       else if reading \<and> start + length e < length t then ([x], index, start + length e)
       else if left < 250 then ([x], index + 1, 0)
       else (let (xs, i, off) = page_loop h reading terms cs (index + 1) 0 left in (x # xs, i, off)))"
    by (simp add: Let_def t_def start_def piece_def e_def x_def left_def)
  show ?case
  proof (cases "e = []")
    case True
    with loop Cons.prems show ?thesis by auto
  next
    case False
    obtain n where n: "e = take n piece" using shrink_prefix[of remaining piece] by (auto simp: e_def)
    have piece: "slice start (start + length e) t = e" using take_slice[of e n] n False by (simp add: piece_def)
    have x: "excerpt_of c x" using piece False by (simp add: excerpt_of_def x_def t_def)
    have cost: "excerpt_cost e \<le> remaining" using shrink_fits[of remaining piece] False by (simp add: e_def)
    have bound: "start + length e \<le> length t" using excerpt_in_text[OF piece False] .
    show ?thesis
    proof (cases "(reading \<and> start + length e < length t) \<or> left < 250")
      case True
      then have "xs = [x] \<and> (i = index \<and> off = start + length e \<or> i = index + 1 \<and> off = 0)"
        using Cons.prems(1) unfolding loop using False by (auto split: if_splits)
      with x cost bound show ?thesis by (auto simp: x_def t_def)
    next
      case cont: False
      obtain ys where ys: "page_loop h reading terms cs (index + 1) 0 left = (ys, i, off)" "xs = x # ys"
        using Cons.prems(1) unfolding loop using False cont by (auto split: prod.splits)
      have "0 \<le> left" using cont by simp
      from Cons.IH[OF ys(1) this] x ys(2) show ?thesis
        by (auto simp: x_def left_def list_all_iff)
    qed
  qed
qed auto


section \<open>Resolved requests\<close>

lemma candidate_in:
  "c \<in> set (candidates h reading entryId terms rs) \<Longrightarrow>
   hc_position c < length rs \<and> hc_entry c = rs ! hc_position c \<and> hc_text c = sourceText (hc_entry c) \<and> hc_text c \<noteq> [] \<and>
   (if reading then JStr (r_id (hc_entry c)) = entryId else \<not> isRetrievalOutput (hc_entry c))"
  by (auto simp: candidates_def candidate_of_def in_set_indexed Let_def split: if_splits)

text \<open>The snapshot a request is answered from is the given one or one of its prefixes.\<close>

lemma resolve_cursor_prefix:
  assumes "resolve_cursor h codec s signature t = Inr (s', place)"
  shows "\<exists>n. hs_entries s' = take n (hs_entries s) \<and> hs_sessionId s' = hs_sessionId s"
proof -
  have whole: "\<exists>n. hs_entries s = take n (hs_entries s)" by (rule exI[of _ "length (hs_entries s)"]) simp
  show ?thesis using assms whole
    by (auto simp: resolve_cursor_def Let_def split: option.splits if_splits)
qed

lemma queryHistory_page:
  assumes "queryHistory h codec s request budget = Inr page"
  shows "\<exists>s' n index offset. hs_entries s' = take n (hs_entries s) \<and>
    history_page_at h codec s' request budget index offset = Inr page \<and> hp_sessionId page = hs_sessionId s"
proof -
  have whole: "\<exists>n. hs_entries s = take n (hs_entries s)" by (rule exI[of _ "length (hs_entries s)"]) simp
  have id: "history_page_at h codec s' request budget index offset = Inr page \<Longrightarrow> hp_sessionId page = hs_sessionId s'" for s' index offset
    by (auto simp: history_page_at_def Let_def split: if_splits prod.splits)
  show ?thesis
  proof (cases "history_page_at h codec s request budget 0 0 = Inr page")
    case True
    with whole id show ?thesis by blast
  next
    case False
    then obtain t s' index offset where "resolve_cursor h codec s (query_signature h request) t = Inr (s', index, offset)"
        "history_page_at h codec s' request budget index offset = Inr page"
      using assms by (auto simp: queryHistory_def split: if_splits jsval.splits list.splits)
    with resolve_cursor_prefix id show ?thesis by metis
  qed
qed

lemma history_page_entries:
  assumes "history_page_at h codec s request budget index offset = Inr page"
  defines "reading \<equiv> jfield request ''operation'' = JStr (js ''read'')"
  defines "terms \<equiv> searchTerms h (case jfield request ''query'' of JStr q \<Rightarrow> q | _ \<Rightarrow> [])"
  shows "\<exists>i off. page_loop h reading terms (drop index (candidates h reading (jfield request ''entryId'') terms (hs_entries s)))
      index offset (max 512 (min 4000 budget) - 350) = (hp_entries page, i, off) \<and>
    hp_cursor page = (if i < length (candidates h reading (jfield request ''entryId'') terms (hs_entries s))
      then Some (cc_encode codec (stringify (cursor_json s (query_signature h request) i off))) else None)"
proof -
  let ?cs = "candidates h reading (jfield request ''entryId'') terms (hs_entries s)"
  obtain xs i off where loop: "page_loop h reading terms (drop index ?cs) index offset (max 512 (min 4000 budget) - 350) = (xs, i, off)"
    by (rule prod_cases3)
  have "page = \<lparr>hp_sessionId = hs_sessionId s, hp_leafId = hs_leafId s, hp_scopeHash = hs_scopeHash s, hp_entries = xs,
      hp_cursor = (if i < length ?cs then Some (cc_encode codec (stringify (cursor_json s (query_signature h request) i off))) else None),
      hp_message = (if xs = [] then Some no_evidence else None)\<rparr>"
    using assms(1) unfolding history_page_at_def Let_def reading_def[symmetric] terms_def[symmetric] loop prod.case
    by (simp only: split: if_split_asm) (simp_all add: throw_simps)
  with loop show ?thesis by simp
qed

section \<open>Properties\<close>

lemma page_verbatim:
  assumes "queryHistory h codec s request budget = Inr page"
  shows "list_all (\<lambda>x. he_position x < length (hs_entries s) \<and>
     (let r = hs_entries s ! he_position x in
        he_entryId x = r_id r \<and> he_role x = sourceRole r \<and> he_text x \<noteq> [] \<and>
        slice (he_offset x) (he_offset x + length (he_text x)) (sourceText r) = he_text x \<and>
        (if jfield request ''operation'' = JStr (js ''read'') then jfield request ''entryId'' = JStr (r_id r)
         else \<not> isRetrievalOutput r))) (hp_entries page)"
proof -
  obtain s' n index offset where s': "hs_entries s' = take n (hs_entries s)"
      "history_page_at h codec s' request budget index offset = Inr page"
    using queryHistory_page[OF assms] by blast
  let ?reading = "jfield request ''operation'' = JStr (js ''read'')"
  let ?terms = "searchTerms h (case jfield request ''query'' of JStr q \<Rightarrow> q | _ \<Rightarrow> [])"
  let ?cs = "candidates h ?reading (jfield request ''entryId'') ?terms (hs_entries s')"
  obtain i off where loop: "page_loop h ?reading ?terms (drop index ?cs) index offset (max 512 (min 4000 budget) - 350)
      = (hp_entries page, i, off)"
    using history_page_entries[OF s'(2)] by blast
  have sound: "list_all (\<lambda>x. list_ex (\<lambda>c. excerpt_of c x) (drop index ?cs)) (hp_entries page)"
    using page_loop_sound[OF loop] by simp
  show ?thesis unfolding list_all_iff
  proof (intro ballI)
    fix x assume "x \<in> set (hp_entries page)"
    with sound obtain c where c: "c \<in> set ?cs" "excerpt_of c x"
      unfolding list_all_iff list_ex_iff by (blast dest: in_set_dropD)
    from candidate_in[OF c(1)] have at: "hc_position c < length (hs_entries s)" "hc_entry c = hs_entries s ! hc_position c"
        "hc_text c = sourceText (hc_entry c)"
        "if ?reading then JStr (r_id (hc_entry c)) = jfield request ''entryId'' else \<not> isRetrievalOutput (hc_entry c)"
      by (auto simp: s'(1))
    from c(2) at show "he_position x < length (hs_entries s) \<and>
       (let r = hs_entries s ! he_position x in
        he_entryId x = r_id r \<and> he_role x = sourceRole r \<and> he_text x \<noteq> [] \<and>
        slice (he_offset x) (he_offset x + length (he_text x)) (sourceText r) = he_text x \<and>
        (if ?reading then jfield request ''entryId'' = JStr (r_id r) else \<not> isRetrievalOutput r))"
      unfolding excerpt_of_def Let_def by (cases ?reading) simp_all
  qed
qed

text \<open>
  C30: History answers with originals only. Every excerpt of a page names a record of the snapshot at its
  branch position and is a nonempty verbatim piece of that record's text at the given offset; a read
  returns the requested record only, and a search never returns the retrieval tool's own results.
\<close>

theorem queryHistory_verbatim:
  assumes "queryHistory h codec s request budget = Inr page"
  shows "list_all (\<lambda>x. he_position x < length (hs_entries s) \<and>
     (let r = hs_entries s ! he_position x in
        he_entryId x = r_id r \<and> he_role x = sourceRole r \<and> he_text x \<noteq> [] \<and>
        slice (he_offset x) (he_offset x + length (he_text x)) (sourceText r) = he_text x \<and>
        (if jfield request ''operation'' = JStr (js ''read'') then jfield request ''entryId'' = JStr (r_id r)
         else \<not> isRetrievalOutput r))) (hp_entries page)"
  by (rule page_verbatim[OF assms])

text \<open>
  A page fits its budget. The JSON of the excerpts, in estimated tokens with 100 for each excerpt's
  fields, stays within the budget, clamped to 512 and 4000, less the 350 reserved for the page.
\<close>

theorem queryHistory_budget:
  assumes "queryHistory h codec s request budget = Inr page"
  shows "sum_list (map (\<lambda>x. int (textTokens (stringify (JStr (he_text x)))) + 100) (hp_entries page)) + 350
    \<le> max 512 (min 4000 budget)"
proof -
  obtain s' n index offset where s': "history_page_at h codec s' request budget index offset = Inr page"
    using queryHistory_page[OF assms] by blast
  obtain reading terms cs i off where loop: "page_loop h reading terms cs
      index offset (max 512 (min 4000 budget) - 350) = (hp_entries page, i, off)"
    using history_page_entries[OF s'] by blast
  have "sum_list (map (excerpt_cost \<circ> he_text) (hp_entries page)) \<le> max 512 (min 4000 budget) - 350"
    using page_loop_sound[OF loop] by simp
  then show ?thesis by (simp add: excerpt_cost_def comp_def)
qed


section \<open>Cursors\<close>

text \<open>
  A reader of numbers that returns the safe integer that was printed. The other numbers of a value that is
  read back are each required to be read as they were printed (\<open>json_reads\<close>), since not every
  numeral is the text of a number.
\<close>

definition documented_numbers :: "host \<Rightarrow> bool" where
  "documented_numbers h \<longleftrightarrow> (\<forall>i. \<bar>i\<bar> \<le> max_safe_integer \<longrightarrow> read_number h (num_str (JInt i)) = JInt i)"

lemma documented_numbersD: "documented_numbers h \<Longrightarrow> \<bar>i\<bar> \<le> max_safe_integer \<Longrightarrow> read_number h (num_str (JInt i)) = JInt i"
  by (simp add: documented_numbers_def)

lemma cursor_names:
  "index_key (js ''sessionId'') = None" "index_key (js ''leafId'') = None" "index_key (js ''scope'') = None"
  "index_key (js ''signature'') = None" "index_key (js ''index'') = None" "index_key (js ''offset'') = None"
  by code_simp+

lemma cursor_json_ok:
  "documented_numbers h \<Longrightarrow> int i \<le> max_safe_integer \<Longrightarrow> int off \<le> max_safe_integer \<Longrightarrow>
   json_reads (read_number h) (cursor_json s signature i off)"
  using documented_numbersD[of h "int i"] documented_numbersD[of h "int off"]
  by (auto simp: cursor_json_def obj_def max_safe_integer_def js_object_names cursor_names split: option.splits)

text \<open>What was printed and encoded is read back, and is not empty.\<close>

lemma encoded_json:
  assumes "documented_codec codec" "json_reads (read_number h) v"
  shows "json_parse (read_number h) (cc_decode codec (cc_encode codec (stringify v))) = Some v"
proof -
  have "well_formed (stringify v)"
    using line_text_stringify(1)[OF reads_by_ok[OF assms(2)]] by (simp add: line_text_def)
  then have "cc_decode codec (cc_encode codec (stringify v)) = stringify v"
    using assms(1) by (simp add: documented_codec_def)
  moreover have "json_parse (read_number h) (stringify v) = Some v"
    using assms(2) by (rule json_parse_stringify)
  ultimately show ?thesis by simp
qed

lemma encoded_Cons:
  "documented_codec codec \<Longrightarrow> stringify v \<noteq> [] \<Longrightarrow> \<exists>u w. cc_encode codec (stringify v) = u # w"
  by (simp add: documented_codec_def flip: neq_Nil_conv)

lemma cursor_decodes:
  assumes "documented_codec codec" "documented_numbers h" "int i \<le> max_safe_integer" "int off \<le> max_safe_integer"
  shows "json_parse (read_number h) (cc_decode codec (cc_encode codec (stringify (cursor_json s signature i off))))
    = Some (cursor_json s signature i off)"
  by (rule encoded_json[OF assms(1) cursor_json_ok[OF assms(2-4)]])

lemma cursor_json_fields [simp]:
  "isRecord (cursor_json s sig i off)" "jfield (cursor_json s sig i off) ''sessionId'' = JStr (hs_sessionId s)"
  "jfield (cursor_json s sig i off) ''signature'' = JStr sig" "jfield (cursor_json s sig i off) ''index'' = jint (int i)"
  "jfield (cursor_json s sig i off) ''offset'' = jint (int off)" "jfield (cursor_json s sig i off) ''scope'' = JStr (hs_scopeHash s)"
  "jfield (cursor_json s sig i off) ''leafId'' = (case hs_leafId s of None \<Rightarrow> JNull | Some l \<Rightarrow> JStr l)"
  by (simp_all add: cursor_json_def obj_def)

text \<open>A cursor of the same snapshot resumes there; on a continuation of the branch it pins the prefix.\<close>

lemma resolve_same:
  assumes "documented_codec codec" "documented_numbers h" "int i \<le> max_safe_integer" "int off \<le> max_safe_integer"
  shows "resolve_cursor h codec s sig (cc_encode codec (stringify (cursor_json s sig i off))) = Inr (s, i, off)"
  using assms by (simp add: resolve_cursor_def cursor_decodes is_safe_integer_def Let_def)

lemma resolve_continued:
  assumes "documented_codec codec" "documented_numbers h" "int i \<le> max_safe_integer" "int off \<le> max_safe_integer"
    and s: "hs_entries s \<noteq> []" "hs_leafId s = Some (r_id (last (hs_entries s)))" "hs_scopeHash s = hash_native h (hs_entries s)"
      "distinct (map r_id (hs_entries s))"
    and s': "hs_sessionId s' = hs_sessionId s" "hs_entries s' = hs_entries s @ later" "hs_scopeHash s' \<noteq> hs_scopeHash s"
  shows "resolve_cursor h codec s' sig (cc_encode codec (stringify (cursor_json s sig i off))) =
    Inr (s'\<lparr>hs_leafId := hs_leafId s, hs_entries := hs_entries s, hs_scopeHash := hs_scopeHash s\<rparr>, i, off)"
proof -
  let ?rs = "hs_entries s" and ?n = "length (hs_entries s) - 1"
  have n: "?n < length ?rs" using s(1) by (cases ?rs) auto
  have last: "last ?rs = ?rs ! ?n" using s(1) by (simp add: last_conv_nth)
  have "find_index (\<lambda>r. JStr (r_id r) = JStr (r_id (last ?rs))) (?rs @ later) = Some ?n"
    using n s(4) unfolding find_index_Some last by (auto simp: nth_append distinct_conv_nth)
  then have find: "find_index (\<lambda>r. r_id r = r_id (last ?rs)) (?rs @ later) = Some ?n" by simp
  have "take (?n + 1) (?rs @ later) = ?rs" using n by simp
  with find n s s' assms(3,4) show ?thesis
    by (simp add: resolve_cursor_def cursor_decodes[OF assms(1-4)] is_safe_integer_def Let_def)
qed

lemma page_snapshot:
  "hs_sessionId a = hs_sessionId b \<Longrightarrow> hs_leafId a = hs_leafId b \<Longrightarrow> hs_scopeHash a = hs_scopeHash b \<Longrightarrow>
   hs_entries a = hs_entries b \<Longrightarrow> history_page_at h codec a request budget i off = history_page_at h codec b request budget i off"
  by (simp add: history_page_at_def cursor_json_def cong: if_cong)

lemma length_candidates: "length (candidates h reading entryId terms rs) \<le> length rs"
proof -
  have one: "length (candidate_of h reading entryId terms p) \<le> 1" for p
    by (simp add: candidate_of_def Let_def)
  have "sum_list (map (length \<circ> candidate_of h reading entryId terms) ps) \<le> length ps" for ps
  proof (induction ps)
    case (Cons p ps)
    show ?case using one[of p] Cons by (simp del: One_nat_def)
  qed simp
  from this[of "indexed rs"] show ?thesis by (simp add: candidates_def length_concat)
qed


lemma encoded_cursor_Cons:
  "documented_codec codec \<Longrightarrow> \<exists>u w. cc_encode codec (stringify (cursor_json s sig i off)) = u # w"
  by (rule encoded_Cons) (simp_all add: cursor_json_def obj_def)

lemma with_cursor:
  assumes "documented_codec codec" "check h historyQuerySchema request"
    and "jfield request ''cursor'' = JStr (cc_encode codec (stringify (cursor_json s sig i off)))"
  shows "queryHistory h codec s' request budget =
    bind_res (resolve_cursor h codec s' (query_signature h request) (cc_encode codec (stringify (cursor_json s sig i off))))
      (\<lambda>(s'', index, offset). history_page_at h codec s'' request budget index offset)"
  using encoded_cursor_Cons[OF assms(1), of s sig i off] assms(2,3) by (auto simp: queryHistory_def)

lemma cursor_pinned:
  assumes "documented_codec codec" and "documented_numbers h"
    and "queryHistory h codec s request budget = Inr page" and "hp_cursor page = Some cursor"
    and "jfield request ''cursor'' = JUndef"
    and "jfield follow ''cursor'' = JStr cursor" and "query_signature h follow = query_signature h request"
    and "hs_entries s \<noteq> []" and "hs_leafId s = Some (r_id (last (hs_entries s)))"
    and "hs_scopeHash s = hash_native h (hs_entries s)" and "distinct (map r_id (hs_entries s))"
    and "int (length (hs_entries s)) \<le> max_safe_integer"
    and "list_all (\<lambda>r. int (length (sourceText r)) \<le> max_safe_integer) (hs_entries s)"
    and "hs_sessionId s' = hs_sessionId s" and "hs_entries s' = hs_entries s @ later" and "hs_scopeHash s' \<noteq> hs_scopeHash s"
  shows "queryHistory h codec s' follow budget' = queryHistory h codec s follow budget'"
proof (cases "check h historyQuerySchema follow")
  case True
  have "history_page_at h codec s request budget 0 0 = Inr page"
    using assms(3,5) by (auto simp: queryHistory_def split: if_splits)
  from history_page_entries[OF this] obtain reading terms cs i off where
    loop: "page_loop h reading terms cs 0 0 (max 512 (min 4000 budget) - 350) = (hp_entries page, i, off)"
    and cs: "cs = candidates h reading (jfield request ''entryId'') terms (hs_entries s)"
    and cursor: "hp_cursor page = (if i < length cs then Some (cc_encode codec (stringify (cursor_json s (query_signature h request) i off))) else None)"
    by (auto simp: drop_0)
  have cur: "cursor = cc_encode codec (stringify (cursor_json s (query_signature h follow) i off))" "i < length cs"
    using assms(4,7) cursor by (auto split: if_splits)
  have i: "int i \<le> max_safe_integer"
    using cur(2) length_candidates[of h reading "jfield request ''entryId''" terms "hs_entries s"] assms(12) by (simp add: cs)
  have "off = 0 \<or> (\<exists>c \<in> set cs. off \<le> length (hc_text c))"
    using page_loop_sound[OF loop] by (auto simp: list_ex_iff)
  then have off: "int off \<le> max_safe_integer"
  proof
    assume "\<exists>c \<in> set cs. off \<le> length (hc_text c)"
    then obtain c where c: "c \<in> set cs" "off \<le> length (hc_text c)" by blast
    from candidate_in[OF c(1)[unfolded cs]] have "int (length (hc_text c)) \<le> max_safe_integer"
      using assms(13) by (auto simp: list_all_length)
    with c(2) show ?thesis by simp
  qed (simp add: max_safe_integer_def)
  note follow = with_cursor[OF assms(1) True assms(6)[unfolded cur(1)]]
  have "queryHistory h codec s follow budget' = history_page_at h codec s follow budget' i off"
    unfolding follow resolve_same[OF assms(1,2) i off] by simp
  moreover have "queryHistory h codec s' follow budget' = history_page_at h codec s follow budget' i off"
    unfolding follow resolve_continued[OF assms(1,2) i off assms(8-11,14-16)] bind_res_simps prod.case
    by (rule page_snapshot) (simp_all add: assms(14))
  ultimately show ?thesis by simp
qed (simp add: queryHistory_def)

text \<open>
  C32: A cursor keeps its branch. A page's cursor, used with the same query after the branch has grown,
  gives exactly the page it gives on the branch it was made for: the continuation never shifts the
  ranking or leaks later records into it. The page is the first one of its query, and the scope hashes of
  the two branches are assumed to differ: were they equal, the cursor would be taken for one of the grown branch.
\<close>

theorem cursor_pins_branch:
  assumes "documented_codec codec" and "documented_numbers h"
    and "queryHistory h codec s request budget = Inr page" and "hp_cursor page = Some cursor"
    and "jfield request ''cursor'' = JUndef"
    and "jfield follow ''cursor'' = JStr cursor" and "query_signature h follow = query_signature h request"
    and "hs_entries s \<noteq> []" and "hs_leafId s = Some (r_id (last (hs_entries s)))"
    and "hs_scopeHash s = hash_native h (hs_entries s)" and "distinct (map r_id (hs_entries s))"
    and "int (length (hs_entries s)) \<le> max_safe_integer"
    and "list_all (\<lambda>r. int (length (sourceText r)) \<le> max_safe_integer) (hs_entries s)"
    and "hs_sessionId s' = hs_sessionId s" and "hs_entries s' = hs_entries s @ later" and "hs_scopeHash s' \<noteq> hs_scopeHash s"
  shows "queryHistory h codec s' follow budget' = queryHistory h codec s follow budget'"
  by (rule cursor_pinned[OF assms])

section \<open>Reading a record across pages\<close>

definition read_request :: "jstring \<Rightarrow> jstring option \<Rightarrow> jsval" where
  "read_request i cursor = obj ([(''operation'', JStr (js ''read'')), (''entryId'', JStr i)] @
     (case cursor of None \<Rightarrow> [] | Some c \<Rightarrow> [(''cursor'', JStr c)]))"

text \<open>What a caller gets that follows the cursors, at most \<open>n\<close> pages.\<close>

fun read_pages :: "host \<Rightarrow> cursor_codec \<Rightarrow> history_snapshot \<Rightarrow> jstring \<Rightarrow> int \<Rightarrow> jstring option \<Rightarrow> nat \<Rightarrow> jstring option" where
  "read_pages h codec s i budget cursor 0 = None"
| "read_pages h codec s i budget cursor (Suc n) =
     (case queryHistory h codec s (read_request i cursor) budget of
        Inl _ \<Rightarrow> None
      | Inr page \<Rightarrow>
          let t = concat (map he_text (hp_entries page)) in
          (case hp_cursor page of None \<Rightarrow> Some t
           | Some c \<Rightarrow> map_option ((@) t) (read_pages h codec s i budget (Some c) n)))"

lemma read_request_fields [simp]:
  "jfield (read_request i c) ''operation'' = JStr (js ''read'')" "jfield (read_request i c) ''entryId'' = JStr i"
  "jfield (read_request i c) ''query'' = JUndef" "jfield (read_request i (Some t)) ''cursor'' = JStr t"
  "jfield (read_request i None) ''cursor'' = JUndef"
  by (simp_all add: read_request_def obj_def split: option.splits)

lemma read_signature: "query_signature h (read_request i c) = query_signature h (read_request i None)"
  by (simp add: query_signature_def)

lemma read_candidates:
  assumes "distinct (map r_id rs)" "k < length rs" "sourceText (rs ! k) \<noteq> []"
  shows "candidates h True (JStr (r_id (rs ! k))) terms rs =
    [\<lparr>hc_entry = rs ! k, hc_text = sourceText (rs ! k), hc_score = 1, hc_weight = 0, hc_position = k\<rparr>]"
proof -
  let ?f = "candidate_of h True (JStr (r_id (rs ! k))) terms"
  have split: "indexed rs = take k (indexed rs) @ (k, rs ! k) # drop (Suc k) (indexed rs)"
    using assms(2) id_take_nth_drop[of k "indexed rs"] by simp
  have "?f p = []" if other: "p \<in> set (take k (indexed rs)) \<or> p \<in> set (drop (Suc k) (indexed rs))" for p
  proof -
    have "\<exists>j. j < length rs \<and> j \<noteq> k \<and> p = (j, rs ! j)"
      using other
    proof
      assume "p \<in> set (take k (indexed rs))"
      then obtain m where "m < k" "p = indexed rs ! m" using assms(2) by (auto simp: in_set_conv_nth)
      with assms(2) show ?thesis by (intro exI[of _ m]) simp
    next
      assume "p \<in> set (drop (Suc k) (indexed rs))"
      then obtain m where "Suc k + m < length rs" "p = indexed rs ! (Suc k + m)" by (auto simp: in_set_conv_nth)
      then show ?thesis by (intro exI[of _ "Suc k + m"]) simp
    qed
    then obtain j where j: "j < length rs" "j \<noteq> k" "p = (j, rs ! j)" by blast
    then have "r_id (rs ! j) \<noteq> r_id (rs ! k)" using assms(1,2) by (auto simp: distinct_conv_nth)
    then show ?thesis by (simp add: candidate_of_def Let_def j(3))
  qed
  then have before: "concat (map ?f (take k (indexed rs))) = []" and after: "concat (map ?f (drop (Suc k) (indexed rs))) = []" by auto
  have here: "?f (k, rs ! k) = [\<lparr>hc_entry = rs ! k, hc_text = sourceText (rs ! k), hc_score = 1, hc_weight = 0, hc_position = k\<rparr>]"
    using assms(3) by (simp add: candidate_of_def Let_def)
  have "concat (map ?f (indexed rs)) = concat (map ?f (take k (indexed rs))) @ ?f (k, rs ! k) @ concat (map ?f (drop (Suc k) (indexed rs)))"
    by (subst split) (simp only: map_append concat_append list.map concat.simps)
  then have "concat (map ?f (indexed rs)) = [\<lparr>hc_entry = rs ! k, hc_text = sourceText (rs ! k), hc_score = 1, hc_weight = 0, hc_position = k\<rparr>]"
    unfolding before after here by simp
  then show ?thesis by (simp add: candidates_def)
qed


text \<open>The page of a read that continues at \<open>off\<close>, of the record \<open>r\<close> at a branch position.\<close>

definition read_piece :: "int \<Rightarrow> nat \<Rightarrow> jstring \<Rightarrow> jstring" where
  "read_piece budget off t =
     (let R = max 512 (min 4000 budget) - 350 in shrink_excerpt R (slice off (off + nat (R * 2)) t))"

definition read_page_at ::
    "host \<Rightarrow> cursor_codec \<Rightarrow> history_snapshot \<Rightarrow> session_record \<Rightarrow> nat \<Rightarrow> int \<Rightarrow> nat \<Rightarrow> history_page" where
  "read_page_at h codec s r k budget off =
     (let e = read_piece budget off (sourceText r) in
      \<lparr>hp_sessionId = hs_sessionId s, hp_leafId = hs_leafId s, hp_scopeHash = hs_scopeHash s,
       hp_entries = [\<lparr>he_entryId = r_id r, he_parentId = r_parent r, he_role = sourceRole r, he_position = k, he_offset = off, he_text = e\<rparr>],
       hp_cursor = (if off + length e < length (sourceText r)
         then Some (cc_encode codec (stringify (cursor_json s (query_signature h (read_request (r_id r) None)) 0 (off + length e)))) else None),
       hp_message = None\<rparr>)"

lemma read_piece_text:
  assumes "off < length t"
  shows "read_piece budget off t \<noteq> []" "slice off (off + length (read_piece budget off t)) t = read_piece budget off t"
    "int (length (read_piece budget off t)) \<le> 2 * (max 512 (min 4000 budget) - 350)"
proof -
  define R where "R = max 512 (min 4000 budget) - 350"
  let ?piece = "slice off (off + nat (R * 2)) t"
  have e: "read_piece budget off t = shrink_excerpt R ?piece" by (simp add: read_piece_def R_def Let_def)
  have R: "108 \<le> R" by (simp add: R_def)
  then have "?piece \<noteq> []" using assms by (simp add: slice_def)
  with R show ne: "read_piece budget off t \<noteq> []" unfolding e by (intro shrink_not_empty)
  obtain n where n: "read_piece budget off t = take n ?piece" using shrink_prefix[of R ?piece] by (auto simp: e)
  show "int (length (read_piece budget off t)) \<le> 2 * (max 512 (min 4000 budget) - 350)"
    unfolding n R_def[symmetric] using R by (simp add: length_slice)
  show "slice off (off + length (read_piece budget off t)) t = read_piece budget off t" using n ne by (rule take_slice)
qed

lemma read_page_exact:
  assumes "distinct (map r_id (hs_entries s))" "k < length (hs_entries s)" "off < length (sourceText (hs_entries s ! k))"
    and "r_id (hs_entries s ! k) \<noteq> []"
  shows "history_page_at h codec s (read_request (r_id (hs_entries s ! k)) cursor) budget 0 off =
    Inr (read_page_at h codec s (hs_entries s ! k) k budget off)"
proof -
  let ?r = "hs_entries s ! k" and ?t = "sourceText (hs_entries s ! k)"
  define e where "e = read_piece budget off ?t"
  define R where "R = max 512 (min 4000 budget) - 350"
  define x where "x = \<lparr>he_entryId = r_id ?r, he_parentId = r_parent ?r, he_role = sourceRole ?r, he_position = k, he_offset = off, he_text = e\<rparr>"
  let ?c = "\<lparr>hc_entry = ?r, hc_text = ?t, hc_score = 1, hc_weight = 0, hc_position = k\<rparr>"
  have "?t \<noteq> []" using assms(3) by auto
  note cs = read_candidates[OF assms(1,2) this]
  have e: "e \<noteq> []" unfolding e_def by (rule read_piece_text(1)[OF assms(3)])
  have shrink: "shrink_excerpt R (slice off (off + nat (R * 2)) ?t) = e" by (simp add: e_def read_piece_def R_def Let_def)
  have loop: "page_loop h True terms [?c] 0 off R =
      (if off + length e < length ?t then ([x], 0, off + length e) else ([x], 1, 0))" for terms
    using e by (simp add: Let_def shrink x_def)
  show ?thesis
    using assms(4) by (simp add: history_page_at_def cs loop Let_def read_signature[of h _ cursor] R_def[symmetric]
        read_page_at_def e_def[symmetric] x_def[symmetric] del: page_loop.simps)
qed

lemma read_page:
  assumes "distinct (map r_id (hs_entries s))" "k < length (hs_entries s)" "off < length (sourceText (hs_entries s ! k))"
    and "r_id (hs_entries s ! k) \<noteq> []"
  shows "\<exists>page e. history_page_at h codec s (read_request (r_id (hs_entries s ! k)) cursor) budget 0 off = Inr page \<and>
    concat (map he_text (hp_entries page)) = e \<and> e \<noteq> [] \<and> e = slice off (off + length e) (sourceText (hs_entries s ! k)) \<and>
    int (length e) \<le> 2 * (max 512 (min 4000 budget) - 350) \<and>
    hp_cursor page = (if off + length e < length (sourceText (hs_entries s ! k))
      then Some (cc_encode codec (stringify (cursor_json s (query_signature h (read_request (r_id (hs_entries s ! k)) None)) 0 (off + length e))))
      else None)"
  unfolding read_page_exact[OF assms] using read_piece_text[OF assms(3), of budget]
  by (simp add: read_page_at_def Let_def)

text \<open>
  C31: Reading to the end gives the whole record. For a record of the snapshot with a distinct id and some
  text, following the cursors of \<open>read\<close> ends after finitely many pages, whatever the budget, and the
  pages' texts put together are exactly the record's text, provided the request schema accepts the
  cursors it is given.
\<close>

theorem read_pages_complete:
  assumes "documented_codec codec" and "documented_numbers h"
    and "distinct (map r_id (hs_entries s))" and "k < length (hs_entries s)"
    and "sourceText (hs_entries s ! k) \<noteq> []" and "r_id (hs_entries s ! k) \<noteq> []"
    and "int (length (sourceText (hs_entries s ! k))) \<le> max_safe_integer"
    and "check h historyQuerySchema (read_request (r_id (hs_entries s ! k)) None)"
    and "list_all (\<lambda>off. check h historyQuerySchema (read_request (r_id (hs_entries s ! k)) (Some (cc_encode codec
      (stringify (cursor_json s (query_signature h (read_request (r_id (hs_entries s ! k)) None)) 0 off))))))
      [0..<length (sourceText (hs_entries s ! k))]"
  shows "\<exists>n. read_pages h codec s (r_id (hs_entries s ! k)) budget None n = Some (sourceText (hs_entries s ! k))"
proof -
  let ?i = "r_id (hs_entries s ! k)" and ?t = "sourceText (hs_entries s ! k)"
  let ?cursor = "\<lambda>off. cc_encode codec (stringify (cursor_json s (query_signature h (read_request ?i None)) 0 off))"
  have follow: "\<exists>n. read_pages h codec s ?i budget cursor n = Some (drop off ?t)"
    if "off < length ?t" "queryHistory h codec s (read_request ?i cursor) budget = history_page_at h codec s (read_request ?i cursor) budget 0 off" for off cursor
    using that
  proof (induction "length ?t - off" arbitrary: off cursor rule: less_induct)
    case less
    obtain page e where page: "history_page_at h codec s (read_request ?i cursor) budget 0 off = Inr page"
        "concat (map he_text (hp_entries page)) = e" "e \<noteq> []" "e = slice off (off + length e) ?t"
        "hp_cursor page = (if off + length e < length ?t then Some (?cursor (off + length e)) else None)"
      using read_page[OF assms(3,4) less.prems(1) assms(6)] by blast
    have rest: "drop off ?t = e @ drop (off + length e) ?t"
      using slice_append_drop[of off "off + length e" ?t] page(4) by simp
    show ?case
    proof (cases "off + length e < length ?t")
      case True
      let ?next = "read_request ?i (Some (?cursor (off + length e)))"
      have "check h historyQuerySchema ?next" using assms(9) True by (simp add: list_all_iff)
      then have "queryHistory h codec s ?next budget = history_page_at h codec s ?next budget 0 (off + length e)"
        using with_cursor[OF assms(1), of h ?next s "query_signature h (read_request ?i None)" 0 "off + length e" s budget]
          resolve_same[OF assms(1,2), of 0 "off + length e" s "query_signature h (read_request ?i None)"] True assms(7)
        by (simp add: read_signature[of h _ "Some _"])
      with less.hyps[of "off + length e" "Some (?cursor (off + length e))"] page(3) True
      obtain n where "read_pages h codec s ?i budget (Some (?cursor (off + length e))) n = Some (drop (off + length e) ?t)"
        by (auto simp: diff_less_mono2)
      then have "read_pages h codec s ?i budget cursor (Suc n) = Some (drop off ?t)"
        using page less.prems(2) True rest by simp
      then show ?thesis by blast
    next
      case False
      then have "read_pages h codec s ?i budget cursor (Suc 0) = Some (drop off ?t)"
        using page less.prems(2) rest by simp
      then show ?thesis by blast
    qed
  qed
  have "queryHistory h codec s (read_request ?i None) budget = history_page_at h codec s (read_request ?i None) budget 0 0"
    using assms(8) by (simp add: queryHistory_def)
  from follow[OF _ this] assms(5) show ?thesis by auto
qed

section \<open>The excerpt window\<close>

text \<open>\<open>w\<close> holds how often each term occurs in the hits \<open>ws\<close> of the window, and no other term.\<close>

definition holds_window :: "(nat \<times> nat) list \<Rightarrow> window \<Rightarrow> bool" where
  "holds_window ws w \<longleftrightarrow> distinct (map fst w) \<and>
     (\<forall>t. map_of w t = (let n = count_list (map snd ws) t in if n = 0 then None else Some n))"

lemma holds_window_Nil: "holds_window [] []"
  by (simp add: holds_window_def)

lemma holds_window_add:
  assumes "holds_window ws w"
  shows "holds_window (ws @ [(k, t)]) (AList.update t ((case map_of w t of None \<Rightarrow> 0 | Some n \<Rightarrow> n) + 1) w)"
  using assms by (auto simp: holds_window_def update_conv Let_def intro: distinct_update)

lemma holds_window_drop:
  assumes "holds_window ((k, t) # ws) w"
  shows "holds_window ws (window_drop t w)"
proof -
  have t: "map_of w t = Some (count_list (map snd ws) t + 1)" and d: "distinct (map fst w)"
    and other: "map_of w u = (let n = count_list (map snd ((k, t) # ws)) u in if n = 0 then None else Some n)" for u
    using assms by (auto simp: holds_window_def)
  show ?thesis
    using d other by (auto simp: holds_window_def window_drop_def t update_conv delete_conv Let_def
        distinct_update distinct_delete)
qed

lemma holds_window_size:
  assumes "holds_window ws w"
  shows "length w = card (snd ` set ws)"
proof -
  have d: "distinct (map fst w)" using assms by (simp add: holds_window_def)
  have "t \<in> fst ` set w \<longleftrightarrow> t \<in> snd ` set ws" for t
  proof -
    have "t \<in> fst ` set w \<longleftrightarrow> map_of w t \<noteq> None" by (simp add: map_of_eq_None_iff)
    also have "\<dots> \<longleftrightarrow> count_list (map snd ws) t \<noteq> 0" using assms by (simp add: holds_window_def Let_def)
    also have "\<dots> \<longleftrightarrow> t \<in> snd ` set ws" by (simp add: count_list_0_iff)
    finally show ?thesis .
  qed
  then have "fst ` set w = snd ` set ws" by blast
  then show ?thesis using distinct_card[OF d] by simp
qed

lemma window_grow_takes:
  assumes "holds_window ws w"
  shows "\<exists>w'. window_grow start nexts w = (dropWhile (\<lambda>p. fst p - start \<le> HIT_WINDOW) nexts, w') \<and>
    holds_window (ws @ takeWhile (\<lambda>p. fst p - start \<le> HIT_WINDOW) nexts) w'"
  using assms
proof (induction start nexts w arbitrary: ws rule: window_grow.induct)
  case (2 start k t hits w)
  show ?case
  proof (cases "k - start \<le> HIT_WINDOW")
    case True
    from "2.IH"[OF True holds_window_add[OF "2.prems", of k t]] True show ?thesis by simp
  next
    case False
    with "2.prems" show ?thesis by simp
  qed
qed simp

text \<open>How many terms meet in the window that starts at the first hit of a list.\<close>

definition meeting :: "(nat \<times> nat) list \<Rightarrow> nat" where
  "meeting hits = (case hits of [] \<Rightarrow> 0
     | f # _ \<Rightarrow> card (snd ` set (takeWhile (\<lambda>p. fst p - fst f \<le> HIT_WINDOW) hits)))"

fun best_meeting :: "(nat \<times> nat) list \<Rightarrow> nat \<Rightarrow> nat \<Rightarrow> nat" where
  "best_meeting [] best most = best"
| "best_meeting (f # fs) best most =
     (if meeting (f # fs) > most then best_meeting fs (fst f) (meeting (f # fs)) else best_meeting fs best most)"

lemma window_slide_best:
  assumes "holds_window ws w" "firsts = ws @ nexts" "sorted (map fst firsts)"
    and "list_all (\<lambda>p. fst p - fst (hd firsts) \<le> HIT_WINDOW) ws"
  shows "window_slide firsts nexts w best most = best_meeting firsts best most"
  using assms
proof (induction firsts arbitrary: ws nexts w best most)
  case (Cons f fs)
  obtain k t where f: "f = (k, t)" by (cases f)
  let ?in = "\<lambda>p. fst p - k \<le> HIT_WINDOW"
  obtain w' where w': "window_grow k nexts w = (dropWhile ?in nexts, w')" "holds_window (ws @ takeWhile ?in nexts) w'"
    using window_grow_takes[OF Cons.prems(1), of k nexts] by blast
  have all_ws: "\<forall>p \<in> set ws. ?in p" using Cons.prems(4) f by (simp add: list_all_iff)
  have tw: "takeWhile ?in (f # fs) = ws @ takeWhile ?in nexts"
    unfolding Cons.prems(2) by (rule takeWhile_append2) (use all_ws in auto)
  moreover have "takeWhile ?in (f # fs) = f # takeWhile ?in fs" by (simp add: f)
  ultimately have window: "ws @ takeWhile ?in nexts = f # takeWhile ?in fs" by simp
  have "dropWhile ?in (f # fs) = dropWhile ?in nexts"
    unfolding Cons.prems(2) using all_ws by (induction ws) auto
  then have nexts: "dropWhile ?in nexts = dropWhile ?in fs" by (simp add: f)
  have size: "length w' = meeting (f # fs)"
    using holds_window_size[OF w'(2)] by (simp add: meeting_def f tw[unfolded f, simplified])
  have "holds_window (takeWhile ?in fs) (window_drop t w')"
    using w'(2) unfolding window f by (rule holds_window_drop)
  moreover have "fs = takeWhile ?in fs @ dropWhile ?in nexts" unfolding nexts by simp
  moreover have "list_all (\<lambda>p. fst p - fst (hd fs) \<le> HIT_WINDOW) (takeWhile ?in fs)"
  proof -
    have "k \<le> fst (hd fs)" if "fs \<noteq> []" using that Cons.prems(3) f by (cases fs) auto
    then show ?thesis by (cases fs) (fastforce simp: list_all_iff dest: set_takeWhileD)+
  qed
  ultimately have "window_slide fs (dropWhile ?in nexts) (window_drop t w') b m = best_meeting fs b m" for b m
    using Cons.prems(3) by (intro Cons.IH) auto
  then show ?case by (simp add: f w'(1) size[unfolded f])
qed simp

lemma best_meeting_max:
  assumes "best_meeting hits best most = b"
  shows "(b = best \<and> (\<forall>i < length hits. meeting (drop i hits) \<le> most)) \<or>
    (\<exists>j < length hits. b = fst (hits ! j) \<and> most < meeting (drop j hits) \<and>
       (\<forall>i < length hits. meeting (drop i hits) \<le> meeting (drop j hits)) \<and>
       (\<forall>i < j. meeting (drop i hits) < meeting (drop j hits)))"
  using assms
proof (induction hits arbitrary: best most)
  case (Cons f fs)
  show ?case
  proof (cases "meeting (f # fs) > most")
    case True
    then have "best_meeting fs (fst f) (meeting (f # fs)) = b" using Cons.prems by simp
    from Cons.IH[OF this] show ?thesis
    proof
      assume a: "b = fst f \<and> (\<forall>i < length fs. meeting (drop i fs) \<le> meeting (f # fs))"
      then show ?thesis using True by (intro disjI2 exI[of _ 0]) (auto simp: All_less_Suc2)
    next
      assume "\<exists>j < length fs. b = fst (fs ! j) \<and> meeting (f # fs) < meeting (drop j fs) \<and>
       (\<forall>i < length fs. meeting (drop i fs) \<le> meeting (drop j fs)) \<and> (\<forall>i < j. meeting (drop i fs) < meeting (drop j fs))"
      then obtain j where j: "j < length fs" "b = fst (fs ! j)" "meeting (f # fs) < meeting (drop j fs)"
        "\<forall>i < length fs. meeting (drop i fs) \<le> meeting (drop j fs)" "\<forall>i < j. meeting (drop i fs) < meeting (drop j fs)" by blast
      then show ?thesis using True by (intro disjI2 exI[of _ "Suc j"]) (auto simp: All_less_Suc2)
    qed
  next
    case False
    then have "best_meeting fs best most = b" using Cons.prems by simp
    from Cons.IH[OF this] show ?thesis
    proof
      assume "b = best \<and> (\<forall>i < length fs. meeting (drop i fs) \<le> most)"
      then show ?thesis using False by (intro disjI1) (auto simp: All_less_Suc2)
    next
      assume "\<exists>j < length fs. b = fst (fs ! j) \<and> most < meeting (drop j fs) \<and>
       (\<forall>i < length fs. meeting (drop i fs) \<le> meeting (drop j fs)) \<and> (\<forall>i < j. meeting (drop i fs) < meeting (drop j fs))"
      then obtain j where j: "j < length fs" "b = fst (fs ! j)" "most < meeting (drop j fs)"
        "\<forall>i < length fs. meeting (drop i fs) \<le> meeting (drop j fs)" "\<forall>i < j. meeting (drop i fs) < meeting (drop j fs)" by blast
      then show ?thesis using False by (intro disjI2 exI[of _ "Suc j"]) (auto simp: All_less_Suc2)
    qed
  qed
qed simp

lemma meeting_pos: "hits \<noteq> [] \<Longrightarrow> 0 < meeting hits"
  by (cases hits) (auto simp: meeting_def card_gt_0_iff)

lemma hit_loop_occurs: "k \<in> set (hit_loop normalized word p n) \<Longrightarrow> starts_with word (drop k normalized)"
proof (induction normalized word p n rule: hit_loop.induct)
  case (2 normalized word p n)
  obtain q where q: "index_from word normalized p = Some q" "k = q \<or> k \<in> set (hit_loop normalized word (q + 1) n)"
    using 2(2) by (cases "index_from word normalized p") auto
  have "starts_with word (drop q normalized)"
    using q(1) by (auto simp: index_from_def Let_def index_of_Some add.commute)
  with q 2(1)[OF q(1)] show ?case by auto
qed simp

lemma sorted_fst: "sorted hits \<Longrightarrow> sorted (map fst (hits :: (nat \<times> nat) list))"
  by (induction hits) (auto simp: less_eq_prod_def less_le_not_le)

text \<open>
  A search excerpt shows where the terms meet. \<open>excerptStart\<close> starts 120 characters before a hit
  whose window of 400 characters holds the most distinct terms of all windows, the first such hit;
  every hit is an occurrence of its term. The sliding counts of the source compute exactly this.
\<close>

theorem excerptStart_meets:
  "list_all (\<lambda>(k, t). t < length terms \<and> starts_with (terms ! t) (drop k normalized)) (all_hits normalized terms) \<and>
   (if all_hits normalized terms = [] then excerptStart normalized terms = 0
    else (\<exists>j. j < length (all_hits normalized terms) \<and>
       excerptStart normalized terms = fst (all_hits normalized terms ! j) - 120 \<and>
       list_all (\<lambda>i. meeting (drop i (all_hits normalized terms)) \<le> meeting (drop j (all_hits normalized terms)))
         [0..<length (all_hits normalized terms)] \<and>
       list_all (\<lambda>i. meeting (drop i (all_hits normalized terms)) < meeting (drop j (all_hits normalized terms))) [0..<j]))"
proof -
  let ?hits = "all_hits normalized terms"
  have "list_all (\<lambda>(k, t). t < length terms \<and> starts_with (terms ! t) (drop k normalized)) ?hits"
    by (auto simp: list_all_iff all_hits_def in_set_indexed dest: hit_loop_occurs)
  moreover have "\<exists>j. j < length ?hits \<and> excerptStart normalized terms = fst (?hits ! j) - 120 \<and>
       list_all (\<lambda>i. meeting (drop i ?hits) \<le> meeting (drop j ?hits)) [0..<length ?hits] \<and>
       list_all (\<lambda>i. meeting (drop i ?hits) < meeting (drop j ?hits)) [0..<j]" if "?hits \<noteq> []"
  proof -
    have "window_slide ?hits ?hits [] (fst (hd ?hits)) 0 = best_meeting ?hits (fst (hd ?hits)) 0"
      by (rule window_slide_best[OF holds_window_Nil]) (simp_all add: sorted_fst all_hits_def)
    then have start: "excerptStart normalized terms = best_meeting ?hits (fst (hd ?hits)) 0 - 120"
      using that by (simp add: excerptStart_def Let_def)
    have "\<not> (\<forall>i < length ?hits. meeting (drop i ?hits) \<le> 0)"
      using meeting_pos[OF that] that by (auto intro!: exI[of _ 0])
    with best_meeting_max[OF refl, of ?hits "fst (hd ?hits)" 0] start show ?thesis
      by (auto simp: list_all_iff)
  qed
  ultimately show ?thesis by (simp add: excerptStart_def)
qed

section \<open>Witnesses\<close>

definition plain_codec :: cursor_codec where
  "plain_codec = \<lparr>cc_encode = id, cc_decode = id\<rparr>"

definition long_record :: session_record where
  "long_record = text_record ''a'' ''user'' (replicate 400 CHR ''k'')"

definition long_snapshot :: history_snapshot where
  "long_snapshot = \<lparr>hs_sessionId = js ''s'', hs_leafId = Some (js ''a''), hs_scopeHash = hash_native plain_host [long_record],
     hs_entries = [long_record]\<rparr>"

definition grown_snapshot :: history_snapshot where
  "grown_snapshot = \<lparr>hs_sessionId = js ''s'', hs_leafId = Some (js ''u1''), hs_scopeHash = 0x30 # hash_native plain_host [long_record],
     hs_entries = [long_record, sample_user]\<rparr>"

lemma plain_codec_documented: "documented_codec plain_codec"
  by (simp add: documented_codec_def plain_codec_def)

lemma plain_numbers: "documented_numbers plain_host"
  using read_num_num_str[of "JInt i" for i] by (simp add: documented_numbers_def plain_host_def max_safe_integer_def)

lemma long_source: "sourceText long_record = js (replicate 400 CHR ''k'')"
  by (simp add: long_record_def sourceText_text_record)

lemma read_accepted: "check plain_host historyQuerySchema (read_request (js ''a'') None)"
  by (simp add: plain_host_def historyQuerySchema_def read_request_def conforms_simps)

lemma long_page:
  "\<exists>page cursor. queryHistory plain_host plain_codec long_snapshot (read_request (js ''a'') None) 0 = Inr page \<and>
     hp_cursor page = Some cursor"
proof -
  have at: "hs_entries long_snapshot ! 0 = long_record" by (simp add: long_snapshot_def)
  have "\<exists>page e. history_page_at plain_host plain_codec long_snapshot (read_request (r_id (hs_entries long_snapshot ! 0)) None) 0 0 0 = Inr page \<and>
    concat (map he_text (hp_entries page)) = e \<and> e \<noteq> [] \<and> e = slice 0 (0 + length e) (sourceText (hs_entries long_snapshot ! 0)) \<and>
    int (length e) \<le> 2 * (max 512 (min 4000 0) - 350) \<and>
    hp_cursor page = (if 0 + length e < length (sourceText (hs_entries long_snapshot ! 0))
      then Some (cc_encode plain_codec (stringify (cursor_json long_snapshot
        (query_signature plain_host (read_request (r_id (hs_entries long_snapshot ! 0)) None)) 0 (0 + length e)))) else None)"
    by (rule read_page) (simp_all add: long_snapshot_def long_source, simp_all add: long_record_def)
  then obtain page and e :: jstring where page: "history_page_at plain_host plain_codec long_snapshot (read_request (r_id long_record) None) 0 0 0 = Inr page"
    "int (length e) \<le> 2 * (max 512 (min 4000 0) - 350)" "hp_cursor page = (if 0 + length e < length (sourceText long_record)
      then Some (cc_encode plain_codec (stringify (cursor_json long_snapshot
        (query_signature plain_host (read_request (r_id long_record) None)) 0 (0 + length e)))) else None)"
    unfolding at by (elim exE conjE) (rule that)
  have "r_id long_record = js ''a''" by (simp add: long_record_def)
  moreover have "0 + length e < length (sourceText long_record)" using page(2) by (simp add: long_source)
  ultimately show ?thesis using page(1,3) read_accepted by (simp add: queryHistory_def)
qed

theorem queryHistory_verbatim_witness:
  "\<exists>page. queryHistory plain_host plain_codec long_snapshot (read_request (js ''a'') None) 0 = Inr page \<and>
     list_all (\<lambda>x. he_entryId x = js ''a'') (hp_entries page)"
proof -
  obtain page where page: "queryHistory plain_host plain_codec long_snapshot (read_request (js ''a'') None) 0 = Inr page"
    using long_page by blast
  have "he_entryId x = js ''a''" if x: "x \<in> set (hp_entries page)" for x
  proof -
    have "he_position x < length (hs_entries long_snapshot)" "he_entryId x = r_id (hs_entries long_snapshot ! he_position x)"
      using queryHistory_verbatim[OF page] x unfolding list_all_iff Let_def by blast+
    then show ?thesis by (simp add: long_snapshot_def long_record_def)
  qed
  with page show ?thesis by (auto simp: list_all_iff)
qed

theorem queryHistory_budget_witness:
  "\<exists>page. queryHistory plain_host plain_codec long_snapshot (read_request (js ''a'') None) 0 = Inr page \<and>
     sum_list (map (\<lambda>x. int (textTokens (stringify (JStr (he_text x)))) + 100) (hp_entries page)) \<le> 162"
proof -
  obtain page where page: "queryHistory plain_host plain_codec long_snapshot (read_request (js ''a'') None) 0 = Inr page"
    using long_page by blast
  with queryHistory_budget[OF page] show ?thesis by auto
qed

theorem cursor_pins_branch_witness:
  "\<exists>page cursor. queryHistory plain_host plain_codec long_snapshot (read_request (js ''a'') None) 0 = Inr page \<and>
     hp_cursor page = Some cursor \<and>
     queryHistory plain_host plain_codec grown_snapshot (read_request (js ''a'') (Some cursor)) 0
       = queryHistory plain_host plain_codec long_snapshot (read_request (js ''a'') (Some cursor)) 0"
proof -
  obtain page cursor where page: "queryHistory plain_host plain_codec long_snapshot (read_request (js ''a'') None) 0 = Inr page"
      "hp_cursor page = Some cursor"
    using long_page by blast
  have "queryHistory plain_host plain_codec grown_snapshot (read_request (js ''a'') (Some cursor)) 0
       = queryHistory plain_host plain_codec long_snapshot (read_request (js ''a'') (Some cursor)) 0"
    by (rule cursor_pins_branch[OF plain_codec_documented plain_numbers page, where later = "[sample_user]"])
      (simp_all add: long_snapshot_def grown_snapshot_def long_source max_safe_integer_def read_signature[of _ _ "Some _"],
       simp_all add: long_record_def)
  with page show ?thesis by blast
qed

theorem read_pages_complete_witness:
  "\<exists>n. read_pages (plain_host\<lparr>check := \<lambda>_ _. True\<rparr>) plain_codec long_snapshot (js ''a'') 0 None n = Some (js (replicate 400 CHR ''k''))"
proof -
  have "documented_numbers (plain_host\<lparr>check := \<lambda>_ _. True\<rparr>)"
    using plain_numbers by (simp add: documented_numbers_def)
  from read_pages_complete[OF plain_codec_documented this, of long_snapshot 0 0] show ?thesis
    by (simp add: long_snapshot_def long_source max_safe_integer_def list_all_iff) (simp add: long_record_def)
qed

end
