(* ===== verification/View_Text.thy ===== *)
theory View_Text
  imports History
begin

text \<open>
  \<^bold>\<open>history-view.ts\<close>, the reading half: which entries the context already holds, what a full read costs,
  the longest fitting slice, and the low-detail read. A loop that follows cursors has no bound of its
  own in the source, so it is a \<open>partial_function\<close>: \<open>None\<close> is a call that does not return.
\<close>

section \<open>Calls that may throw or not return\<close>

type_synonym 'a run = "'a res option"

definition bind_run :: "'a run \<Rightarrow> ('a \<Rightarrow> 'b run) \<Rightarrow> 'b run" where
  "bind_run m f = (case m of None \<Rightarrow> None | Some (Inl e) \<Rightarrow> Some (Inl e) | Some (Inr x) \<Rightarrow> f x)"

abbreviation returns :: "'a \<Rightarrow> 'a run" where
  "returns x \<equiv> Some (Inr x)"

fun map_run :: "('a \<Rightarrow> 'b run) \<Rightarrow> 'a list \<Rightarrow> 'b list run" where
  "map_run f [] = returns []"
| "map_run f (x # xs) = bind_run (f x) (\<lambda>y. bind_run (map_run f xs) (\<lambda>ys. returns (y # ys)))"

lemma bind_run_simps [simp]:
  "bind_run None f = None" "bind_run (Some (Inl e)) f = Some (Inl e)" "bind_run (returns x) f = f x"
  by (simp_all add: bind_run_def)

lemma bind_run_returns: "bind_run m f = returns y \<longleftrightarrow> (\<exists>x. m = returns x \<and> f x = returns y)"
  by (auto simp: bind_run_def split: option.splits sum.splits)

lemma map_run_returns: "map_run f xs = returns ys \<longleftrightarrow> list_all2 (\<lambda>x y. f x = returns y) xs ys"
proof (induction xs arbitrary: ys)
  case (Cons x xs)
  show ?case by (cases ys) (auto simp: bind_run_returns Cons.IH list_all2_Cons1)
qed auto

section \<open>What the context already holds\<close>

definition inContextEntries :: "'m projection \<Rightarrow> (jstring \<Rightarrow> bool) \<Rightarrow> jstring \<Rightarrow> bool" where
  "inContextEntries projection isReduced =
     (let active_ids = map sourceEntry (filter (\<lambda>e. p_messages e \<noteq> []) projection)
      in (\<lambda>entryId. entryId \<in> set active_ids \<and> \<not> isReduced entryId))"

section \<open>The cost of a full read\<close>

definition hit_json :: "history_excerpt \<Rightarrow> jsval" where
  "hit_json x = obj [(''entryId'', JStr (he_entryId x)), (''parentId'', (case he_parentId x of None \<Rightarrow> JNull | Some p \<Rightarrow> JStr p)),
     (''role'', JStr (he_role x)), (''position'', jint (int (he_position x))), (''offset'', jint (int (he_offset x))),
     (''text'', JStr (he_text x))]"

definition page_json :: "history_page \<Rightarrow> jsval" where
  "page_json p = obj [(''sessionId'', JStr (hp_sessionId p)), (''leafId'', (case hp_leafId p of None \<Rightarrow> JNull | Some l \<Rightarrow> JStr l)),
     (''scopeHash'', JStr (hp_scopeHash p)), (''entries'', JArr (map hit_json (hp_entries p))),
     (''cursor'', opt_str (hp_cursor p)), (''message'', opt_str (hp_message p))]"

text \<open>\<open>entries.map((hit) => ({ ...hit, position }))\<close>: the branch position put back.\<close>

definition put_position :: "nat \<Rightarrow> history_page \<Rightarrow> history_page" where
  "put_position k p = p\<lparr>hp_entries := map (\<lambda>x. x\<lparr>he_position := k\<rparr>) (hp_entries p)\<rparr>"

partial_function (option) read_loop ::
    "host \<Rightarrow> cursor_codec \<Rightarrow> history_snapshot \<Rightarrow> jstring \<Rightarrow> nat \<Rightarrow> jstring option \<Rightarrow> nat \<Rightarrow> nat run" where
  "read_loop h codec single i k cursor tokens =
     (case queryHistory h codec single (read_request i cursor) 4000 of
        Inl e \<Rightarrow> Some (Inl e)
      | Inr page \<Rightarrow>
          (let total = tokens + textTokens (stringify (page_json (put_position k page)))
           in case hp_cursor page of
                Some (u # c) \<Rightarrow> read_loop h codec single i k (Some (u # c)) total
              | _ \<Rightarrow> returns total))"

definition readTokens :: "host \<Rightarrow> cursor_codec \<Rightarrow> history_snapshot \<Rightarrow> session_record \<Rightarrow> nat \<Rightarrow> nat run" where
  "readTokens h codec s r k =
     (if sourceText r = [] \<or> length (r_id r) > 64 then returns 0
      else read_loop h codec (s\<lparr>hs_entries := [r]\<rparr>) (r_id r) k None 0)"

section \<open>The longest fitting slice\<close>

function fit_search :: "jstring \<Rightarrow> nat \<Rightarrow> (jstring \<Rightarrow> bool) \<Rightarrow> nat \<Rightarrow> nat \<Rightarrow> nat" where
  "fit_search t start fits low high =
     (if low < high then
        (let middle = (low + high + 1) div 2 in
         if fits (slice start middle t) then fit_search t start fits middle high
         else fit_search t start fits low (middle - 1))
      else low)"
  by pat_completeness auto
termination by (relation "measure (\<lambda>(t, start, fits, low, high). high - low)") auto

declare fit_search.simps [simp del]

definition longestFitting :: "jstring \<Rightarrow> nat \<Rightarrow> nat \<Rightarrow> (jstring \<Rightarrow> bool) \<Rightarrow> jstring" where
  "longestFitting t start limit fits =
     (let low = fit_search t start fits start (min (length t) (start + limit));
          split = (low > start \<and> (case nth_opt t (low - 1) of None \<Rightarrow> False | Some u \<Rightarrow> high_surrogate u))
      in slice start (if split then low - 1 else low) t)"

section \<open>Low detail\<close>

definition LOW_DETAIL_TOKENS :: nat where "LOW_DETAIL_TOKENS = 200"

record priced_hit =
  ph_hit :: history_excerpt
  ph_readTokens :: nat
  ph_inContext :: bool

record priced_page =
  pp_sessionId :: jstring
  pp_leafId :: "jstring option"
  pp_scopeHash :: jstring
  pp_entries :: "priced_hit list"
  pp_cursor :: "jstring option"
  pp_message :: "jstring option"

record low_detail_page =
  ld_sessionId :: jstring
  ld_leafId :: "jstring option"
  ld_scopeHash :: jstring
  ld_entry :: priced_hit
  ld_complete :: bool
  ld_message :: "jstring option"

definition priceSearch ::
    "host \<Rightarrow> cursor_codec \<Rightarrow> history_page \<Rightarrow> history_snapshot \<Rightarrow> (jstring \<Rightarrow> bool) \<Rightarrow> priced_page run" where
  "priceSearch h codec page s inContext =
     bind_run (map_run (\<lambda>x.
         bind_run (case nth_opt (hs_entries s) (he_position x) of
             Some r \<Rightarrow> if r_id r = he_entryId x then readTokens h codec s r (he_position x) else returns 0
           | None \<Rightarrow> returns 0)
           (\<lambda>tokens. returns \<lparr>ph_hit = x, ph_readTokens = tokens, ph_inContext = inContext (he_entryId x)\<rparr>)) (hp_entries page))
       (\<lambda>hits. returns \<lparr>pp_sessionId = hp_sessionId page, pp_leafId = hp_leafId page, pp_scopeHash = hp_scopeHash page,
          pp_entries = hits, pp_cursor = hp_cursor page, pp_message = hp_message page\<rparr>)"

definition low_detail_message :: "nat \<Rightarrow> jstring" where
  "low_detail_message tokens = js ''Low detail: the start of the entry only. Reading it in full returns about '' @ nat_str tokens @
     js '' tokens; read it again with detail full if it is needed.''"

definition low_fits :: "jstring \<Rightarrow> bool" where
  "low_fits t \<longleftrightarrow> textTokens (stringify (JStr t)) \<le> LOW_DETAIL_TOKENS"

definition readLowDetail ::
    "host \<Rightarrow> cursor_codec \<Rightarrow> history_snapshot \<Rightarrow> jstring option \<Rightarrow> jstring option \<Rightarrow> (jstring \<Rightarrow> bool) \<Rightarrow> low_detail_page run" where
  "readLowDetail h codec s entryId cursor inContext =
     (if cursor \<noteq> None \<and> cursor \<noteq> Some []
      then Some (throw HISTORY_QUERY_INVALID ''HISTORY_QUERY_INVALID: a low-detail read has no continuation; read with detail full instead'')
      else if entryId = None \<or> entryId = Some [] then Some (throw HISTORY_ENTRY_REQUIRED ''HISTORY_ENTRY_REQUIRED'')
      else (case find_last_index (\<lambda>r. Some (r_id r) = entryId) (hs_entries s) of
          None \<Rightarrow> Some (throw HISTORY_SCOPE_DENIED ''HISTORY_SCOPE_DENIED: entry is not in this readable scope'')
        | Some k \<Rightarrow>
            let r = hs_entries s ! k; t = sourceText r in
            if t = [] then Some (throw HISTORY_SCOPE_DENIED ''HISTORY_SCOPE_DENIED: entry is not in this readable scope'')
            else
              let head = longestFitting t 0 (LOW_DETAIL_TOKENS * 3) low_fits; complete = (length head = length t) in
              bind_run (readTokens h codec s r k) (\<lambda>tokens. returns
                \<lparr>ld_sessionId = hs_sessionId s, ld_leafId = hs_leafId s, ld_scopeHash = hs_scopeHash s,
                 ld_entry = \<lparr>ph_hit = \<lparr>he_entryId = r_id r, he_parentId = r_parent r, he_role = sourceRole r, he_position = k,
                     he_offset = 0, he_text = head\<rparr>, ph_readTokens = tokens, ph_inContext = inContext (r_id r)\<rparr>,
                 ld_complete = complete, ld_message = (if complete then None else Some (low_detail_message tokens))\<rparr>)))"

section \<open>The slice fits\<close>

lemma fit_search_bounds:
  "low \<le> high \<Longrightarrow> low \<le> fit_search t start fits low high \<and> fit_search t start fits low high \<le> high"
proof (induction t start fits low high rule: fit_search.induct)
  case (1 t start fits low high)
  show ?case
  proof (cases "low < high")
    case True
    let ?m = "(low + high + 1) div 2"
    have m: "low < ?m" "?m \<le> high" using True by auto
    show ?thesis
    proof (cases "fits (slice start ?m t)")
      case fit: True
      have "?m \<le> fit_search t start fits ?m high \<and> fit_search t start fits ?m high \<le> high"
        using 1(1)[OF True refl fit] m by blast
      then show ?thesis using True fit m by (subst (1 2) fit_search.simps) (simp add: Let_def)
    next
      case unfit: False
      have "low \<le> fit_search t start fits low (?m - 1) \<and> fit_search t start fits low (?m - 1) \<le> ?m - 1"
        using 1(2)[OF True refl unfit] m by simp
      then have "low \<le> fit_search t start fits low (?m - 1) \<and> fit_search t start fits low (?m - 1) \<le> high"
        using m(2) by linarith
      then show ?thesis using True unfit m by (subst (1 2) fit_search.simps) (simp add: Let_def)
    qed
  next
    case False
    then show ?thesis using 1(3) by (subst (1 2) fit_search.simps) simp
  qed
qed

text \<open>What the search returns fits, whatever the test does in between.\<close>

lemma fit_search_fits:
  "fits (slice start low t) \<Longrightarrow> fits (slice start (fit_search t start fits low high) t)"
proof (induction t start fits low high rule: fit_search.induct)
  case (1 t start fits low high)
  then show ?case by (subst fit_search.simps) (simp add: Let_def)
qed

text \<open>For a test that holds for every shorter slice it finds the longest.\<close>

lemma fit_search_longest:
  assumes "\<And>a b. a \<le> b \<Longrightarrow> b \<le> length t \<Longrightarrow> fits (slice start b t) \<Longrightarrow> fits (slice start a t)"
  shows "low \<le> high \<Longrightarrow> high \<le> length t \<Longrightarrow> fit_search t start fits low high < k \<Longrightarrow> k \<le> high \<Longrightarrow> \<not> fits (slice start k t)"
  using assms
proof (induction t start fits low high rule: fit_search.induct)
  case (1 t start fits low high)
  note mono = 1(7)
  show ?case
  proof (cases "low < high")
    case True
    let ?m = "(low + high + 1) div 2"
    have m: "low < ?m" "?m \<le> high" using True by auto
    show ?thesis
    proof (cases "fits (slice start ?m t)")
      case fit: True
      then have "fit_search t start fits low high = fit_search t start fits ?m high"
        using True by (subst fit_search.simps) (simp add: Let_def)
      then show ?thesis using 1(1)[OF True refl fit _ 1(4) _ 1(6) mono] m 1(5) by simp
    next
      case unfit: False
      then have eq: "fit_search t start fits low high = fit_search t start fits low (?m - 1)"
        using True by (subst fit_search.simps) (simp add: Let_def)
      show ?thesis
      proof (cases "k \<le> ?m - 1")
        case le: True
        show ?thesis
          using 1(2)[OF True refl unfit _ _ _ le mono] m 1(4,5) eq by simp
      next
        case gt: False
        then have "?m \<le> k" by simp
        then show ?thesis using mono[of ?m k] unfit 1(4,6) by auto
      qed
    qed
  next
    case False
    then show ?thesis using 1(3-6) by (subst (asm) fit_search.simps) simp
  qed
qed

lemma fit_search_reaches:
  assumes "\<And>k. k \<le> c \<Longrightarrow> fits (slice start k t)"
  shows "low \<le> c \<Longrightarrow> c \<le> high \<Longrightarrow> c \<le> fit_search t start fits low high"
  using assms
proof (induction t start fits low high rule: fit_search.induct)
  case (1 t start fits low high)
  show ?case
  proof (cases "low < high")
    case True
    let ?m = "(low + high + 1) div 2"
    show ?thesis
    proof (cases "fits (slice start ?m t)")
      case fit: True
      have "c \<le> fit_search t start fits ?m high"
      proof (cases "?m \<le> c")
        case True
        then show ?thesis using 1(1)[OF \<open>low < high\<close> refl fit _ 1(4,5)] by simp
      next
        case False
        have "?m \<le> fit_search t start fits ?m high"
          using fit_search_bounds[of ?m high t start fits] \<open>low < high\<close> by auto
        with False show ?thesis by linarith
      qed
      then show ?thesis using True fit by (subst fit_search.simps) (simp add: Let_def)
    next
      case unfit: False
      then have "c < ?m" using 1(5)[of ?m] by (meson not_le)
      then have "c \<le> fit_search t start fits low (?m - 1)"
        using 1(2)[OF True refl unfit 1(3) _ 1(5)] by simp
      then show ?thesis using True unfit by (subst fit_search.simps) (simp add: Let_def)
    qed
  next
    case False
    then show ?thesis using 1(3,4) by (subst fit_search.simps) simp
  qed
qed

text \<open>The place where the slice ends, before and after the surrogate rule.\<close>

lemma longestFitting_end:
  assumes "start \<le> length t"
  obtains low e where "low = fit_search t start fits start (min (length t) (start + limit))"
    and "longestFitting t start limit fits = slice start e t" and "start \<le> e" "e \<le> low" "low \<le> length t" "low \<le> start + limit"
    and "e = low \<and> \<not> (start < low \<and> high_surrogate (t ! (low - 1))) \<or>
      low = Suc e \<and> high_surrogate (t ! e)"
proof -
  let ?low = "fit_search t start fits start (min (length t) (start + limit))"
  have low: "start \<le> ?low" "?low \<le> min (length t) (start + limit)"
    using fit_search_bounds[of start "min (length t) (start + limit)" t start fits] assms by simp_all
  show ?thesis
  proof (cases "start < ?low \<and> high_surrogate (t ! (?low - 1))")
    case True
    then obtain e where e: "?low = Suc e" by (cases ?low) auto
    with True low have "longestFitting t start limit fits = slice start e t"
      by (simp add: longestFitting_def Let_def nth_opt_def)
    with low True e show ?thesis by (intro that[OF refl, of e]) auto
  next
    case False
    with low have "longestFitting t start limit fits = slice start ?low t"
      by (auto simp: longestFitting_def Let_def nth_opt_def)
    with low False show ?thesis by (intro that[OF refl, of ?low]) auto
  qed
qed

lemma not_between_halves:
  "e = low \<and> \<not> (start < low \<and> high_surrogate (t ! (low - 1))) \<or> low = Suc e \<and> high_surrogate (t ! e) \<Longrightarrow>
   \<not> (start < e \<and> high_surrogate (t ! (e - 1)) \<and> low_surrogate (t ! e))"
  using high_not_low by auto

text \<open>
  The longest fitting slice. When the test holds for every shorter slice it holds for, and for the
  empty one, \<open>longestFitting\<close> returns a slice from \<open>start\<close> within the limit that fits and does not end
  between the halves of a surrogate pair, and every longer slice within the limit either does not fit
  or ends in the half that was left off.
\<close>

theorem longestFitting_exact:
  assumes "start \<le> length t" and "fits []"
    and "\<And>a b. a \<le> b \<Longrightarrow> b \<le> length t \<Longrightarrow> fits (slice start b t) \<Longrightarrow> fits (slice start a t)"
  shows "\<exists>e. longestFitting t start limit fits = slice start e t \<and> start \<le> e \<and> e \<le> length t \<and> e \<le> start + limit \<and>
     fits (longestFitting t start limit fits) \<and>
     \<not> (start < e \<and> high_surrogate (t ! (e - 1)) \<and> low_surrogate (t ! e)) \<and>
     list_all (\<lambda>k. \<not> fits (slice start k t) \<or> (k = Suc e \<and> high_surrogate (t ! e)))
       [Suc e ..< Suc (min (length t) (start + limit))]"
proof -
  obtain low e where low: "low = fit_search t start fits start (min (length t) (start + limit))"
    and e: "longestFitting t start limit fits = slice start e t" "start \<le> e" "e \<le> low" "low \<le> length t" "low \<le> start + limit"
    and at: "e = low \<and> \<not> (start < low \<and> high_surrogate (t ! (low - 1))) \<or> low = Suc e \<and> high_surrogate (t ! e)"
    by (rule longestFitting_end[OF assms(1)])
  have "fits (slice start start t)" using assms(2) by (simp add: slice_def)
  then have "fits (slice start low t)" unfolding low by (rule fit_search_fits)
  then have fit: "fits (slice start e t)" using assms(3) e(3,4) by blast
  have "\<not> fits (slice start k t)" if "low < k" "k \<le> min (length t) (start + limit)" for k
    using fit_search_longest[of t fits start start "min (length t) (start + limit)" k] assms(1,3) that low by auto
  then have above: "\<not> fits (slice start k t) \<or> (k = Suc e \<and> high_surrogate (t ! e))"
    if "Suc e \<le> k" "k \<le> min (length t) (start + limit)" for k
    using at that by (cases "k = Suc e") auto
  have longest: "list_all (\<lambda>k. \<not> fits (slice start k t) \<or> (k = Suc e \<and> high_surrogate (t ! e)))
       [Suc e ..< Suc (min (length t) (start + limit))]"
    unfolding list_all_iff
  proof
    fix k assume "k \<in> set [Suc e ..< Suc (min (length t) (start + limit))]"
    then show "\<not> fits (slice start k t) \<or> (k = Suc e \<and> high_surrogate (t ! e))" by (intro above) auto
  qed
  have "e \<le> length t" "e \<le> start + limit" using e by linarith+
  then show ?thesis unfolding e(1)
    by (intro exI[of _ e] conjI refl e(2) fit not_between_halves[OF at] longest)
qed

section \<open>What a low-detail read shows\<close>

lemma length_quote_unit: "length (quote_unit u) \<le> 6"
  by (simp add: quote_unit_def unicode_escape_def Let_def)

lemma length_quote_units: "length (quote_units s) \<le> 6 * length s"
proof (induction s rule: quote_units.induct)
  case (2 u)
  then show ?case using length_quote_unit[of u] by simp
next
  case (3 u v s)
  then show ?case using length_quote_unit[of u] by auto
qed simp

lemma low_fits_short: "length t \<le> 33 \<Longrightarrow> low_fits t"
  using length_quote_units[of t] byte_length_upper[of "quote t"]
  by (simp add: low_fits_def LOW_DETAIL_TOKENS_def textTokens_le_iff quote_def)

lemma quote_units_snoc_high: "high_surrogate u \<Longrightarrow> quote_units (s @ [u]) = quote_units s @ quote_unit u"
proof (induction s rule: quote_units.induct)
  case (2 v)
  then show ?case using high_not_low[of u] by simp
qed simp_all

text \<open>Leaving off the half of a pair a text ends with does not lengthen its JSON.\<close>

lemma quote_half:
  assumes "high_surrogate u"
  shows "byte_length (quote s) \<le> byte_length (quote (s @ [u]))"
proof -
  let ?q = "[0x22] @ quote_units s"
  have q: "well_formed ?q" and u: "well_formed (quote_unit u)"
    using line_text_append[OF line_text_punct(8) line_text_quote_units[of s]] line_text_quote_unit[of u]
    by (simp_all add: line_text_def)
  have "quote s = ?q @ [0x22]" "quote (s @ [u]) = ?q @ quote_unit u @ [0x22]"
    by (simp_all add: quote_def quote_units_snoc_high[OF assms])
  then show ?thesis by (simp only: byte_length_append[OF q] byte_length_append[OF u])
qed

lemma low_fits_half: "high_surrogate u \<Longrightarrow> low_fits (s @ [u]) \<Longrightarrow> low_fits s"
  using quote_half[of u s] by (simp add: low_fits_def textTokens_le_iff)

text \<open>A test that leaving off a half keeps holds for the slice found, monotone or not.\<close>

lemma longestFitting_fits:
  assumes "start \<le> length t" and "fits []" and half: "\<And>s u. high_surrogate u \<Longrightarrow> fits (s @ [u]) \<Longrightarrow> fits s"
  obtains e where "longestFitting t start limit fits = slice start e t" and "start \<le> e" and "e \<le> length t"
    and "fits (slice start e t)" and "\<not> (start < e \<and> high_surrogate (t ! (e - 1)) \<and> low_surrogate (t ! e))"
    and "fit_search t start fits start (min (length t) (start + limit)) \<le> Suc e"
proof -
  obtain low e where low: "low = fit_search t start fits start (min (length t) (start + limit))"
    and e: "longestFitting t start limit fits = slice start e t" "start \<le> e" "e \<le> low" "low \<le> length t"
    and at: "e = low \<and> \<not> (start < low \<and> high_surrogate (t ! (low - 1))) \<or> low = Suc e \<and> high_surrogate (t ! e)"
    by (rule longestFitting_end[OF assms(1)])
  have "fits (slice start start t)" using assms(2) by (simp add: slice_def)
  then have fit: "fits (slice start low t)" unfolding low by (rule fit_search_fits)
  have "fits (slice start e t)"
    using at
  proof
    assume high: "low = Suc e \<and> high_surrogate (t ! e)"
    then have "slice start low t = slice start e t @ [t ! e]"
      using e by (simp add: slice_def Suc_diff_le take_Suc_conv_app_nth)
    with fit high have "fits (slice start e t @ [t ! e])" "high_surrogate (t ! e)" by simp_all
    then show ?thesis using half by blast
  qed (use fit in simp)
  then show ?thesis using that[of e] e at not_between_halves[OF at] low by auto
qed

text \<open>The head a low-detail read shows of a text.\<close>

lemma low_head:
  obtains e where "longestFitting t 0 (LOW_DETAIL_TOKENS * 3) low_fits = take e t" and "e \<le> length t"
    and "low_fits (take e t)" and "min (length t) 33 \<le> Suc e"
    and "\<not> (0 < e \<and> high_surrogate (t ! (e - 1)) \<and> low_surrogate (t ! e))"
proof -
  have "min (length t) 33 \<le> fit_search t 0 low_fits 0 (min (length t) (0 + LOW_DETAIL_TOKENS * 3))"
    by (rule fit_search_reaches) (auto simp: slice_def LOW_DETAIL_TOKENS_def intro: low_fits_short)
  moreover obtain e where "longestFitting t 0 (LOW_DETAIL_TOKENS * 3) low_fits = slice 0 e t" "e \<le> length t"
    "low_fits (slice 0 e t)" "\<not> (0 < e \<and> high_surrogate (t ! (e - 1)) \<and> low_surrogate (t ! e))"
    "fit_search t 0 low_fits 0 (min (length t) (0 + LOW_DETAIL_TOKENS * 3)) \<le> Suc e"
    by (rule longestFitting_fits[of 0 t low_fits "LOW_DETAIL_TOKENS * 3"]) (auto intro: low_fits_half low_fits_short)
  ultimately show ?thesis using that[of e] by (simp add: slice_def)
qed

text \<open>
  A low-detail read is a bounded head of the newest record. When \<open>readLowDetail\<close> returns, it shows the
  newest record with the requested id: a prefix of its text of at most 200 estimated tokens, of at
  least 32 units where the text has them, that does not end between the halves of a surrogate pair;
  it is marked complete exactly when it is the whole text, and otherwise carries a message; the stated
  cost is that of a full read.
\<close>

theorem readLowDetail_head:
  assumes "readLowDetail h codec s entryId cursor inContext = returns p"
  shows "\<exists>k e. find_last_index (\<lambda>r. Some (r_id r) = entryId) (hs_entries s) = Some k \<and>
    (let r = hs_entries s ! k; t = sourceText r; x = ph_hit (ld_entry p) in
      he_entryId x = r_id r \<and> he_position x = k \<and> he_offset x = 0 \<and> he_text x = take e t \<and> e \<le> length t \<and> t \<noteq> [] \<and>
      textTokens (stringify (JStr (he_text x))) \<le> 200 \<and> min (length t) 33 \<le> Suc e \<and>
      \<not> (0 < e \<and> high_surrogate (t ! (e - 1)) \<and> low_surrogate (t ! e)) \<and>
      ld_complete p = (he_text x = t) \<and> (ld_message p = None) = ld_complete p \<and>
      readTokens h codec s r k = returns (ph_readTokens (ld_entry p)) \<and> ph_inContext (ld_entry p) = inContext (r_id r))"
proof -
  obtain k where k: "find_last_index (\<lambda>r. Some (r_id r) = entryId) (hs_entries s) = Some k"
    using assms by (auto simp: readLowDetail_def throw_def split: if_splits option.splits)
  let ?r = "hs_entries s ! k"
  define head where "head = longestFitting (sourceText ?r) 0 (LOW_DETAIL_TOKENS * 3) low_fits"
  obtain tokens where tokens: "readTokens h codec s ?r k = returns tokens" and "sourceText ?r \<noteq> []"
    and p: "p = \<lparr>ld_sessionId = hs_sessionId s, ld_leafId = hs_leafId s, ld_scopeHash = hs_scopeHash s,
       ld_entry = \<lparr>ph_hit = \<lparr>he_entryId = r_id ?r, he_parentId = r_parent ?r, he_role = sourceRole ?r, he_position = k,
           he_offset = 0, he_text = head\<rparr>, ph_readTokens = tokens, ph_inContext = inContext (r_id ?r)\<rparr>,
       ld_complete = (length head = length (sourceText ?r)),
       ld_message = (if length head = length (sourceText ?r) then None else Some (low_detail_message tokens))\<rparr>"
    using assms k unfolding head_def by (auto simp: readLowDetail_def Let_def throw_def bind_run_returns split: if_splits)
  obtain e where e: "head = take e (sourceText ?r)" "e \<le> length (sourceText ?r)" "low_fits (take e (sourceText ?r))"
     "min (length (sourceText ?r)) 33 \<le> Suc e" "\<not> (0 < e \<and> high_surrogate (sourceText ?r ! (e - 1)) \<and> low_surrogate (sourceText ?r ! e))"
    unfolding head_def by (rule low_head)
  then have whole: "length head = length (sourceText ?r) \<longleftrightarrow> head = sourceText ?r" by auto
  show ?thesis
    by (rule exI[of _ k], rule exI[of _ e])
      (use k tokens \<open>sourceText ?r \<noteq> []\<close> e in \<open>simp add: p whole Let_def low_fits_def LOW_DETAIL_TOKENS_def\<close>)
qed

section \<open>The stated cost is the real one\<close>

text \<open>What a caller pays that reads the record of the snapshot page by page.\<close>

partial_function (option) full_read_cost ::
    "host \<Rightarrow> cursor_codec \<Rightarrow> history_snapshot \<Rightarrow> jstring \<Rightarrow> jstring option \<Rightarrow> nat \<Rightarrow> nat run" where
  "full_read_cost h codec s i cursor tokens =
     (case queryHistory h codec s (read_request i cursor) 4000 of
        Inl e \<Rightarrow> Some (Inl e)
      | Inr page \<Rightarrow>
          (case hp_cursor page of
             Some c \<Rightarrow> full_read_cost h codec s i (Some c) (tokens + textTokens (stringify (page_json page)))
           | None \<Rightarrow> returns (tokens + textTokens (stringify (page_json page)))))"

text \<open>The cursor after \<open>off\<close> units of a record, and the requests a read of it makes.\<close>

definition cursor_at :: "host \<Rightarrow> cursor_codec \<Rightarrow> history_snapshot \<Rightarrow> jstring \<Rightarrow> nat \<Rightarrow> jstring" where
  "cursor_at h codec s i off =
     cc_encode codec (stringify (cursor_json s (query_signature h (read_request i None)) 0 off))"

definition reads_accepted :: "host \<Rightarrow> cursor_codec \<Rightarrow> history_snapshot \<Rightarrow> session_record \<Rightarrow> bool" where
  "reads_accepted h codec s r \<longleftrightarrow>
     check h historyQuerySchema (read_request (r_id r) None) \<and>
     list_all (\<lambda>off. check h historyQuerySchema (read_request (r_id r) (Some (cursor_at h codec s (r_id r) off))))
       [0..<length (sourceText r)]"

lemma cursor_at_Cons: "documented_codec codec \<Longrightarrow> \<exists>u c. cursor_at h codec s i off = u # c"
  unfolding cursor_at_def by (rule encoded_cursor_Cons)

lemma read_from_start:
  assumes "distinct (map r_id (hs_entries s))" "k < length (hs_entries s)" "r_id (hs_entries s ! k) \<noteq> []"
    and "sourceText (hs_entries s ! k) \<noteq> []" and "check h historyQuerySchema (read_request (r_id (hs_entries s ! k)) None)"
  shows "queryHistory h codec s (read_request (r_id (hs_entries s ! k)) None) budget =
    Inr (read_page_at h codec s (hs_entries s ! k) k budget 0)"
  using read_page_exact[OF assms(1,2) _ assms(3), of 0 h codec None budget] assms(4,5) by (simp add: queryHistory_def)

lemma read_from_cursor:
  assumes "documented_codec codec" "documented_numbers h"
    and "distinct (map r_id (hs_entries s))" "k < length (hs_entries s)" "r_id (hs_entries s ! k) \<noteq> []"
    and "off < length (sourceText (hs_entries s ! k))" "int off \<le> max_safe_integer"
    and "check h historyQuerySchema (read_request (r_id (hs_entries s ! k)) (Some (cursor_at h codec s (r_id (hs_entries s ! k)) off)))"
  shows "queryHistory h codec s (read_request (r_id (hs_entries s ! k)) (Some (cursor_at h codec s (r_id (hs_entries s ! k)) off))) budget =
    Inr (read_page_at h codec s (hs_entries s ! k) k budget off)"
proof -
  let ?i = "r_id (hs_entries s ! k)" and ?sig = "query_signature h (read_request (r_id (hs_entries s ! k)) None)"
  let ?request = "read_request ?i (Some (cursor_at h codec s ?i off))"
  have "queryHistory h codec s ?request budget = history_page_at h codec s ?request budget 0 off"
    using with_cursor[OF assms(1) assms(8), of s ?sig 0 off s budget] resolve_same[OF assms(1,2), of 0 off s ?sig] assms(7)
    by (simp add: read_signature[of h _ "Some _"] cursor_at_def max_safe_integer_def)
  then show ?thesis using read_page_exact[OF assms(3,4,6,5), of h codec "Some (cursor_at h codec s ?i off)" budget] by simp
qed

text \<open>The one-record copy a cost is read from gives the pages of the snapshot but for the position.\<close>

lemma single_page:
  "put_position k (read_page_at h codec (s\<lparr>hs_entries := rs\<rparr>) r 0 budget off) = read_page_at h codec s r k budget off"
  by (simp add: put_position_def read_page_at_def cursor_json_def Let_def)

lemma single_cursor: "cursor_at h codec (s\<lparr>hs_entries := rs\<rparr>) i off = cursor_at h codec s i off"
  by (simp add: cursor_at_def cursor_json_def)

lemma readTokens_returns:
  assumes "documented_codec codec" and "documented_numbers h"
    and "distinct (map r_id (hs_entries s))" and "k < length (hs_entries s)" and "sourceText (hs_entries s ! k) \<noteq> []"
    and "r_id (hs_entries s ! k) \<noteq> []" and "length (r_id (hs_entries s ! k)) \<le> 64"
    and "int (length (sourceText (hs_entries s ! k))) \<le> max_safe_integer"
    and "reads_accepted h codec s (hs_entries s ! k)"
  shows "\<exists>tokens. readTokens h codec s (hs_entries s ! k) k = returns tokens \<and>
    full_read_cost h codec s (r_id (hs_entries s ! k)) None 0 = returns tokens"
proof -
  let ?r = "hs_entries s ! k" and ?t = "sourceText (hs_entries s ! k)" and ?i = "r_id (hs_entries s ! k)"
  let ?s1 = "s\<lparr>hs_entries := [?r]\<rparr>"
  have single: "distinct (map r_id (hs_entries ?s1))" "0 < length (hs_entries ?s1)" "hs_entries ?s1 ! 0 = ?r" by simp_all
  have loop: "\<exists>total. read_loop h codec ?s1 ?i k cursor tokens = returns total \<and> full_read_cost h codec s ?i cursor tokens = returns total"
    if "off < length ?t"
      "queryHistory h codec ?s1 (read_request ?i cursor) 4000 = Inr (read_page_at h codec ?s1 ?r 0 4000 off)"
      "queryHistory h codec s (read_request ?i cursor) 4000 = Inr (read_page_at h codec s ?r k 4000 off)" for off cursor tokens
    using that
  proof (induction "length ?t - off" arbitrary: off cursor tokens rule: less_induct)
    case less
    define e where "e = read_piece 4000 off ?t"
    have e: "e \<noteq> []" unfolding e_def by (rule read_piece_text(1)[OF less.prems(1)])
    define total where "total = tokens + textTokens (stringify (page_json (read_page_at h codec s ?r k 4000 off)))"
    have cursor: "hp_cursor (read_page_at h codec s ?r k 4000 off) =
        (if off + length e < length ?t then Some (cursor_at h codec s ?i (off + length e)) else None)"
      "hp_cursor (read_page_at h codec ?s1 ?r 0 4000 off) = hp_cursor (read_page_at h codec s ?r k 4000 off)"
      by (simp_all add: read_page_at_def Let_def e_def[symmetric] cursor_at_def cursor_json_def)
    show ?case
    proof (cases "off + length e < length ?t")
      case True
      let ?next = "cursor_at h codec s ?i (off + length e)"
      obtain u c where uc: "?next = u # c" using cursor_at_Cons[OF assms(1)] by blast
      have ok: "check h historyQuerySchema (read_request ?i (Some ?next))" "int (off + length e) \<le> max_safe_integer"
        using assms(8,9) True by (simp_all add: reads_accepted_def list_all_iff)
      have "\<exists>rest. read_loop h codec ?s1 ?i k (Some ?next) total = returns rest \<and>
          full_read_cost h codec s ?i (Some ?next) total = returns rest"
      proof (rule less.hyps[of "off + length e"])
        show "length ?t - (off + length e) < length ?t - off"
          using True e length_greater_0_conv[of e] by linarith
        show "queryHistory h codec ?s1 (read_request ?i (Some ?next)) 4000 = Inr (read_page_at h codec ?s1 ?r 0 4000 (off + length e))"
          using read_from_cursor[OF assms(1,2) single(1,2), of "off + length e" 4000] True ok assms(6)
          by (simp add: single_cursor)
        show "queryHistory h codec s (read_request ?i (Some ?next)) 4000 = Inr (read_page_at h codec s ?r k 4000 (off + length e))"
          by (rule read_from_cursor[OF assms(1-4,6) True ok(2,1)])
      qed (rule True)
      then show ?thesis
        using less.prems(2,3) cursor True uc
        by (subst read_loop.simps, subst full_read_cost.simps) (simp add: single_page total_def)
    next
      case False
      then show ?thesis
        using less.prems(2,3) cursor
        by (subst read_loop.simps, subst full_read_cost.simps) (simp add: single_page)
    qed
  qed
  have ok: "check h historyQuerySchema (read_request ?i None)" using assms(9) by (simp add: reads_accepted_def)
  have "queryHistory h codec ?s1 (read_request ?i None) 4000 = Inr (read_page_at h codec ?s1 ?r 0 4000 0)"
    using read_from_start[OF single(1,2)] assms(5,6) ok by simp
  moreover note read_from_start[OF assms(3,4,6,5) ok, of codec 4000]
  moreover have "0 < length ?t" using assms(5) by simp
  ultimately show ?thesis using loop[of 0 None 0] assms(5,7) by (simp add: readTokens_def)
qed

text \<open>
  C40: The stated cost is the real one. For a record of the snapshot with a distinct id of at most 64 units
  and some text, computing \<open>readTokens\<close> on a one-record copy returns, and so does reading the record page by
  page from the snapshot; both cost the same, whatever the branch holds, provided the request schema
  accepts the cursors it is given.
\<close>

theorem readTokens_exact:
  assumes "documented_codec codec" and "documented_numbers h"
    and "distinct (map r_id (hs_entries s))" and "k < length (hs_entries s)" and "sourceText (hs_entries s ! k) \<noteq> []"
    and "r_id (hs_entries s ! k) \<noteq> []" and "length (r_id (hs_entries s ! k)) \<le> 64"
    and "int (length (sourceText (hs_entries s ! k))) \<le> max_safe_integer"
    and "reads_accepted h codec s (hs_entries s ! k)"
  shows "\<exists>tokens. readTokens h codec s (hs_entries s ! k) k = returns tokens \<and>
    full_read_cost h codec s (r_id (hs_entries s ! k)) None 0 = returns tokens"
  by (rule readTokens_returns[OF assms])

section \<open>Witnesses\<close>

text \<open>A platform whose validator accepts everything.\<close>

definition open_host :: host where
  "open_host = plain_host\<lparr>check := \<lambda>_ _. True\<rparr>"

lemma open_numbers: "documented_numbers open_host"
  using plain_numbers by (simp add: documented_numbers_def open_host_def)

lemma open_accepts: "check open_host sch v"
  by (simp add: open_host_def)

theorem longestFitting_exact_witness:
  "\<exists>e. longestFitting (js ''abcd'') 1 9 (\<lambda>s. length s \<le> 2) = slice 1 e (js ''abcd'') \<and> e \<le> 4 \<and>
     length (longestFitting (js ''abcd'') 1 9 (\<lambda>s. length s \<le> 2)) \<le> 2"
proof -
  have "1 \<le> length (js ''abcd'')" "length ([] :: jstring) \<le> 2" by simp_all
  moreover have "length (slice 1 a (js ''abcd'')) \<le> 2"
    if "a \<le> b" "b \<le> length (js ''abcd'')" "length (slice 1 b (js ''abcd'')) \<le> 2" for a b
    using that by (simp add: length_slice)
  ultimately obtain e where "longestFitting (js ''abcd'') 1 9 (\<lambda>s. length s \<le> 2) = slice 1 e (js ''abcd'')"
      "e \<le> length (js ''abcd'')" "length (longestFitting (js ''abcd'') 1 9 (\<lambda>s. length s \<le> 2)) \<le> 2"
    using longestFitting_exact[of 1 "js ''abcd''" "\<lambda>s. length s \<le> 2" 9] by blast
  then show ?thesis by (intro exI[of _ e]) simp
qed

theorem readTokens_exact_witness:
  "\<exists>tokens. readTokens open_host plain_codec long_snapshot long_record 0 = returns tokens \<and>
     full_read_cost open_host plain_codec long_snapshot (js ''a'') None 0 = returns tokens"
  using readTokens_exact[OF plain_codec_documented open_numbers, of long_snapshot 0]
  by (simp add: long_snapshot_def long_source max_safe_integer_def reads_accepted_def open_accepts list_all_iff)
    (simp add: long_record_def)

theorem readLowDetail_head_witness:
  "\<exists>p. readLowDetail open_host plain_codec long_snapshot (Some (js ''a'')) None (\<lambda>_. False) = returns p \<and>
     he_entryId (ph_hit (ld_entry p)) = js ''a''"
proof -
  have "\<exists>tokens. readTokens open_host plain_codec long_snapshot (hs_entries long_snapshot ! 0) 0 = returns tokens \<and>
      full_read_cost open_host plain_codec long_snapshot (r_id (hs_entries long_snapshot ! 0)) None 0 = returns tokens"
    by (rule readTokens_returns[OF plain_codec_documented open_numbers])
      (simp_all add: long_snapshot_def long_source max_safe_integer_def reads_accepted_def open_accepts list_all_iff,
       simp_all add: long_record_def)
  then obtain tokens where "readTokens open_host plain_codec long_snapshot (hs_entries long_snapshot ! 0) 0 = returns tokens" by blast
  moreover have "hs_entries long_snapshot = [long_record]" "r_id long_record = js ''a''" by (simp_all add: long_snapshot_def long_record_def)
  ultimately have "\<exists>p. readLowDetail open_host plain_codec long_snapshot (Some (js ''a'')) None (\<lambda>_. False) = returns p"
    by (simp add: readLowDetail_def long_source Let_def)
  then obtain p where p: "readLowDetail open_host plain_codec long_snapshot (Some (js ''a'')) None (\<lambda>_. False) = returns p" by blast
  from readLowDetail_head[OF p] have "he_entryId (ph_hit (ld_entry p)) = js ''a''"
    by (auto simp: Let_def find_last_index_Some)
  with p show ?thesis by blast
qed

end
