(* ===== verification/History_View.thy ===== *)
theory History_View
  imports View_Text Scope_Diagnostics
begin

text \<open>
  \<^bold>\<open>history-view.ts\<close>, the typed list: the facts committed checkpoints recorded, the edits and the errors
  of a branch, newest first, priced and paged under a pinned cursor.
\<close>

section \<open>Kinds and items\<close>

datatype view_kind = FactKind note_section | EditsKind | ErrorsKind

definition HISTORY_VIEW_KINDS :: "view_kind list" where
  "HISTORY_VIEW_KINDS = map FactKind noteSections @ [EditsKind, ErrorsKind]"

fun view_kind_name :: "view_kind \<Rightarrow> string" where
  "view_kind_name (FactKind s) = section_name s"
| "view_kind_name EditsKind = ''edits''"
| "view_kind_name ErrorsKind = ''errors''"

definition VIEW_VERSION :: jstring where "VIEW_VERSION = js ''view-v2''"
definition VIEW_EXCERPT_CHARS :: nat where "VIEW_EXCERPT_CHARS = 400"
definition EDIT_TOOLS :: "jstring list" where "EDIT_TOOLS = [js ''edit'', js ''write'']"

definition previewHistorySchema :: schema where
  "previewHistorySchema = SObject
     [(''operation'', False, SUnion [SLiteral (js ''search''), SLiteral (js ''read''), SLiteral (js ''list'')]),
      (''query'', True, SString 0 (Some 1000) any_text),
      (''entryId'', True, SString 0 (Some 64) any_text),
      (''kind'', True, SUnion (map SLiteral [js ''instructions'', js ''failedPaths'', js ''reasons'', js ''state'',
        js ''nextSteps'', js ''files'', js ''edits'', js ''errors''])),
      (''cursor'', True, SString 0 (Some 2000) any_text),
      (''grantId'', True, SString 0 (Some 128) any_text),
      (''detail'', True, SUnion [SLiteral (js ''low''), SLiteral (js ''full'')])]"

record located =
  lo_entryId :: jstring
  lo_role :: jstring
  lo_position :: nat

record view_excerpt =
  ve_entryId :: jstring
  ve_offset :: nat
  ve_text :: jstring

record note_item =
  ni_kind :: note_section
  ni_summary :: jstring
  ni_quote :: "jstring option"
  ni_sources :: "located list"
  ni_supersedes :: "jstring list"
  ni_recordedAt :: nat
  ni_excerpt :: view_excerpt
  ni_supersededBy :: "jstring list"
  ni_sourceRevisedBy :: "jstring list"
  ni_inLatest :: bool

datatype edit_outcome = EditOk | EditError | NoResult

record edit_item =
  ei_entryId :: jstring
  ei_position :: nat
  ei_tool :: jstring
  ei_path :: jstring
  ei_outcome :: edit_outcome

record error_item =
  xi_entryId :: jstring
  xi_role :: jstring
  xi_position :: nat
  xi_tool :: "jstring option"
  xi_exitCode :: "jsnum option"
  xi_excerpt :: view_excerpt

datatype view_draft = NoteItem note_item | EditItem edit_item | ErrorItem error_item

record view_item =
  vi_draft :: view_draft
  vi_readTokens :: nat
  vi_inContext :: bool

record view_page =
  vp_sessionId :: jstring
  vp_leafId :: "jstring option"
  vp_scopeHash :: jstring
  vp_kind :: view_kind
  vp_items :: "view_item list"
  vp_cursor :: "jstring option"
  vp_message :: "jstring option"

section \<open>Excerpts and terms\<close>

definition viewTerms :: "host \<Rightarrow> jstring \<Rightarrow> jstring list" where
  "viewTerms h query =
     (let ws = map concat (runs (hint_char h) (chars (locale_lower h query)));
          chinese = concat (map (\<lambda>w. map (\<lambda>i. slice i (i + 2) w) [0..<length w - 1]) (han_words h query))
      in take 64 (dedup (ws @ chinese)))"

definition excerpt_at :: "host \<Rightarrow> session_record \<Rightarrow> jstring list \<Rightarrow> view_excerpt" where
  "excerpt_at h r terms =
     (let t = sourceText r; lower = locale_lower h t;
          hits = concat (map (\<lambda>w. case index_of w lower of None \<Rightarrow> [] | Some k \<Rightarrow> [k]) terms);
          offset = (case hits of [] \<Rightarrow> 0 | k # ks \<Rightarrow> foldr min ks k) - 80
      in \<lparr>ve_entryId = r_id r, ve_offset = offset, ve_text = slice offset (offset + VIEW_EXCERPT_CHARS) t\<rparr>)"

text \<open>An array of strings, \<open>undefined\<close> otherwise.\<close>

definition strings :: "jsval \<Rightarrow> jstring list option" where
  "strings v = (case v of JArr xs \<Rightarrow> if list_all (\<lambda>x. as_str x \<noteq> None) xs then Some (map (the \<circ> as_str) xs) else None | _ \<Rightarrow> None)"

definition any_term :: "host \<Rightarrow> jstring \<Rightarrow> jstring list \<Rightarrow> bool" where
  "any_term h t terms \<longleftrightarrow> list_ex (\<lambda>w. contains w (locale_lower h t)) terms"

section \<open>Recorded facts\<close>

text \<open>The position of an id on the branch; the last one where an id repeats.\<close>

definition id_position :: "session_record list \<Rightarrow> jstring \<Rightarrow> nat option" where
  "id_position rs = map_last (map (\<lambda>(k, r). (r_id r, k)) (indexed rs))"

record view_fact =
  vf_section :: note_section
  vf_sources :: "jstring list"
  vf_supersedes :: "jstring list"

record view_scan =
  vs_distinct :: "(jstring \<times> view_fact) list"
  vs_recorded :: "(jstring \<times> note_item \<times> nat) list"
  vs_latest :: "nat option"
  vs_seen :: "(jstring \<times> nat) list"

text \<open>The key under which a restated fact meets its earlier statement.\<close>

definition fact_base :: "note_section \<Rightarrow> jstring list \<Rightarrow> jstring \<Rightarrow> jstring" where
  "fact_base sec sources quoted =
     stringify (JArr [JStr (js (section_name sec)), JArr (map JStr (sort sources)), JStr quoted])"

definition newest_source :: "session_record list \<Rightarrow> jstring list \<Rightarrow> jstring" where
  "newest_source rs ids =
     fold (\<lambda>b a. if the (id_position rs b) \<le> the (id_position rs a) then a else b) (tl ids) (hd ids)"

definition located_at :: "session_record list \<Rightarrow> jstring \<Rightarrow> located" where
  "located_at rs i = (let k = the (id_position rs i) in \<lparr>lo_entryId = i, lo_role = sourceRole (rs ! k), lo_position = k\<rparr>)"

text \<open>The supersedes and the quotation of a fact; the item a fact records, with its first recording kept.\<close>

definition superseded_ids :: "jsval \<Rightarrow> jstring list" where
  "superseded_ids fc = (case strings (jfield fc ''supersedes'') of None \<Rightarrow> [] | Some ss \<Rightarrow> ss)"

definition quoted_text :: "jsval \<Rightarrow> jstring" where
  "quoted_text fc = (case as_str (jfield fc ''quote'') of None \<Rightarrow> [] | Some q \<Rightarrow> q)"

definition recorded_item ::
    "host \<Rightarrow> session_record list \<Rightarrow> note_section \<Rightarrow> jstring list \<Rightarrow> nat \<Rightarrow> jsval \<Rightarrow> jstring list \<Rightarrow> (note_item \<times> nat) option \<Rightarrow> note_item" where
  "recorded_item h rs kind terms index fc sources old =
     \<lparr>ni_kind = kind, ni_summary = the (as_str (jfield fc ''text'')),
      ni_quote = (if quoted_text fc = [] then None else Some (quoted_text fc)),
      ni_sources = map (located_at rs) sources, ni_supersedes = superseded_ids fc,
      ni_recordedAt = (case old of None \<Rightarrow> index | Some (it, _) \<Rightarrow> ni_recordedAt it),
      ni_excerpt = excerpt_at h (rs ! the (id_position rs (newest_source rs sources))) terms,
      ni_supersededBy = [], ni_sourceRevisedBy = [], ni_inLatest = False\<rparr>"

definition scan_fact ::
    "host \<Rightarrow> session_record list \<Rightarrow> note_section \<Rightarrow> jstring list \<Rightarrow> nat \<Rightarrow> note_section \<Rightarrow> jsval \<Rightarrow> view_scan \<Rightarrow> view_scan" where
  "scan_fact h rs kind terms index sec fc st =
     (if \<not> isRecord fc \<or> as_str (jfield fc ''text'') = None then st
      else (case strings (jfield fc ''sources'') of
          None \<Rightarrow> st
        | Some ids \<Rightarrow>
            let sources = filter (\<lambda>i. id_position rs i \<noteq> None) ids in
            if sources = [] then st
            else
              let base = fact_base sec sources (quoted_text fc);
                  occurrence = (case map_of (vs_seen st) base of None \<Rightarrow> 0 | Some n \<Rightarrow> n);
                  key = base @ [0x23] @ nat_str occurrence;
                  st' = st\<lparr>vs_seen := obj_put base (occurrence + 1) (vs_seen st),
                    vs_distinct := obj_put key \<lparr>vf_section = sec, vf_sources = sources, vf_supersedes = superseded_ids fc\<rparr> (vs_distinct st)\<rparr>
              in if sec \<noteq> kind then st'
                 else st'\<lparr>vs_recorded := obj_put key
                   (recorded_item h rs kind terms index fc sources (map_of (vs_recorded st) key), index) (vs_recorded st)\<rparr>))"

text \<open>The note of a committed checkpoint, when the record carries one.\<close>

definition committed_note :: "session_record \<Rightarrow> jsval option" where
  "committed_note r = (case r_body r of
       Compaction c \<Rightarrow>
         (if isRecord (c_details c) \<and> jfield (c_details c) ''kind'' = JStr CONTEXT_MEMORY_KIND \<and>
             jfield (c_details c) ''version'' = jint 1 \<and> isRecord (jfield (c_details c) ''note'')
          then Some (jfield (c_details c) ''note'') else None)
     | _ \<Rightarrow> None)"

definition note_facts :: "jsval \<Rightarrow> (note_section \<times> jsval) list" where
  "note_facts n = concat (map (\<lambda>sec. case as_arr (jfield n (section_name sec)) of None \<Rightarrow> [] | Some fs \<Rightarrow> map (Pair sec) fs) noteSections)"

definition scan_entry ::
    "host \<Rightarrow> session_record list \<Rightarrow> note_section \<Rightarrow> jstring list \<Rightarrow> nat \<times> session_record \<Rightarrow> view_scan \<Rightarrow> view_scan" where
  "scan_entry h rs kind terms p st = (case committed_note (snd p) of
       None \<Rightarrow> st
     | Some n \<Rightarrow> fold (\<lambda>(sec, fc). scan_fact h rs kind terms (fst p) sec fc) (note_facts n)
         (st\<lparr>vs_latest := Some (fst p), vs_seen := []\<rparr>))"

definition scan_view :: "host \<Rightarrow> session_record list \<Rightarrow> note_section \<Rightarrow> jstring list \<Rightarrow> view_scan" where
  "scan_view h rs kind terms = fold (scan_entry h rs kind terms) (indexed rs)
     \<lparr>vs_distinct = [], vs_recorded = [], vs_latest = None, vs_seen = []\<rparr>"

section \<open>Revisions\<close>

text \<open>\<open>revisions.get(id)\<close>: the distinct facts that name the id in \<open>supersedes\<close>.\<close>

definition revisions :: "view_fact list \<Rightarrow> jstring \<Rightarrow> view_fact list" where
  "revisions facts i = map snd (filter (\<lambda>p. fst p = i) (concat (map (\<lambda>f. map (\<lambda>old. (old, f)) (vf_supersedes f)) facts)))"

definition on_source :: "view_fact list \<Rightarrow> note_section \<Rightarrow> jstring \<Rightarrow> nat" where
  "on_source facts kind i =
     length (filter (\<lambda>j. j = i) (concat (map (\<lambda>f. if vf_section f = kind then filter (\<lambda>j. j \<notin> set (vf_supersedes f)) (vf_sources f) else []) facts)))"

abbreviation add_all :: "'a list \<Rightarrow> 'a list \<Rightarrow> 'a list" where
  "add_all xs s \<equiv> fold set_add xs s"

definition revise_step :: "view_fact list \<Rightarrow> note_section \<Rightarrow> jstring \<Rightarrow> jstring list \<times> jstring list \<Rightarrow> jstring list \<times> jstring list" where
  "revise_step facts kind i st =
     (let later = revisions facts i;
          same = filter (\<lambda>f. vf_section f = kind) later;
          others = concat (map vf_sources (filter (\<lambda>f. vf_section f \<noteq> kind) later));
          own = concat (map vf_sources same)
      in if same \<noteq> [] \<and> on_source facts kind i \<le> length same
         then (add_all own (fst st), add_all others (snd st))
         else (fst st, add_all others (add_all own (snd st))))"

definition mark_revisions :: "view_fact list \<Rightarrow> nat option \<Rightarrow> note_item \<times> nat \<Rightarrow> note_item" where
  "mark_revisions facts latest p =
     (let it = fst p; own = map lo_entryId (ni_sources it);
          (replaced, revised) = fold (revise_step facts (ni_kind it)) own ([], [])
      in it\<lparr>ni_supersededBy := filter (\<lambda>i. i \<notin> set own) replaced,
            ni_sourceRevisedBy := filter (\<lambda>i. i \<notin> set own \<and> i \<notin> set replaced) revised,
            ni_inLatest := (Some (snd p) = latest)\<rparr>)"

definition noteItems :: "host \<Rightarrow> session_record list \<Rightarrow> note_section \<Rightarrow> jstring list \<Rightarrow> note_item list" where
  "noteItems h rs kind terms =
     (let st = scan_view h rs kind terms
      in map (mark_revisions (map snd (vs_distinct st)) (vs_latest st)) (map snd (vs_recorded st)))"

section \<open>Edits and errors\<close>

text \<open>What the last result of a call on the branch reported.\<close>

definition result_errors :: "session_record list \<Rightarrow> jstring \<Rightarrow> bool option option" where
  "result_errors rs = map_last (concat (map (\<lambda>r. case r_body r of
       Message m \<Rightarrow> (case m_toolCallId m of
           Some c \<Rightarrow> if m_role m = js ''toolResult'' then [(c, m_isError m)] else [] | None \<Rightarrow> [])
     | _ \<Rightarrow> []) rs))"

definition edit_of :: "(jstring \<Rightarrow> bool option option) \<Rightarrow> nat \<times> session_record \<Rightarrow> block \<Rightarrow> edit_item list" where
  "edit_of results p b =
     (if b_type b \<noteq> js ''toolCall'' then []
      else (case (jfield b ''name'', jget (jfield b ''arguments'') (js ''path'')) of
          (JStr tool, JStr path) \<Rightarrow>
            if tool \<notin> set EDIT_TOOLS then []
            else
              let error = (case jfield b ''id'' of JStr c \<Rightarrow> Option.bind (results c) id | _ \<Rightarrow> None)
              in [\<lparr>ei_entryId = r_id (snd p), ei_position = fst p, ei_tool = tool, ei_path = path,
                   ei_outcome = (case error of None \<Rightarrow> NoResult | Some e \<Rightarrow> if e then EditError else EditOk)\<rparr>]
        | _ \<Rightarrow> []))"

definition editItems :: "session_record list \<Rightarrow> edit_item list" where
  "editItems rs = concat (map (\<lambda>p. case r_body (snd p) of
       Message m \<Rightarrow> (case m_content m of
           Some (Blocks bs) \<Rightarrow> if m_role m = js ''assistant'' then concat (map (edit_of (result_errors rs) p) bs) else []
         | _ \<Rightarrow> [])
     | _ \<Rightarrow> []) (indexed rs))"

definition error_of :: "host \<Rightarrow> jstring list \<Rightarrow> nat \<times> session_record \<Rightarrow> error_item list" where
  "error_of h terms p = (case r_body (snd p) of
       Message m \<Rightarrow>
         (if m_role m = js ''toolResult'' \<and> m_isError m = Some True
          then [\<lparr>xi_entryId = r_id (snd p), xi_role = js ''toolResult'', xi_position = fst p, xi_tool = m_toolName m,
                 xi_exitCode = None, xi_excerpt = excerpt_at h (snd p) terms\<rparr>]
          else if m_role m = js ''bashExecution'' \<and> m_exitCode m \<noteq> None \<and> m_exitCode m \<noteq> Some (JInt 0)
          then [\<lparr>xi_entryId = r_id (snd p), xi_role = js ''bashExecution'', xi_position = fst p, xi_tool = None,
                 xi_exitCode = m_exitCode m, xi_excerpt = excerpt_at h (snd p) terms\<rparr>]
          else [])
     | _ \<Rightarrow> [])"

definition errorItems :: "host \<Rightarrow> session_record list \<Rightarrow> jstring list \<Rightarrow> error_item list" where
  "errorItems h rs terms = concat (map (error_of h terms) (indexed rs))"

section \<open>Order, search and price\<close>

fun draft_kind :: "view_draft \<Rightarrow> view_kind" where
  "draft_kind (NoteItem n) = FactKind (ni_kind n)"
| "draft_kind (EditItem e) = EditsKind"
| "draft_kind (ErrorItem e) = ErrorsKind"

text \<open>The entries an item stands on, with their positions.\<close>

fun draft_places :: "view_draft \<Rightarrow> (nat \<times> jstring) list" where
  "draft_places (NoteItem n) = map (\<lambda>l. (lo_position l, lo_entryId l)) (ni_sources n)"
| "draft_places (EditItem e) = [(ei_position e, ei_entryId e)]"
| "draft_places (ErrorItem e) = [(xi_position e, xi_entryId e)]"

definition newest :: "view_draft \<Rightarrow> nat" where
  "newest d = foldr max (map fst (draft_places d)) 0"

fun searchable :: "session_record list \<Rightarrow> view_draft \<Rightarrow> jstring" where
  "searchable rs (EditItem e) = ei_tool e @ [0x20] @ ei_path e"
| "searchable rs (ErrorItem e) = (case xi_tool e of None \<Rightarrow> [] | Some t \<Rightarrow> t) @ [0x20] @ sourceText (rs ! xi_position e)"
| "searchable rs (NoteItem n) = join newline
     ([ni_summary n, (case ni_quote n of None \<Rightarrow> [] | Some q \<Rightarrow> q)] @ map (\<lambda>l. sourceText (rs ! lo_position l)) (ni_sources n))"

fun sum_run :: "('a \<Rightarrow> nat run) \<Rightarrow> 'a list \<Rightarrow> nat \<Rightarrow> nat run" where
  "sum_run f [] acc = returns acc"
| "sum_run f (x # xs) acc = bind_run (f x) (\<lambda>n. sum_run f xs (acc + n))"

definition price :: "host \<Rightarrow> cursor_codec \<Rightarrow> history_snapshot \<Rightarrow> (jstring \<Rightarrow> bool) \<Rightarrow> view_draft \<Rightarrow> view_item run" where
  "price h codec s inContext d =
     bind_run (sum_run (\<lambda>p. readTokens h codec s (hs_entries s ! fst p) (fst p)) (draft_places d) 0)
       (\<lambda>tokens. returns \<lparr>vi_draft = d, vi_readTokens = tokens,
          vi_inContext = list_all (\<lambda>p. inContext (snd p)) (draft_places d)\<rparr>)"

section \<open>The text of an item\<close>

abbreviation jnat :: "nat \<Rightarrow> jsval" where
  "jnat n \<equiv> jint (int n)"

definition view_excerpt_json :: "view_excerpt \<Rightarrow> jsval" where
  "view_excerpt_json e = obj [(''entryId'', JStr (ve_entryId e)), (''offset'', jnat (ve_offset e)), (''text'', JStr (ve_text e))]"

definition some_strs :: "jstring list \<Rightarrow> jsval" where
  "some_strs xs = (if xs = [] then JUndef else JArr (map JStr xs))"

fun outcome_name :: "edit_outcome \<Rightarrow> string" where
  "outcome_name EditOk = ''ok''"
| "outcome_name EditError = ''error''"
| "outcome_name NoResult = ''no-result''"

fun draft_fields :: "view_draft \<Rightarrow> (string \<times> jsval) list" where
  "draft_fields (NoteItem n) =
     [(''kind'', JStr (js (section_name (ni_kind n)))), (''summary'', JStr (ni_summary n)), (''quote'', opt_str (ni_quote n)),
      (''sources'', JArr (map (\<lambda>l. obj [(''entryId'', JStr (lo_entryId l)), (''role'', JStr (lo_role l)), (''position'', jnat (lo_position l))]) (ni_sources n))),
      (''supersedes'', some_strs (ni_supersedes n)), (''recordedAt'', jnat (ni_recordedAt n)),
      (''excerpt'', view_excerpt_json (ni_excerpt n)), (''supersededBy'', some_strs (ni_supersededBy n)),
      (''sourceRevisedBy'', some_strs (ni_sourceRevisedBy n)), (''inLatestCheckpoint'', JBool (ni_inLatest n))]"
| "draft_fields (EditItem e) =
     [(''kind'', JStr (js ''edits'')), (''entryId'', JStr (ei_entryId e)), (''position'', jnat (ei_position e)),
      (''tool'', JStr (ei_tool e)), (''path'', JStr (ei_path e)), (''outcome'', JStr (js (outcome_name (ei_outcome e))))]"
| "draft_fields (ErrorItem e) =
     [(''kind'', JStr (js ''errors'')), (''entryId'', JStr (xi_entryId e)), (''role'', JStr (xi_role e)),
      (''position'', jnat (xi_position e)), (''tool'', opt_str (xi_tool e)), (''exitCode'', opt_num (xi_exitCode e)),
      (''excerpt'', view_excerpt_json (xi_excerpt e))]"

definition view_item_json :: "view_item \<Rightarrow> jsval" where
  "view_item_json i = obj (draft_fields (vi_draft i) @
     [(''readTokens'', jnat (vi_readTokens i)), (''inContext'', if vi_inContext i then JBool True else JUndef)])"

definition item_tokens :: "view_item \<Rightarrow> nat" where
  "item_tokens i = textTokens (stringify (view_item_json i))"

section \<open>A page of the list\<close>

definition list_signature :: "host \<Rightarrow> view_kind \<Rightarrow> jstring \<Rightarrow> jstring" where
  "list_signature h kind query =
     digest h (utf8 (stringify (JArr [JStr (js ''list''), JStr (js (view_kind_name kind)), JStr query, JStr VIEW_VERSION])))"

definition list_cursor_json :: "history_snapshot \<Rightarrow> jstring \<Rightarrow> nat \<Rightarrow> jsval" where
  "list_cursor_json s signature index = obj
     [(''sessionId'', JStr (hs_sessionId s)), (''leafId'', (case hs_leafId s of None \<Rightarrow> JNull | Some l \<Rightarrow> JStr l)),
      (''scope'', JStr (hs_scopeHash s)), (''signature'', JStr signature), (''index'', jnat index)]"

text \<open>The snapshot a list cursor belongs to, pinned to the prefix it was made for, and its index.\<close>

definition resolve_list_cursor ::
    "host \<Rightarrow> cursor_codec \<Rightarrow> history_snapshot \<Rightarrow> jstring \<Rightarrow> jstring \<Rightarrow> (history_snapshot \<times> nat) res" where
  "resolve_list_cursor h codec s signature cursor =
     (case json_parse (read_number h) (cc_decode codec cursor) of
        None \<Rightarrow> throw HISTORY_CURSOR_INVALID ''HISTORY_CURSOR_INVALID''
      | Some c \<Rightarrow>
          if \<not> isRecord c \<or> jfield c ''sessionId'' \<noteq> JStr (hs_sessionId s) \<or> jfield c ''signature'' \<noteq> JStr signature \<or>
             \<not> is_safe_integer (jfield c ''index'') \<or> the (as_int (jfield c ''index'')) < 0
          then throw HISTORY_CURSOR_INVALID ''HISTORY_CURSOR_INVALID: repeat the original operation, kind and query with the cursor, or restart the list''
          else
            let index = nat (the (as_int (jfield c ''index''))) in
            if jfield c ''scope'' \<noteq> JStr (hs_scopeHash s) then
              (let pinned = (case find_index (\<lambda>r. JStr (r_id r) = jfield c ''leafId'') (hs_entries s) of
                      None \<Rightarrow> [] | Some stop \<Rightarrow> take (stop + 1) (hs_entries s))
               in if pinned = [] \<or> JStr (hash_native h pinned) \<noteq> jfield c ''scope''
                  then throw HISTORY_CURSOR_INVALID ''HISTORY_CURSOR_INVALID: source is no longer on this branch''
                  else Inr (s\<lparr>hs_leafId := Some (r_id (last pinned)), hs_entries := pinned, hs_scopeHash := hash_native h pinned\<rparr>, index))
            else Inr (s, index))"

definition drafts :: "host \<Rightarrow> session_record list \<Rightarrow> view_kind \<Rightarrow> jstring list \<Rightarrow> view_draft list" where
  "drafts h rs kind terms = (case kind of
       EditsKind \<Rightarrow> map EditItem (editItems rs)
     | ErrorsKind \<Rightarrow> map ErrorItem (errorItems h rs terms)
     | FactKind sec \<Rightarrow> map NoteItem (noteItems h rs sec terms))"

definition view_list :: "host \<Rightarrow> session_record list \<Rightarrow> view_kind \<Rightarrow> jstring list \<Rightarrow> view_draft list" where
  "view_list h rs kind terms =
     sort_key (\<lambda>d. - int (newest d))
       (let found = drafts h rs kind terms in
        if terms \<noteq> [] then filter (\<lambda>d. any_term h (searchable rs d) terms) found else found)"

text \<open>The loop that fills a page: the first item is taken whatever it costs.\<close>

fun view_loop :: "(view_draft \<Rightarrow> view_item run) \<Rightarrow> view_draft list \<Rightarrow> view_item list \<Rightarrow> int \<Rightarrow> view_item list run" where
  "view_loop f [] found remaining = returns found"
| "view_loop f (d # ds) found remaining =
     bind_run (f d) (\<lambda>i.
       if int (item_tokens i) > remaining \<and> found \<noteq> [] then returns found
       else view_loop f ds (found @ [i]) (remaining - int (item_tokens i)))"

definition no_items :: jstring where
  "no_items = js ''No items of this kind on this branch. The list comes from earlier checkpoints and tool records and can miss what a writer left out; search before concluding the history lacks it.''"

definition view_page_at ::
    "host \<Rightarrow> cursor_codec \<Rightarrow> history_snapshot \<Rightarrow> view_kind \<Rightarrow> jstring \<Rightarrow> int \<Rightarrow> (jstring \<Rightarrow> bool) \<Rightarrow> nat \<Rightarrow> view_page run" where
  "view_page_at h codec s kind query budgetTokens inContext index =
     (let ds = view_list h (hs_entries s) kind (viewTerms h query) in
      bind_run (view_loop (price h codec s inContext) (drop index ds) [] (max 512 (min 4000 budgetTokens) - 350)) (\<lambda>found.
        let stop = index + length found in
        returns \<lparr>vp_sessionId = hs_sessionId s, vp_leafId = hs_leafId s, vp_scopeHash = hs_scopeHash s, vp_kind = kind, vp_items = found,
          vp_cursor = (if stop < length ds
            then Some (cc_encode codec (stringify (list_cursor_json s (list_signature h kind query) stop))) else None),
          vp_message = (if found = [] then Some no_items else None)\<rparr>))"

definition listHistory ::
    "host \<Rightarrow> cursor_codec \<Rightarrow> history_snapshot \<Rightarrow> view_kind option \<Rightarrow> jstring option \<Rightarrow> jstring option \<Rightarrow> int \<Rightarrow> (jstring \<Rightarrow> bool) \<Rightarrow>
      view_page run" where
  "listHistory h codec s kind query cursor budgetTokens inContext = (case kind of
       None \<Rightarrow> Some (throw HISTORY_KIND_REQUIRED ''HISTORY_KIND_REQUIRED: list needs a kind'')
     | Some k \<Rightarrow>
         let q = (case query of None \<Rightarrow> [] | Some t \<Rightarrow> t) in
         (case cursor of
            Some (u # c) \<Rightarrow>
              bind_run (Some (resolve_list_cursor h codec s (list_signature h k q) (u # c)))
                (\<lambda>(s', index). view_page_at h codec s' k q budgetTokens inContext index)
          | _ \<Rightarrow> view_page_at h codec s k q budgetTokens inContext 0))"

section \<open>Where an item stands\<close>

lemma id_position_Some: "id_position rs i = Some k \<Longrightarrow> k < length rs \<and> r_id (rs ! k) = i"
  by (auto simp: id_position_def map_last_def in_set_indexed dest!: map_of_SomeD)

lemma newest_source_in: "ids \<noteq> [] \<Longrightarrow> newest_source rs ids \<in> set ids"
proof -
  have "fold (\<lambda>b a. if the (id_position rs b) \<le> the (id_position rs a) then a else b) xs x \<in> insert x (set xs)" for xs x
    by (induction xs arbitrary: x) auto
  then show "ids \<noteq> [] \<Longrightarrow> newest_source rs ids \<in> set ids"
    unfolding newest_source_def by (cases ids) force+
qed

lemma obj_put_within: "set (obj_put k v ps) \<subseteq> insert (k, v) (set ps)"
  by (induction k v ps rule: obj_put.induct) auto

text \<open>A place names a record of the branch; an excerpt is a verbatim piece of one.\<close>

definition place_ok :: "session_record list \<Rightarrow> nat \<Rightarrow> jstring \<Rightarrow> bool" where
  "place_ok rs k i \<longleftrightarrow> k < length rs \<and> r_id (rs ! k) = i"

definition excerpt_ok :: "session_record list \<Rightarrow> view_excerpt \<Rightarrow> bool" where
  "excerpt_ok rs e \<longleftrightarrow> list_ex (\<lambda>r. r_id r = ve_entryId e \<and>
     ve_text e = slice (ve_offset e) (ve_offset e + VIEW_EXCERPT_CHARS) (sourceText r)) rs"

lemma excerpt_at_ok: "r \<in> set rs \<Longrightarrow> excerpt_ok rs (excerpt_at h r terms)"
  by (auto simp: excerpt_ok_def excerpt_at_def Let_def list_ex_iff)

text \<open>The fact of a committed checkpoint that an item states, and where it was first recorded.\<close>

definition stated_at :: "session_record list \<Rightarrow> note_section \<Rightarrow> note_item \<Rightarrow> nat \<Rightarrow> bool" where
  "stated_at rs kind it p \<longleftrightarrow>
     p < length rs \<and>
     (case committed_note (rs ! p) of None \<Rightarrow> False | Some n \<Rightarrow>
        list_ex (\<lambda>(sec, fc). sec = kind \<and> jfield fc ''text'' = JStr (ni_summary it) \<and>
          (case strings (jfield fc ''sources'') of None \<Rightarrow> False
           | Some ids \<Rightarrow> map lo_entryId (ni_sources it) = filter (\<lambda>i. id_position rs i \<noteq> None) ids)) (note_facts n))"

definition item_ok :: "session_record list \<Rightarrow> note_section \<Rightarrow> note_item \<Rightarrow> bool" where
  "item_ok rs kind it \<longleftrightarrow>
     ni_kind it = kind \<and> ni_sources it \<noteq> [] \<and>
     list_all (\<lambda>l. place_ok rs (lo_position l) (lo_entryId l) \<and> lo_role l = sourceRole (rs ! lo_position l)) (ni_sources it) \<and>
     excerpt_ok rs (ni_excerpt it) \<and>
     ni_recordedAt it < length rs \<and> committed_note (rs ! ni_recordedAt it) \<noteq> None"

definition recorded_ok :: "session_record list \<Rightarrow> note_section \<Rightarrow> view_scan \<Rightarrow> bool" where
  "recorded_ok rs kind st \<longleftrightarrow>
     (\<forall>(key, it, p) \<in> set (vs_recorded st). item_ok rs kind it \<and> stated_at rs kind it p)"

lemma scan_fact_ok:
  assumes st: "recorded_ok rs kind st" and index: "index < length rs" "committed_note (rs ! index) = Some n" "(sec, fc) \<in> set (note_facts n)"
  shows "recorded_ok rs kind (scan_fact h rs kind terms index sec fc st)"
proof (cases "isRecord fc \<and> as_str (jfield fc ''text'') \<noteq> None \<and> strings (jfield fc ''sources'') \<noteq> None \<and>
    filter (\<lambda>i. id_position rs i \<noteq> None) (the (strings (jfield fc ''sources''))) \<noteq> [] \<and> sec = kind")
  case False
  then have "vs_recorded (scan_fact h rs kind terms index sec fc st) = vs_recorded st"
    by (auto simp: scan_fact_def Let_def split: option.splits)
  with st show ?thesis by (simp add: recorded_ok_def)
next
  case True
  then obtain t ids where t: "as_str (jfield fc ''text'') = Some t" and ids: "strings (jfield fc ''sources'') = Some ids" by blast
  define sources where "sources = filter (\<lambda>i. id_position rs i \<noteq> None) ids"
  have ne: "sources \<noteq> []" and sec: "sec = kind" using True ids by (simp_all add: sources_def)
  have "\<exists>key. vs_recorded (scan_fact h rs kind terms index sec fc st) =
      obj_put key (recorded_item h rs kind terms index fc sources (map_of (vs_recorded st) key), index) (vs_recorded st)"
    using True ids unfolding scan_fact_def Let_def by (auto simp: sources_def)
  then obtain key where new: "vs_recorded (scan_fact h rs kind terms index sec fc st) =
      obj_put key (recorded_item h rs kind terms index fc sources (map_of (vs_recorded st) key), index) (vs_recorded st)" by blast
  define it where "it = recorded_item h rs kind terms index fc sources (map_of (vs_recorded st) key)"
  have it: "ni_kind it = kind" "ni_summary it = t" "ni_sources it = map (located_at rs) sources"
      "ni_excerpt it = excerpt_at h (rs ! the (id_position rs (newest_source rs sources))) terms"
      "ni_recordedAt it = (case map_of (vs_recorded st) key of None \<Rightarrow> index | Some (old, _) \<Rightarrow> ni_recordedAt old)"
    using t by (simp_all add: it_def recorded_item_def)
  have pos: "\<exists>k. id_position rs i = Some k" if "i \<in> set sources" for i using that by (auto simp: sources_def)
  have located: "place_ok rs (lo_position (located_at rs i)) (lo_entryId (located_at rs i)) \<and>
      lo_role (located_at rs i) = sourceRole (rs ! lo_position (located_at rs i))" if "i \<in> set sources" for i
    using pos[OF that] by (auto simp: located_at_def place_ok_def Let_def dest: id_position_Some)
  have "rs ! the (id_position rs (newest_source rs sources)) \<in> set rs"
    using pos[OF newest_source_in[OF ne, of rs]] by (metis id_position_Some nth_mem option.sel)
  then have excerpt: "excerpt_ok rs (ni_excerpt it)" unfolding it(4) by (rule excerpt_at_ok)
  have first: "ni_recordedAt it < length rs \<and> committed_note (rs ! ni_recordedAt it) \<noteq> None"
  proof (cases "map_of (vs_recorded st) key")
    case None
    then show ?thesis using it(5) index by simp
  next
    case (Some old)
    then have "(key, fst old, snd old) \<in> set (vs_recorded st)" by (auto dest: map_of_SomeD)
    then have "item_ok rs kind (fst old)" using st by (auto simp: recorded_ok_def)
    with Some show ?thesis using it(5) by (cases old) (simp add: item_ok_def)
  qed
  have "item_ok rs kind it"
    unfolding item_ok_def list_all_iff using it(1,3) ne located excerpt first by auto
  moreover have "stated_at rs kind it index"
  proof -
    have "map lo_entryId (ni_sources it) = sources" by (simp add: it(3) located_at_def Let_def comp_def)
    moreover have "jfield fc ''text'' = JStr (ni_summary it)" using t it(2) by (simp add: as_str_Some)
    ultimately have "list_ex (\<lambda>(sec, fc). sec = kind \<and> jfield fc ''text'' = JStr (ni_summary it) \<and>
          (case strings (jfield fc ''sources'') of None \<Rightarrow> False
           | Some ids \<Rightarrow> map lo_entryId (ni_sources it) = filter (\<lambda>i. id_position rs i \<noteq> None) ids)) (note_facts n)"
      unfolding list_ex_iff by (intro bexI[OF _ index(3)]) (simp add: sec ids sources_def)
    then show ?thesis by (simp only: stated_at_def index option.case simp_thms)
  qed
  ultimately show ?thesis
    using st obj_put_within[of key "(it, index)" "vs_recorded st"] by (auto simp: recorded_ok_def new it_def[symmetric])
qed

lemma scan_entry_ok:
  assumes "recorded_ok rs kind st" and "p \<in> set (indexed rs)"
  shows "recorded_ok rs kind (scan_entry h rs kind terms p st)"
proof (cases "committed_note (snd p)")
  case (Some n)
  have p: "fst p < length rs \<and> rs ! fst p = snd p" using assms(2) in_set_indexed[of "fst p" "snd p" rs] by simp
  have loop: "recorded_ok rs kind (fold (\<lambda>(sec, fc). scan_fact h rs kind terms (fst p) sec fc) fs st')"
    if "set fs \<subseteq> set (note_facts n)" "recorded_ok rs kind st'" for fs st'
    using that
  proof (induction fs arbitrary: st')
    case (Cons f fs)
    obtain sec fc where f: "f = (sec, fc)" by (cases f)
    have "recorded_ok rs kind (scan_fact h rs kind terms (fst p) sec fc st')"
      using Cons.prems p Some f by (intro scan_fact_ok) auto
    then show ?case using Cons f by simp
  qed simp
  have "recorded_ok rs kind (st\<lparr>vs_latest := Some (fst p), vs_seen := []\<rparr>)" using assms(1) by (simp add: recorded_ok_def)
  from loop[OF subset_refl this] Some show ?thesis by (simp add: scan_entry_def)
qed (use assms in \<open>simp add: scan_entry_def\<close>)

lemma scan_view_ok: "recorded_ok rs kind (scan_view h rs kind terms)"
proof -
  have loop: "recorded_ok rs kind (fold (scan_entry h rs kind terms) ps st)"
    if "set ps \<subseteq> set (indexed rs)" "recorded_ok rs kind st" for ps st
    using that
  proof (induction ps arbitrary: st)
    case (Cons p ps)
    then have "recorded_ok rs kind (scan_entry h rs kind terms p st)" by (intro scan_entry_ok) auto
    then show ?case using Cons by simp
  qed simp
  show ?thesis unfolding scan_view_def by (rule loop[OF subset_refl]) (simp add: recorded_ok_def)
qed

lemma mark_revisions_fields [simp]:
  "ni_kind (mark_revisions facts latest p) = ni_kind (fst p)" "ni_summary (mark_revisions facts latest p) = ni_summary (fst p)"
  "ni_sources (mark_revisions facts latest p) = ni_sources (fst p)" "ni_excerpt (mark_revisions facts latest p) = ni_excerpt (fst p)"
  "ni_recordedAt (mark_revisions facts latest p) = ni_recordedAt (fst p)"
  by (simp_all add: mark_revisions_def Let_def split: prod.splits)

lemma stated_at_mark: "stated_at rs kind (mark_revisions facts latest q) p = stated_at rs kind (fst q) p"
  unfolding stated_at_def mark_revisions_fields ..

lemma noteItems_ok:
  assumes "it \<in> set (noteItems h rs kind terms)"
  shows "item_ok rs kind it \<and> list_ex (stated_at rs kind it) [0..<length rs]"
proof -
  obtain key old p where "(key, old, p) \<in> set (vs_recorded (scan_view h rs kind terms))"
    and it: "it = mark_revisions (map snd (vs_distinct (scan_view h rs kind terms))) (vs_latest (scan_view h rs kind terms)) (old, p)"
    using assms by (force simp: noteItems_def Let_def)
  then have ok: "item_ok rs kind old" "stated_at rs kind old p"
    using scan_view_ok[of rs kind h terms] by (auto simp: recorded_ok_def)
  then have "item_ok rs kind it" "stated_at rs kind it p" by (simp_all add: it item_ok_def stated_at_mark)
  moreover from this(2) have "p < length rs" by (simp add: stated_at_def)
  ultimately show ?thesis by (auto simp: list_ex_iff)
qed

lemma edit_of_ok: "e \<in> set (edit_of results p b) \<Longrightarrow> ei_entryId e = r_id (snd p) \<and> ei_position e = fst p \<and> ei_tool e \<in> set EDIT_TOOLS"
  by (auto simp: edit_of_def Let_def split: if_splits jsval.splits)

lemma editItems_ok: "e \<in> set (editItems rs) \<Longrightarrow> place_ok rs (ei_position e) (ei_entryId e) \<and> ei_tool e \<in> set EDIT_TOOLS"
  by (auto simp: editItems_def place_ok_def in_set_indexed split: body.splits option.splits content.splits if_splits dest!: edit_of_ok)

lemma error_of_ok: "x \<in> set (error_of h terms p) \<Longrightarrow>
    xi_entryId x = r_id (snd p) \<and> xi_position x = fst p \<and> xi_excerpt x = excerpt_at h (snd p) terms"
  by (auto simp: error_of_def split: body.splits if_splits)

lemma errorItems_ok: "x \<in> set (errorItems h rs terms) \<Longrightarrow> place_ok rs (xi_position x) (xi_entryId x) \<and> excerpt_ok rs (xi_excerpt x)"
  by (auto simp: errorItems_def place_ok_def in_set_indexed dest!: error_of_ok intro!: excerpt_at_ok)

text \<open>An item of a kind that stands on the branch.\<close>

fun draft_ok :: "session_record list \<Rightarrow> view_kind \<Rightarrow> view_draft \<Rightarrow> bool" where
  "draft_ok rs kind (NoteItem n) \<longleftrightarrow> (case kind of
     FactKind sec \<Rightarrow> item_ok rs sec n \<and> list_ex (stated_at rs sec n) [0..<length rs] | _ \<Rightarrow> False)"
| "draft_ok rs kind (EditItem e) \<longleftrightarrow> kind = EditsKind \<and> place_ok rs (ei_position e) (ei_entryId e) \<and> ei_tool e \<in> set EDIT_TOOLS"
| "draft_ok rs kind (ErrorItem x) \<longleftrightarrow> kind = ErrorsKind \<and> place_ok rs (xi_position x) (xi_entryId x) \<and> excerpt_ok rs (xi_excerpt x)"

lemma drafts_ok: "d \<in> set (drafts h rs kind terms) \<Longrightarrow> draft_ok rs kind d"
  by (cases kind) (auto simp: drafts_def dest: noteItems_ok editItems_ok errorItems_ok)

lemma view_list_ok: "d \<in> set (view_list h rs kind terms) \<Longrightarrow> draft_ok rs kind d"
  by (auto simp: view_list_def Let_def split: if_splits intro: drafts_ok)

lemma draft_places_ok: "draft_ok rs kind d \<Longrightarrow> p \<in> set (draft_places d) \<Longrightarrow> place_ok rs (fst p) (snd p)"
  by (cases d) (auto simp: item_ok_def list_all_iff split: view_kind.splits)

lemma view_list_sorted: "sorted_wrt (\<lambda>d e. newest e \<le> newest d) (view_list h rs kind terms)"
proof -
  have "sorted (map (\<lambda>d. - int (newest d)) (view_list h rs kind terms))" unfolding view_list_def by simp
  then show ?thesis by (simp add: sorted_map)
qed

lemma list_all2_from_right: "list_all2 R xs ys \<Longrightarrow> y \<in> set ys \<Longrightarrow> \<exists>x \<in> set xs. R x y"
  by (induction rule: list_all2_induct) auto

section \<open>Pages of the list\<close>

lemma view_loop_takes:
  assumes "view_loop f ds found remaining = returns result"
  shows "\<exists>n xs. n \<le> length ds \<and> result = found @ xs \<and> list_all2 (\<lambda>d i. f d = returns i) (take n ds) xs \<and>
    (found = [] \<and> ds \<noteq> [] \<longrightarrow> xs \<noteq> []) \<and>
    (xs = [] \<or> int (sum_list (map item_tokens xs)) \<le> remaining \<or> (found = [] \<and> length xs = 1))"
  using assms
proof (induction ds arbitrary: found remaining)
  case (Cons d ds)
  obtain i where i: "f d = returns i" using Cons.prems by (auto simp: bind_run_returns)
  show ?case
  proof (cases "int (item_tokens i) > remaining \<and> found \<noteq> []")
    case True
    then show ?thesis using Cons.prems i by (intro exI[of _ 0] exI[of _ "[]"]) simp
  next
    case False
    then have "view_loop f ds (found @ [i]) (remaining - int (item_tokens i)) = returns result"
      using Cons.prems i by (simp split: if_splits)
    from Cons.IH[OF this] obtain n xs where n: "n \<le> length ds" "result = (found @ [i]) @ xs"
      "list_all2 (\<lambda>d i. f d = returns i) (take n ds) xs"
      "xs = [] \<or> int (sum_list (map item_tokens xs)) \<le> remaining - int (item_tokens i)" by auto
    show ?thesis
    proof (intro exI[of _ "Suc n"] exI[of _ "i # xs"] conjI)
      show "i # xs = [] \<or> int (sum_list (map item_tokens (i # xs))) \<le> remaining \<or> found = [] \<and> length (i # xs) = 1"
        using n(4) False by auto
    qed (use n i in auto)
  qed
qed simp

text \<open>The page at an index: a run of the list from there, each item priced, at least one when any is left.\<close>

lemma view_page_items:
  assumes "view_page_at h codec s kind query budget inContext index = returns page"
  defines "ds \<equiv> view_list h (hs_entries s) kind (viewTerms h query)"
  shows "list_all2 (\<lambda>d i. price h codec s inContext d = returns i) (slice index (index + length (vp_items page)) ds) (vp_items page) \<and>
    (index < length ds \<longrightarrow> vp_items page \<noteq> []) \<and>
    (length (vp_items page) \<le> 1 \<or> int (sum_list (map item_tokens (vp_items page))) + 350 \<le> max 512 (min 4000 budget)) \<and>
    vp_cursor page = (if index + length (vp_items page) < length ds
      then Some (cc_encode codec (stringify (list_cursor_json s (list_signature h kind query) (index + length (vp_items page))))) else None)"
proof -
  let ?R = "max 512 (min 4000 budget) - 350"
  have "view_loop (price h codec s inContext) (drop index ds) [] ?R = returns (vp_items page)"
    and cursor: "vp_cursor page = (if index + length (vp_items page) < length ds
      then Some (cc_encode codec (stringify (list_cursor_json s (list_signature h kind query) (index + length (vp_items page))))) else None)"
    using assms by (auto simp: view_page_at_def Let_def bind_run_returns)
  from view_loop_takes[OF this(1)] obtain n xs where n: "n \<le> length (drop index ds)" "vp_items page = xs"
    "list_all2 (\<lambda>d i. price h codec s inContext d = returns i) (take n (drop index ds)) xs"
    "drop index ds \<noteq> [] \<longrightarrow> xs \<noteq> []" "xs = [] \<or> int (sum_list (map item_tokens xs)) \<le> ?R \<or> length xs = 1" by auto
  have "length xs = n" using list_all2_lengthD[OF n(3)] n(1) by simp
  then have "slice index (index + length (vp_items page)) ds = take n (drop index ds)" by (simp add: slice_def n(2))
  with n cursor show ?thesis by auto
qed

section \<open>List cursors\<close>

lemma list_cursor_ok:
  "documented_numbers h \<Longrightarrow> int i \<le> max_safe_integer \<Longrightarrow> json_reads (read_number h) (list_cursor_json s signature i)"
  using documented_numbersD[of h "int i"]
  by (auto simp: list_cursor_json_def obj_def max_safe_integer_def js_object_names cursor_names split: option.splits)

lemma list_cursor_decodes:
  assumes "documented_codec codec" "documented_numbers h" "int i \<le> max_safe_integer"
  shows "json_parse (read_number h) (cc_decode codec (cc_encode codec (stringify (list_cursor_json s signature i))))
    = Some (list_cursor_json s signature i)"
  by (rule encoded_json[OF assms(1) list_cursor_ok[OF assms(2,3)]])

lemma list_cursor_fields [simp]:
  "isRecord (list_cursor_json s sig i)" "jfield (list_cursor_json s sig i) ''sessionId'' = JStr (hs_sessionId s)"
  "jfield (list_cursor_json s sig i) ''signature'' = JStr sig" "jfield (list_cursor_json s sig i) ''index'' = jnat i"
  "jfield (list_cursor_json s sig i) ''scope'' = JStr (hs_scopeHash s)"
  "jfield (list_cursor_json s sig i) ''leafId'' = (case hs_leafId s of None \<Rightarrow> JNull | Some l \<Rightarrow> JStr l)"
  by (simp_all add: list_cursor_json_def obj_def)

lemma resolve_list_same:
  assumes "documented_codec codec" "documented_numbers h" "int i \<le> max_safe_integer"
  shows "resolve_list_cursor h codec s sig (cc_encode codec (stringify (list_cursor_json s sig i))) = Inr (s, i)"
  using assms by (simp add: resolve_list_cursor_def list_cursor_decodes is_safe_integer_def Let_def)

lemma list_cursor_Cons:
  "documented_codec codec \<Longrightarrow> \<exists>u w. cc_encode codec (stringify (list_cursor_json s sig i)) = u # w"
  by (rule encoded_Cons) (simp_all add: list_cursor_json_def obj_def)

section \<open>Prices\<close>

text \<open>A snapshot every record of which can be read by its id.\<close>

definition snapshot_readable :: "host \<Rightarrow> cursor_codec \<Rightarrow> history_snapshot \<Rightarrow> bool" where
  "snapshot_readable h codec s \<longleftrightarrow>
     distinct (map r_id (hs_entries s)) \<and>
     list_all (\<lambda>r. r_id r \<noteq> [] \<and> int (length (sourceText r)) \<le> max_safe_integer \<and> reads_accepted h codec s r) (hs_entries s)"

lemma sum_run_returns:
  "(\<And>x. x \<in> set xs \<Longrightarrow> \<exists>n. f x = returns n) \<Longrightarrow> \<exists>n. sum_run f xs acc = returns n"
proof (induction xs arbitrary: acc)
  case (Cons x xs)
  then obtain n where "f x = returns n" by fastforce
  with Cons show ?case by auto
qed simp

lemma readTokens_total:
  assumes "documented_codec codec" "documented_numbers h" "snapshot_readable h codec s" "k < length (hs_entries s)"
  shows "\<exists>n. readTokens h codec s (hs_entries s ! k) k = returns n"
proof (cases "sourceText (hs_entries s ! k) = [] \<or> length (r_id (hs_entries s ! k)) > 64")
  case False
  then show ?thesis
    using readTokens_returns[OF assms(1,2) _ assms(4)] assms(3,4) by (auto simp: snapshot_readable_def list_all_length)
qed (auto simp: readTokens_def)

lemma price_draft: "price h codec s inContext d = returns i \<Longrightarrow> vi_draft i = d"
  by (auto simp: price_def bind_run_returns)

lemma priced_drafts: "list_all2 (\<lambda>d i. price h codec s inContext d = returns i) ds xs \<Longrightarrow> map vi_draft xs = ds"
  by (induction rule: list_all2_induct) (auto dest: price_draft)

lemma price_returns:
  assumes "documented_codec codec" "documented_numbers h" "snapshot_readable h codec s" "draft_ok (hs_entries s) kind d"
  shows "\<exists>i. price h codec s inContext d = returns i"
proof -
  have "\<exists>n. readTokens h codec s (hs_entries s ! fst p) (fst p) = returns n" if "p \<in> set (draft_places d)" for p
    using readTokens_total[OF assms(1-3)] draft_places_ok[OF assms(4) that] by (simp add: place_ok_def)
  then obtain n where "sum_run (\<lambda>p. readTokens h codec s (hs_entries s ! fst p) (fst p)) (draft_places d) 0 = returns n"
    using sum_run_returns[of "draft_places d" "\<lambda>p. readTokens h codec s (hs_entries s ! fst p) (fst p)" 0] by blast
  then show ?thesis by (simp add: price_def)
qed

lemma view_loop_returns:
  "(\<And>d. d \<in> set ds \<Longrightarrow> \<exists>i. f d = returns i) \<Longrightarrow> \<exists>xs. view_loop f ds found remaining = returns xs"
proof (induction ds arbitrary: found remaining)
  case (Cons d ds)
  obtain i where "f d = returns i" using Cons.prems[of d] by auto
  with Cons show ?case by simp
qed simp

section \<open>Following the cursors of a list\<close>

text \<open>What a caller gets that follows the cursors of one kind and query, at most \<open>n\<close> pages.\<close>

fun list_pages ::
    "host \<Rightarrow> cursor_codec \<Rightarrow> history_snapshot \<Rightarrow> view_kind \<Rightarrow> jstring \<Rightarrow> int \<Rightarrow> (jstring \<Rightarrow> bool) \<Rightarrow> jstring option \<Rightarrow> nat \<Rightarrow>
      view_item list option" where
  "list_pages h codec s kind query budget inContext cursor 0 = None"
| "list_pages h codec s kind query budget inContext cursor (Suc n) =
     (case listHistory h codec s (Some kind) (Some query) cursor budget inContext of
        Some (Inr page) \<Rightarrow>
          (case vp_cursor page of None \<Rightarrow> Some (vp_items page)
           | Some c \<Rightarrow> map_option ((@) (vp_items page)) (list_pages h codec s kind query budget inContext (Some c) n))
      | _ \<Rightarrow> None)"

lemma view_page_returns:
  assumes "documented_codec codec" "documented_numbers h" "snapshot_readable h codec s"
  shows "\<exists>page. view_page_at h codec s kind query budget inContext index = returns page"
proof -
  let ?ds = "view_list h (hs_entries s) kind (viewTerms h query)"
  have "\<exists>xs. view_loop (price h codec s inContext) (drop index ?ds) [] (max 512 (min 4000 budget) - 350) = returns xs"
    by (rule view_loop_returns) (use price_returns[OF assms] view_list_ok in_set_dropD in metis)
  then obtain xs where "view_loop (price h codec s inContext) (drop index ?ds) [] (max 512 (min 4000 budget) - 350) = returns xs" ..
  then show ?thesis unfolding view_page_at_def Let_def by (simp only: bind_run_simps) blast
qed

lemma list_from_cursor:
  assumes "documented_codec codec" "documented_numbers h" "int i \<le> max_safe_integer"
  shows "listHistory h codec s (Some kind) (Some query) (Some (cc_encode codec (stringify (list_cursor_json s (list_signature h kind query) i)))) budget inContext
    = view_page_at h codec s kind query budget inContext i"
proof -
  obtain u c where "cc_encode codec (stringify (list_cursor_json s (list_signature h kind query) i)) = u # c"
    using list_cursor_Cons[OF assms(1)] by blast
  with resolve_list_same[OF assms, of s "list_signature h kind query"] show ?thesis
    by (simp add: listHistory_def)
qed

lemma list_pages_from:
  assumes "documented_codec codec" "documented_numbers h" "snapshot_readable h codec s"
    and "int (length (view_list h (hs_entries s) kind (viewTerms h query))) \<le> max_safe_integer"
    and "index \<le> length (view_list h (hs_entries s) kind (viewTerms h query))"
    and "listHistory h codec s (Some kind) (Some query) cursor budget inContext = view_page_at h codec s kind query budget inContext index"
  shows "\<exists>n xs. list_pages h codec s kind query budget inContext cursor n = Some xs \<and>
    list_all2 (\<lambda>d i. price h codec s inContext d = returns i) (drop index (view_list h (hs_entries s) kind (viewTerms h query))) xs"
  using assms(5,6)
proof (induction "length (view_list h (hs_entries s) kind (viewTerms h query)) - index" arbitrary: index cursor rule: less_induct)
  case less
  define ds where "ds = view_list h (hs_entries s) kind (viewTerms h query)"
  let ?P = "list_all2 (\<lambda>d i. price h codec s inContext d = returns i)"
  obtain page where page: "view_page_at h codec s kind query budget inContext index = returns page"
    using view_page_returns[OF assms(1-3)] by blast
  let ?m = "length (vp_items page)"
  have items: "?P (slice index (index + ?m) ds) (vp_items page)" "index < length ds \<longrightarrow> vp_items page \<noteq> []"
    and cursor: "vp_cursor page = (if index + ?m < length ds
      then Some (cc_encode codec (stringify (list_cursor_json s (list_signature h kind query) (index + ?m)))) else None)"
    using view_page_items[OF page] by (simp_all add: ds_def)
  have rest: "drop index ds = slice index (index + ?m) ds @ drop (index + ?m) ds"
    using append_take_drop_id[of ?m "drop index ds"] by (simp add: slice_def add.commute)
  show ?case
  proof (cases "index + ?m < length ds")
    case True
    then have "?m \<noteq> 0" using items(2) by simp
    have safe: "int (index + ?m) \<le> max_safe_integer" using True assms(4) by (simp add: ds_def)
    have "\<exists>n xs. list_pages h codec s kind query budget inContext (vp_cursor page) n = Some xs \<and> ?P (drop (index + ?m) ds) xs"
      unfolding ds_def
    proof (rule less.hyps)
      show "length (view_list h (hs_entries s) kind (viewTerms h query)) - (index + ?m)
          < length (view_list h (hs_entries s) kind (viewTerms h query)) - index"
        using True \<open>?m \<noteq> 0\<close> unfolding ds_def by linarith
      show "listHistory h codec s (Some kind) (Some query) (vp_cursor page) budget inContext =
          view_page_at h codec s kind query budget inContext (index + ?m)"
        using cursor True by (simp add: list_from_cursor[OF assms(1,2) safe])
    qed (use True in \<open>simp add: ds_def\<close>)
    then obtain n xs where n: "list_pages h codec s kind query budget inContext (vp_cursor page) n = Some xs" "?P (drop (index + ?m) ds) xs" by blast
    have "list_pages h codec s kind query budget inContext cursor (Suc n) = Some (vp_items page @ xs)"
      using less.prems(2) page cursor True n(1) by simp
    moreover have "?P (drop index ds) (vp_items page @ xs)"
      unfolding rest using items(1) n(2) by (rule list_all2_appendI)
    ultimately show ?thesis unfolding ds_def by blast
  next
    case False
    have "list_pages h codec s kind query budget inContext cursor (Suc 0) = Some (vp_items page)"
      using less.prems(2) page cursor False by simp
    moreover have "?P (drop index ds) (vp_items page)"
      using items(1) False unfolding rest by simp
    ultimately show ?thesis unfolding ds_def by blast
  qed
qed

text \<open>
  C39: Paging a list to the end lists every item once. On a readable snapshot, following the cursors of
  \<open>listHistory\<close> ends after finitely many pages, whatever the budget; the pages together are the whole
  sorted list of the kind in its order, newest first, each item with its price.
\<close>

theorem list_pages_complete:
  assumes "documented_codec codec" and "documented_numbers h" and "snapshot_readable h codec s"
    and "int (length (view_list h (hs_entries s) kind (viewTerms h query))) \<le> max_safe_integer"
  shows "\<exists>n xs. list_pages h codec s kind query budget inContext None n = Some xs \<and>
    map vi_draft xs = view_list h (hs_entries s) kind (viewTerms h query) \<and>
    sorted_wrt (\<lambda>i j. newest (vi_draft j) \<le> newest (vi_draft i)) xs"
proof -
  let ?ds = "view_list h (hs_entries s) kind (viewTerms h query)"
  obtain n xs where n: "list_pages h codec s kind query budget inContext None n = Some xs"
    and xs: "list_all2 (\<lambda>d i. price h codec s inContext d = returns i) ?ds xs"
    using list_pages_from[OF assms(1-4), of 0 None budget inContext] by (auto simp: listHistory_def)
  note drafts = priced_drafts[OF xs]
  have "sorted_wrt (\<lambda>i j. newest (vi_draft j) \<le> newest (vi_draft i)) xs"
    using view_list_sorted[of h "hs_entries s" kind "viewTerms h query"] unfolding drafts[symmetric] by (simp add: sorted_wrt_map)
  with n drafts show ?thesis by blast
qed

lemma resolve_list_prefix:
  "resolve_list_cursor h codec s sig cursor = Inr (s', index) \<Longrightarrow> \<exists>n. hs_entries s' = take n (hs_entries s)"
  by (auto simp: resolve_list_cursor_def Let_def throw_def split: option.splits if_splits)
    (metis take_all order_refl)+

text \<open>A page is one of the list over the snapshot, or over the prefix of it that its cursor pins.\<close>

lemma listHistory_page:
  assumes "listHistory h codec s (Some kind) query cursor budget inContext = returns page"
  obtains s' n index where "hs_entries s' = take n (hs_entries s)" "if cursor = None then s' = s else True"
    "view_page_at h codec s' kind (case query of None \<Rightarrow> [] | Some t \<Rightarrow> t) budget inContext index = returns page"
proof -
  note found = that
  have whole: thesis if page: "view_page_at h codec s kind (case query of None \<Rightarrow> [] | Some t \<Rightarrow> t) budget inContext 0 = returns page"
    by (rule found[OF _ _ page, of "length (hs_entries s)"]) simp_all
  show thesis
  proof (cases cursor)
    case (Some c)
    show thesis
    proof (cases c)
      case (Cons u cs)
      then obtain s' index where s': "resolve_list_cursor h codec s (list_signature h kind (case query of None \<Rightarrow> [] | Some t \<Rightarrow> t)) (u # cs) = Inr (s', index)"
        "view_page_at h codec s' kind (case query of None \<Rightarrow> [] | Some t \<Rightarrow> t) budget inContext index = returns page"
        using assms Some
        by (cases "resolve_list_cursor h codec s (list_signature h kind (case query of None \<Rightarrow> [] | Some t \<Rightarrow> t)) (u # cs)")
          (auto simp: listHistory_def Let_def)
      from resolve_list_prefix[OF s'(1)] s'(2) Some show thesis by (auto intro: found)
    qed (use assms Some whole in \<open>simp add: listHistory_def\<close>)
  qed (use assms whole in \<open>simp add: listHistory_def\<close>)
qed

text \<open>
  C38: A list shows evidence only. Take any page \<open>listHistory\<close> returns, the first one or one reached with a
  cursor, which pins a prefix of the branch. Every item of it stands on records of that branch by id and
  position; a fact is one a committed checkpoint states in that section, with its sources on the branch;
  excerpts are verbatim; the cost is the sum of full reads; items come newest first; and the page fits
  the budget, clamped to 512 and 4000, less the 350 reserved for the page, unless it holds one
  item only, which is shown whatever it costs.
\<close>

theorem listHistory_evidence:
  assumes "listHistory h codec s (Some kind) query cursor budget inContext = returns page"
  shows "\<exists>s' n. hs_entries s' = take n (hs_entries s) \<and> (if cursor = None then s' = s else True) \<and>
    list_all (\<lambda>i. draft_ok (hs_entries s') kind (vi_draft i) \<and>
      list_all (\<lambda>p. place_ok (hs_entries s') (fst p) (snd p)) (draft_places (vi_draft i)) \<and>
      price h codec s' inContext (vi_draft i) = returns i \<and>
      vi_inContext i = list_all (\<lambda>p. inContext (snd p)) (draft_places (vi_draft i))) (vp_items page) \<and>
    sorted_wrt (\<lambda>i j. newest (vi_draft j) \<le> newest (vi_draft i)) (vp_items page) \<and>
    (if length (vp_items page) = 1 then True
     else int (sum_list (map item_tokens (vp_items page))) + 350 \<le> max 512 (min 4000 budget))"
proof -
  let ?q = "case query of None \<Rightarrow> [] | Some t \<Rightarrow> t"
  obtain s' n index where s': "hs_entries s' = take n (hs_entries s)" "if cursor = None then s' = s else True"
    and page: "view_page_at h codec s' kind ?q budget inContext index = returns page" by (rule listHistory_page[OF assms])
  let ?ds = "view_list h (hs_entries s') kind (viewTerms h ?q)"
  note items = view_page_items[OF page]
  have shown: "draft_ok (hs_entries s') kind (vi_draft i) \<and>
      list_all (\<lambda>p. place_ok (hs_entries s') (fst p) (snd p)) (draft_places (vi_draft i)) \<and>
      price h codec s' inContext (vi_draft i) = returns i \<and>
      vi_inContext i = list_all (\<lambda>p. inContext (snd p)) (draft_places (vi_draft i))" if i: "i \<in> set (vp_items page)" for i
  proof -
    from list_all2_from_right[OF items[THEN conjunct1] i] obtain d where
      "d \<in> set (slice index (index + length (vp_items page)) ?ds)" "price h codec s' inContext d = returns i" by blast
    then have d: "d \<in> set ?ds" "price h codec s' inContext d = returns i" by (auto simp: slice_def dest!: in_set_takeD in_set_dropD)
    have "vi_inContext i = list_all (\<lambda>p. inContext (snd p)) (draft_places d)"
      using d(2) by (auto simp: price_def bind_run_returns)
    with d price_draft[OF d(2)] view_list_ok[OF d(1)] draft_places_ok[OF view_list_ok[OF d(1)]] show ?thesis by (simp add: list_all_iff)
  qed
  have "map vi_draft (vp_items page) = slice index (index + length (vp_items page)) ?ds"
    by (rule priced_drafts[OF items[THEN conjunct1]])
  moreover have "sorted_wrt (\<lambda>d e. newest e \<le> newest d) (slice index (index + length (vp_items page)) ?ds)"
    unfolding slice_def by (intro sorted_wrt_take sorted_wrt_drop view_list_sorted)
  ultimately have "sorted_wrt (\<lambda>d e. newest e \<le> newest d) (map vi_draft (vp_items page))" by simp
  then have "sorted_wrt (\<lambda>i j. newest (vi_draft j) \<le> newest (vi_draft i)) (vp_items page)"
    by (simp add: sorted_wrt_map)
  moreover have "if length (vp_items page) = 1 then True
     else int (sum_list (map item_tokens (vp_items page))) + 350 \<le> max 512 (min 4000 budget)"
    using items by (cases "vp_items page") auto
  ultimately show ?thesis using s' shown unfolding list_all_iff by blast
qed

section \<open>Witnesses\<close>

definition failed_record :: session_record where
  "failed_record = \<lparr>r_id = js ''e1'', r_parent = None, r_time = js ''t'',
     r_body = Message ((text_message ''toolResult'' ''boom'')\<lparr>m_isError := Some True\<rparr>), r_native = JObj []\<rparr>"

definition failed_snapshot :: history_snapshot where
  "failed_snapshot = \<lparr>hs_sessionId = js ''s'', hs_leafId = Some (js ''e1''), hs_scopeHash = js ''h'', hs_entries = [failed_record]\<rparr>"

definition failed_item :: view_draft where
  "failed_item = ErrorItem \<lparr>xi_entryId = js ''e1'', xi_role = js ''toolResult'', xi_position = 0, xi_tool = None,
     xi_exitCode = None, xi_excerpt = excerpt_at open_host failed_record []\<rparr>"

lemma failed_simps [simp]:
  "hs_entries failed_snapshot = [failed_record]" "r_id failed_record = js ''e1''" "sourceText failed_record = js ''boom''"
  by (simp_all add: failed_snapshot_def failed_record_def sourceText_def message_text_def text_message_def)

lemma no_terms: "viewTerms open_host [] = []"
  by (simp add: viewTerms_def open_host_def plain_host_def han_words_def dedup_def)

lemma failed_list: "view_list open_host [failed_record] ErrorsKind [] = [failed_item]"
  by (simp add: view_list_def drafts_def errorItems_def indexed_def failed_item_def error_of_def)
    (simp add: failed_record_def text_message_def)

lemma failed_readable: "snapshot_readable open_host plain_codec failed_snapshot"
  by (simp add: snapshot_readable_def reads_accepted_def open_accepts list_all_iff max_safe_integer_def)

theorem list_pages_complete_witness:
  "\<exists>n xs. list_pages open_host plain_codec failed_snapshot ErrorsKind [] 0 (\<lambda>_. False) None n = Some xs \<and> map vi_draft xs = [failed_item]"
proof -
  have short: "int (length (view_list open_host (hs_entries failed_snapshot) ErrorsKind (viewTerms open_host []))) \<le> max_safe_integer"
    by (simp add: no_terms failed_list max_safe_integer_def)
  from list_pages_complete[OF plain_codec_documented open_numbers failed_readable short] obtain n xs
    where n: "list_pages open_host plain_codec failed_snapshot ErrorsKind [] 0 (\<lambda>_. False) None n = Some xs"
      "map vi_draft xs = view_list open_host (hs_entries failed_snapshot) ErrorsKind (viewTerms open_host [])" by blast
  from n(2) have "map vi_draft xs = [failed_item]" unfolding no_terms failed_simps(1) failed_list .
  with n(1) show ?thesis by (intro exI conjI)
qed

text \<open>A committed checkpoint with two facts, one of which names a source that is not on the branch.\<close>

definition stated_fact :: "string \<Rightarrow> string list \<Rightarrow> note_fact" where
  "stated_fact t ids = obj [(''text'', JStr (js t)), (''sources'', JArr (map (JStr \<circ> js) ids))]"

definition facts_record :: session_record where
  "facts_record = \<lparr>r_id = js ''c1'', r_parent = Some (js ''u2''), r_time = js ''t'', r_body = Compaction
     \<lparr>c_summary = [], c_firstKeptEntryId = js ''u1'', c_tokensBefore = JInt 1,
      c_details = obj [(''kind'', JStr CONTEXT_MEMORY_KIND), (''version'', jint 1),
        (''note'', note_with_state [stated_fact ''The port is 80.'' [''u1'', ''gone''], stated_fact ''Logs go to disk.'' [''u2'']])]\<rparr>,
     r_native = JObj []\<rparr>"

definition facts_snapshot :: history_snapshot where
  "facts_snapshot = \<lparr>hs_sessionId = js ''s'', hs_leafId = Some (js ''c1''), hs_scopeHash = js ''h'',
     hs_entries = [text_record ''u1'' ''user'' ''Port 80.'', text_record ''u2'' ''user'' ''Log.'', facts_record]\<rparr>"

abbreviation facts_list :: "view_draft list" where
  "facts_list \<equiv> view_list open_host (hs_entries facts_snapshot) (FactKind State) []"

lemma facts_places: "map draft_places facts_list = [[(1, js ''u2'')], [(0, js ''u1'')]]"
  by code_simp

lemma facts_first_read: "readTokens open_host plain_codec facts_snapshot (hs_entries facts_snapshot ! 0) 0 = returns 50"
  unfolding readTokens_def by (subst read_loop.simps) code_simp

lemma facts_second_read: "readTokens open_host plain_codec facts_snapshot (hs_entries facts_snapshot ! 1) 1 = returns 48"
  unfolding readTokens_def by (subst read_loop.simps) code_simp

lemma facts_first_tokens: "item_tokens \<lparr>vi_draft = hd facts_list, vi_readTokens = 48, vi_inContext = False\<rparr> \<le> 100"
  by code_simp

lemma facts_second_tokens: "item_tokens \<lparr>vi_draft = hd (tl facts_list), vi_readTokens = 50, vi_inContext = False\<rparr> \<le> 100"
  by code_simp

lemma facts_page:
  "\<exists>page. view_page_at open_host plain_codec facts_snapshot (FactKind State) [] 4000 (\<lambda>_. False) 0 = returns page \<and> length (vp_items page) = 2"
proof -
  obtain d e where ds: "facts_list = [d, e]" "draft_places d = [(1, js ''u2'')]" "draft_places e = [(0, js ''u1'')]"
    using facts_places by (auto simp: map_eq_Cons_conv)
  have price: "price open_host plain_codec facts_snapshot (\<lambda>_. False) d = returns \<lparr>vi_draft = d, vi_readTokens = 48, vi_inContext = False\<rparr>"
    "price open_host plain_codec facts_snapshot (\<lambda>_. False) e = returns \<lparr>vi_draft = e, vi_readTokens = 50, vi_inContext = False\<rparr>"
    using ds(2,3) facts_first_read facts_second_read by (simp_all add: price_def)
  have small: "item_tokens \<lparr>vi_draft = d, vi_readTokens = 48, vi_inContext = False\<rparr> \<le> 100"
    "item_tokens \<lparr>vi_draft = e, vi_readTokens = 50, vi_inContext = False\<rparr> \<le> 100"
    using facts_first_tokens facts_second_tokens unfolding ds(1) by simp_all
  have loop: "view_loop (price open_host plain_codec facts_snapshot (\<lambda>_. False)) facts_list [] 3650 =
      returns [\<lparr>vi_draft = d, vi_readTokens = 48, vi_inContext = False\<rparr>, \<lparr>vi_draft = e, vi_readTokens = 50, vi_inContext = False\<rparr>]"
    unfolding ds(1) using price small by simp
  show ?thesis using loop by (simp add: view_page_at_def no_terms Let_def)
qed

theorem listHistory_evidence_witness:
  "\<exists>page. listHistory open_host plain_codec facts_snapshot (Some (FactKind State)) None None 4000 (\<lambda>_. False) = returns page \<and>
     length (vp_items page) = 2 \<and>
     list_all (\<lambda>i. draft_ok (hs_entries facts_snapshot) (FactKind State) (vi_draft i)) (vp_items page) \<and>
     int (sum_list (map item_tokens (vp_items page))) + 350 \<le> 4000"
proof -
  obtain page where page: "view_page_at open_host plain_codec facts_snapshot (FactKind State) [] 4000 (\<lambda>_. False) 0 = returns page"
    and two: "length (vp_items page) = 2" using facts_page by blast
  then have listed: "listHistory open_host plain_codec facts_snapshot (Some (FactKind State)) None None 4000 (\<lambda>_. False) = returns page"
    by (simp add: listHistory_def)
  from listHistory_evidence[OF listed] two
  have "list_all (\<lambda>i. draft_ok (hs_entries facts_snapshot) (FactKind State) (vi_draft i)) (vp_items page)"
    "int (sum_list (map item_tokens (vp_items page))) + 350 \<le> 4000"
    by (auto simp: list_all_iff)
  with listed two show ?thesis by blast
qed

end
