(* ===== verification/Writer.thy ===== *)
theory Writer
  imports Writer_Parts Work_Notes
begin

text \<open>
  \<^bold>\<open>writer.ts\<close>, the sequence of provider calls: reservation, dispatch, settlement and progress of one
  call, the checks of a candidate, the one repair, the declined tool call, and the two writers.

  The variables \<open>writeMemory\<close> closes over are the record \<open>writer_state\<close>, threaded through every
  operation; it survives a throw, as the variables do. The host's side (the abort signal, the clock, the
  progress observer, the call hooks, the transport) is a record of functions of a \<open>tick\<close> counting
  the reads of it, so that a signal may fire between any two steps and a hook or a dispatch may throw or
  answer anything. \<open>ws_trace\<close> is the sequence of what the host was told: reservations that returned an
  identity, dispatches, settlements and progress reports.
\<close>

section \<open>Records\<close>

record sent_reasoning =
  sr_effort :: "jstring option"
  sr_fixedEffort :: "jstring option"
  sr_thinking :: "jstring option"
  sr_budgetTokens :: "jsnum option"
  sr_maxTokens :: "jsnum option"

record writer_call_detail = writer_call_record +
  wd_effort :: "writer_reasoning option"
  wd_sent :: "sent_reasoning option"
  wd_stopReason :: "jstring option"
  wd_envelope :: "note_envelope option"

record dispatch_request =
  dr_callIndex :: nat
  dr_phase :: call_phase
  dr_model :: jstring
  dr_writerEffort :: writer_reasoning

datatype call_outcome = CallSuccess | CallFailed | CallCancelled

record dispatch_result =
  ds_callIndex :: nat
  ds_callId :: jstring
  ds_phase :: call_phase
  ds_dispatched :: bool
  ds_outcome :: call_outcome
  ds_elapsedMs :: int
  ds_usage :: "writer_usage option"
  ds_usageComplete :: "bool option"

datatype repair_kind = SizeRepair | QuotationRepair | SourcesRepair

record writer_progress =
  wp_writerModel :: jstring
  wp_writerEffort :: writer_reasoning
  wp_writerCalls :: nat
  wp_usageReports :: nat
  wp_usage :: "writer_usage option"
  wp_repairUsed :: bool
  wp_writerCallDetails :: "writer_call_detail list"
  wp_quotations :: "quote_counts option"
  wp_scope :: "scope_counts option"
  wp_schema :: "schema_counts option"
  wp_repairKind :: "repair_kind option"
  wp_quotationRepair :: "quote_repair_outcome option"
  wp_toolCallResponses :: nat
  wp_toolCallDeclined :: bool

record write_result =
  wm_note :: memory_note
  wm_usage :: writer_usage
  wm_chunkCount :: nat
  wm_writerModel :: jstring
  wm_writerEffort :: writer_reasoning

section \<open>The host's side\<close>

record ('q, 'p) writer_transport =
  wt_model :: jstring
  wt_effort :: writer_reasoning
  wt_session :: bool
  wt_contextWindow :: int
  wt_maxOutputTokens :: int
  wt_prefixTokens :: "int option"
  wt_request :: "writer_request \<Rightarrow> 'q"
  wt_declineToolCalls :: "'q \<Rightarrow> 'p writer_response \<Rightarrow> 'q"
  wt_dispatch :: "nat \<Rightarrow> 'q \<Rightarrow> sent_reasoning option \<times> unit res"
  wt_result :: "nat \<Rightarrow> 'q \<Rightarrow> sent_reasoning option \<times> 'p writer_response res"
  wt_summarizeUsage :: "writer_usage \<Rightarrow> usage_summary"

text \<open>\<open>wt_dispatch\<close> and \<open>wt_result\<close> say what \<open>onSent\<close> was called with meanwhile, and how they ended.\<close>

record call_hooks =
  wh_beforeDispatch :: "nat \<Rightarrow> dispatch_request \<Rightarrow> jsval res"
  wh_afterDispatch :: "nat \<Rightarrow> dispatch_result \<Rightarrow> unit res"

record writer_world =
  ww_aborted :: "nat \<Rightarrow> bool"
  ww_reason :: err
  ww_now :: "nat \<Rightarrow> rat"
  ww_onProgress :: "(nat \<Rightarrow> writer_progress \<Rightarrow> unit res) option"
  ww_hooks :: "call_hooks option"

record ('q, 'p) writer_env =
  we_host :: host
  we_doc :: "schema \<Rightarrow> jsval"
  we_world :: writer_world
  we_transport :: "('q, 'p) writer_transport"
  we_options :: writer_options

section \<open>State and steps\<close>

datatype 'q writer_event =
    Reserved dispatch_request jstring | Dispatched 'q | Settled dispatch_result | Reported writer_progress

record 'q writer_state =
  ws_tick :: nat
  ws_calls :: nat
  ws_usages :: "writer_usage list"
  ws_repairUsed :: bool
  ws_phase :: call_phase
  ws_details :: "writer_call_detail list"
  ws_quotations :: "quote_counts option"
  ws_scope :: "scope_counts option"
  ws_schema :: "schema_counts option"
  ws_repairKind :: "repair_kind option"
  ws_quotationRepair :: "quote_repair_outcome option"
  ws_toolResponses :: nat
  ws_toolDeclined :: bool
  ws_trace :: "'q writer_event list"

definition first_state :: "'q writer_state" where
  "first_state = \<lparr>ws_tick = 0, ws_calls = 0, ws_usages = [], ws_repairUsed = False, ws_phase = Generate,
     ws_details = [], ws_quotations = None, ws_scope = None, ws_schema = None, ws_repairKind = None,
     ws_quotationRepair = None, ws_toolResponses = 0, ws_toolDeclined = False, ws_trace = []\<rparr>"

text \<open>
  What an operation may throw: an error, the two refusals that carry a candidate to its repair, and the
  \<open>AggregateError\<close> of a failed call whose settlement failed too.
\<close>

datatype writer_failure =
    Thrown err
  | SchemaRefusal err schema_diagnosis
  | QuotationRefusal err memory_note quote_diagnosis
  | Aggregate writer_failure err jstring

type_synonym ('q, 'a) act = "'q writer_state \<Rightarrow> (writer_failure + 'a) \<times> 'q writer_state"

definition ret :: "'a \<Rightarrow> ('q, 'a) act" where
  "ret a s = (Inr a, s)"

definition raise :: "writer_failure \<Rightarrow> ('q, 'a) act" where
  "raise f s = (Inl f, s)"

definition bind_act :: "('q, 'a) act \<Rightarrow> ('a \<Rightarrow> ('q, 'b) act) \<Rightarrow> ('q, 'b) act" where
  "bind_act m k s = (case m s of (Inl f, s') \<Rightarrow> (Inl f, s') | (Inr a, s') \<Rightarrow> k a s')"

text \<open>\<open>try { m } catch (f) { k f }\<close>, and \<open>try { m } finally { phase = "generate" }\<close>.\<close>

definition recover :: "('q, 'a) act \<Rightarrow> (writer_failure \<Rightarrow> ('q, 'a) act) \<Rightarrow> ('q, 'a) act" where
  "recover m k s = (case m s of (Inl f, s') \<Rightarrow> k f s' | (Inr a, s') \<Rightarrow> (Inr a, s'))"

definition finally_generate :: "('q, 'a) act \<Rightarrow> ('q, 'a) act" where
  "finally_generate m s = (case m s of (r, s') \<Rightarrow> (r, s'\<lparr>ws_phase := Generate\<rparr>))"

definition update :: "('q writer_state \<Rightarrow> 'q writer_state) \<Rightarrow> ('q, unit) act" where
  "update f s = (Inr (), f s)"

definition lift_res :: "'a res \<Rightarrow> ('q, 'a) act" where
  "lift_res r s = (case r of Inl e \<Rightarrow> (Inl (Thrown e), s) | Inr a \<Rightarrow> (Inr a, s))"

definition then_act :: "('q, unit) act \<Rightarrow> ('q, 'b) act \<Rightarrow> ('q, 'b) act" where
  "then_act m k = bind_act m (\<lambda>_. k)"

definition log_event :: "'q writer_event \<Rightarrow> 'q writer_state \<Rightarrow> 'q writer_state" where
  "log_event ev s = s\<lparr>ws_trace := ws_trace s @ [ev], ws_tick := Suc (ws_tick s)\<rparr>"

definition tick :: "'q writer_state \<Rightarrow> 'q writer_state" where
  "tick s = s\<lparr>ws_tick := Suc (ws_tick s)\<rparr>"

text \<open>\<open>options.signal.aborted\<close>, \<open>options.signal.throwIfAborted()\<close> and \<open>performance.now()\<close>.\<close>

definition polled :: "('q, 'p) writer_env \<Rightarrow> 'q writer_state \<Rightarrow> bool \<times> 'q writer_state" where
  "polled x s = (ww_aborted (we_world x) (ws_tick s), tick s)"

definition throwIfAborted :: "('q, 'p) writer_env \<Rightarrow> ('q, unit) act" where
  "throwIfAborted x s =
     (if ww_aborted (we_world x) (ws_tick s) then (Inl (Thrown (ww_reason (we_world x))), tick s) else (Inr (), tick s))"

definition now :: "('q, 'p) writer_env \<Rightarrow> 'q writer_state \<Rightarrow> rat \<times> 'q writer_state" where
  "now x s = (ww_now (we_world x) (ws_tick s), tick s)"

abbreviation hooks :: "('q, 'p) writer_env \<Rightarrow> call_hooks option" where
  "hooks x \<equiv> ww_hooks (we_world x)"

section \<open>Progress\<close>

definition progress_of :: "('q, 'p) writer_env \<Rightarrow> 'q writer_state \<Rightarrow> writer_progress" where
  "progress_of x s = \<lparr>wp_writerModel = wt_model (we_transport x), wp_writerEffort = wt_effort (we_transport x),
     wp_writerCalls = ws_calls s, wp_usageReports = length (ws_usages s),
     wp_usage = (if ws_usages s \<noteq> [] then Some (sumMemoryUsage (ws_usages s)) else None),
     wp_repairUsed = ws_repairUsed s, wp_writerCallDetails = ws_details s, wp_quotations = ws_quotations s,
     wp_scope = ws_scope s, wp_schema = ws_schema s, wp_repairKind = ws_repairKind s,
     wp_quotationRepair = ws_quotationRepair s, wp_toolCallResponses = ws_toolResponses s,
     wp_toolCallDeclined = ws_toolDeclined s\<rparr>"

definition report :: "('q, 'p) writer_env \<Rightarrow> ('q, unit) act" where
  "report x s = (case ww_onProgress (we_world x) of
       None \<Rightarrow> (Inr (), s)
     | Some observe \<Rightarrow> lift_res (observe (ws_tick s) (progress_of x s)) (log_event (Reported (progress_of x s)) s))"

section \<open>One provider call\<close>

definition reserve :: "('q, 'p) writer_env \<Rightarrow> nat \<Rightarrow> call_phase \<Rightarrow> writer_reasoning \<Rightarrow> ('q, jstring option) act" where
  "reserve x callIndex callPhase effort s = (case hooks x of
       None \<Rightarrow> (Inr None, s)
     | Some hk \<Rightarrow>
         (let request = \<lparr>dr_callIndex = callIndex, dr_phase = callPhase, dr_model = wt_model (we_transport x), dr_writerEffort = effort\<rparr>
          in case wh_beforeDispatch hk (ws_tick s) request of
               Inl e \<Rightarrow> (Inl (Thrown e), tick s)
             | Inr (JStr (u # callId)) \<Rightarrow> (Inr (Some (u # callId)), log_event (Reserved request (u # callId)) s)
             | Inr _ \<Rightarrow> (Inl (Thrown (Err CONTEXT_WRITER_ACCOUNTING
                 (js ''CONTEXT_WRITER_ACCOUNTING: dispatch reservation did not return an identity''))), tick s)))"

text \<open>The last call detail, the record object the call holds.\<close>

definition put_last :: "('a \<Rightarrow> 'a) \<Rightarrow> 'a list \<Rightarrow> 'a list" where
  "put_last f xs = (if xs = [] then [] else butlast xs @ [f (last xs)])"

definition put_detail :: "(writer_call_detail \<Rightarrow> writer_call_detail) \<Rightarrow> 'q writer_state \<Rightarrow> 'q writer_state" where
  "put_detail f s = s\<lparr>ws_details := put_last f (ws_details s)\<rparr>"

definition put_sent :: "sent_reasoning option \<Rightarrow> 'q writer_state \<Rightarrow> 'q writer_state" where
  "put_sent sent = (case sent of None \<Rightarrow> id | Some r \<Rightarrow> put_detail (\<lambda>d. d\<lparr>wd_sent := Some r\<rparr>))"

definition fresh_detail :: "call_phase \<Rightarrow> writer_reasoning \<Rightarrow> writer_call_detail" where
  "fresh_detail callPhase effort = \<lparr>wc_phase = callPhase, wc_ms = None, wc_usage = None, wc_noteBytes = None,
     wd_effort = Some effort, wd_sent = None, wd_stopReason = None, wd_envelope = None\<rparr>"

text \<open>The variables of a call after its \<open>try\<close> block.\<close>

record 'p attempt =
  at_called :: bool
  at_dispatched :: bool
  at_response :: "'p writer_response option"
  at_failure :: "writer_failure option"

definition receive :: "('q, 'p) writer_env \<Rightarrow> 'p writer_response \<Rightarrow> 'q writer_state \<Rightarrow> 'q writer_state" where
  "receive x rs s =
     (let s1 = put_detail (\<lambda>d. d\<lparr>wd_stopReason := Some (rs_stopReason rs)\<rparr>) s;
          s2 = (if calls_tool rs then s1\<lparr>ws_toolResponses := ws_toolResponses s1 + 1\<rparr> else s1)
      in case reportedUsage rs of
           None \<Rightarrow> s2
         | Some u \<Rightarrow> put_detail (\<lambda>d. d\<lparr>wc_usage := Some (wt_summarizeUsage (we_transport x) u)\<rparr>)
                       (s2\<lparr>ws_usages := ws_usages s2 @ [u]\<rparr>))"

text \<open>From the dispatch on: an observer failure is kept while the response is awaited.\<close>

definition dispatch_call :: "('q, 'p) writer_env \<Rightarrow> 'q \<Rightarrow> 'q writer_state \<Rightarrow> 'p attempt \<times> 'q writer_state" where
  "dispatch_call x request s =
     (let T = we_transport x; s1 = log_event (Dispatched request) s
      in case wt_dispatch T (ws_tick s) request of
           (sent, Inl e) \<Rightarrow> (\<lparr>at_called = True, at_dispatched = True, at_response = None, at_failure = Some (Thrown e)\<rparr>, put_sent sent s1)
         | (sent, Inr _) \<Rightarrow>
             (let (observed, s2) = (if hooks x \<noteq> None then report x (put_sent sent s1) else (Inr (), put_sent sent s1));
                  failure = (case observed of Inl f \<Rightarrow> Some f | Inr _ \<Rightarrow> None)
              in case wt_result T (ws_tick s2) request of
                   (sent', Inl e) \<Rightarrow> (\<lparr>at_called = True, at_dispatched = True, at_response = None, at_failure = Some (Thrown e)\<rparr>,
                       put_sent sent' (tick s2))
                 | (sent', Inr rs) \<Rightarrow> (\<lparr>at_called = True, at_dispatched = True, at_response = Some rs, at_failure = failure\<rparr>,
                       receive x rs (put_sent sent' (tick s2)))))"

definition send_call :: "('q, 'p) writer_env \<Rightarrow> 'q \<Rightarrow> call_phase \<Rightarrow> writer_reasoning
    \<Rightarrow> 'q writer_state \<Rightarrow> 'p attempt \<times> 'q writer_state" where
  "send_call x request callPhase effort s = (case throwIfAborted x s of
       (Inl f, s1) \<Rightarrow> (\<lparr>at_called = False, at_dispatched = False, at_response = None, at_failure = Some f\<rparr>, s1)
     | (Inr _, s1) \<Rightarrow>
         (let s2 = s1\<lparr>ws_calls := ws_calls s1 + 1, ws_details := ws_details s1 @ [fresh_detail callPhase effort]\<rparr>
          in case (if hooks x = None then report x s2 else (Inr (), s2)) of
               (Inl f, s3) \<Rightarrow> (\<lparr>at_called = True, at_dispatched = False, at_response = None, at_failure = Some f\<rparr>, s3)
             | (Inr _, s3) \<Rightarrow> dispatch_call x request s3))"

definition outcome_of :: "bool \<Rightarrow> 'p writer_response option \<Rightarrow> call_outcome" where
  "outcome_of aborted response = (case response of
       None \<Rightarrow> if aborted then CallCancelled else CallFailed
     | Some rs \<Rightarrow> if aborted \<or> rs_stopReason rs = js ''aborted'' then CallCancelled
                  else if rs_stopReason rs = js ''stop'' \<and> \<not> calls_tool rs then CallSuccess else CallFailed)"

definition settlement :: "nat \<Rightarrow> jstring \<Rightarrow> call_phase \<Rightarrow> int \<Rightarrow> bool \<Rightarrow> 'p attempt \<Rightarrow> dispatch_result" where
  "settlement callIndex callId callPhase elapsedMs aborted att =
     (let reported = Option.bind (at_response att) reportedUsage
      in \<lparr>ds_callIndex = callIndex, ds_callId = callId, ds_phase = callPhase, ds_dispatched = at_dispatched att,
          ds_outcome = outcome_of aborted (at_response att), ds_elapsedMs = elapsedMs, ds_usage = reported,
          ds_usageComplete = Some (reported \<noteq> None \<and> (case at_response att of None \<Rightarrow> True | Some rs \<Rightarrow>
             rs_stopReason rs \<noteq> js ''error'' \<and> rs_stopReason rs \<noteq> js ''aborted''))\<rparr>)"

fun failure_message :: "writer_failure \<Rightarrow> jstring" where
  "failure_message (Thrown e) = err_message e"
| "failure_message (SchemaRefusal e d) = err_message e"
| "failure_message (QuotationRefusal e n d) = err_message e"
| "failure_message (Aggregate f e m) = m"

definition failed_error :: "jstring \<Rightarrow> writer_failure" where
  "failed_error m = Thrown (Err CONTEXT_WRITER_FAILED m)"

text \<open>The failure a call had before its settlement failed; the reason of the signal is set once it has fired.\<close>

definition original_failure ::
    "('q, 'p) writer_env \<Rightarrow> 'p attempt \<Rightarrow> call_outcome \<Rightarrow> 'q writer_state \<Rightarrow> writer_failure option \<times> 'q writer_state" where
  "original_failure x att outcome s = (case at_failure att of
       Some f \<Rightarrow> (Some f, s)
     | None \<Rightarrow>
         if outcome = CallCancelled then
           (let (fired, s') = polled x s
            in (Some (if fired then Thrown (ww_reason (we_world x)) else failed_error (js ''CONTEXT_WRITER_FAILED: aborted'')), s'))
         else case at_response att of
             Some rs \<Rightarrow> (if outcome = CallFailed then Some (failed_error (failed_message rs)) else None, s)
           | None \<Rightarrow> (None, s))"

definition settle_call :: "('q, 'p) writer_env \<Rightarrow> nat \<Rightarrow> jstring option \<Rightarrow> call_phase \<Rightarrow> int \<Rightarrow> 'p attempt
    \<Rightarrow> 'q writer_state \<Rightarrow> writer_failure option \<times> 'q writer_state" where
  "settle_call x callIndex callId callPhase elapsedMs att s = (case (hooks x, callId) of
       (Some hk, Some i) \<Rightarrow>
         (let (aborted, s1) = polled x s;
              result = settlement callIndex i callPhase elapsedMs aborted att;
              s2 = log_event (Settled result) s1
          in case wh_afterDispatch hk (ws_tick s1) result of
               Inr _ \<Rightarrow> (at_failure att, s2)
             | Inl e \<Rightarrow> (case original_failure x att (ds_outcome result) s2 of
                   (Some f, s3) \<Rightarrow> (Some (Aggregate f e (failure_message f @ js ''; CONTEXT_WRITER_ACCOUNTING: call settlement failed'')), s3)
                 | (None, s3) \<Rightarrow> (Some (Thrown e), s3)))
     | _ \<Rightarrow> (at_failure att, s))"

text \<open>
  The call from its reservation on. A call that did not fail has a response: the last branch is not
  reached.
\<close>

definition reserved_call :: "('q, 'p) writer_env \<Rightarrow> 'q \<Rightarrow> writer_reasoning \<Rightarrow> nat \<Rightarrow> call_phase \<Rightarrow> jstring option
    \<Rightarrow> ('q, 'p writer_response) act" where
  "reserved_call x request effort callIndex callPhase callId s =
     (let (started, s1) = now x s;
          (att, s2) = send_call x request callPhase effort s1;
          (ended, s3) = now x s2;
          elapsedMs = \<lfloor>ended - started + 1 / 2\<rfloor>;
          s4 = (if at_called att then put_detail (\<lambda>d. d\<lparr>wc_ms := Some elapsedMs\<rparr>) s3 else s3);
          (failure, s5) = settle_call x callIndex callId callPhase elapsedMs att s4;
          (observed, s6) = report x s5
      in case (failure, observed, at_response att) of
           (Some f, _, _) \<Rightarrow> (Inl f, s6)
         | (None, Inl f, _) \<Rightarrow> (Inl f, s6)
         | (None, Inr _, Some rs) \<Rightarrow> (Inr rs, s6)
         | (None, Inr _, None) \<Rightarrow> (Inl (Thrown (Err TypeErr (js ''response is undefined''))), s6))"

definition complete :: "('q, 'p) writer_env \<Rightarrow> 'q \<Rightarrow> writer_reasoning \<Rightarrow> ('q, 'p writer_response) act" where
  "complete x request effort = bind_act (throwIfAborted x) (\<lambda>_ s.
     bind_act (reserve x (ws_calls s + 1) (ws_phase s) effort)
       (reserved_call x request effort (ws_calls s + 1) (ws_phase s)) s)"

section \<open>Candidates\<close>

definition validateCandidate :: "('q, 'p) writer_env \<Rightarrow> jsval \<Rightarrow> bool \<Rightarrow> ('q, memory_note) act" where
  "validateCandidate x v repaired =
     (let h = we_host x; branch = wo_branch (we_options x) in
      case validateNoteContent h v branch of
        Inr n \<Rightarrow> ret n
      | Inl e \<Rightarrow>
          if err_code e = CONTEXT_NOTE_INVALID then
            (let diagnosis = diagnoseSchema h v; counts = schemaCounts diagnosis
             in then_act (update (\<lambda>s. s\<lparr>ws_schema := Some (case ws_schema s of None \<Rightarrow> counts | Some c \<Rightarrow> c)\<rparr>))
                 (then_act (report x)
                   (raise (SchemaRefusal (Err CONTEXT_NOTE_INVALID (schemaFailureMessage counts)) diagnosis))))
          else if err_code e = CONTEXT_NOTE_SCOPE then
            then_act (update (\<lambda>s. s\<lparr>ws_scope := Some (case ws_scope s of None \<Rightarrow> diagnoseScope v branch | Some c \<Rightarrow> c)\<rparr>))
              (then_act (report x) (raise (Thrown e)))
          else if err_code e \<noteq> CONTEXT_NOTE_QUOTE then raise (Thrown e)
          else
            (let diagnosis = diagnoseQuotes h v branch; counts = quoteCounts (qd_failures diagnosis)
             in then_act (update (\<lambda>s. s\<lparr>ws_quotations := Some (case ws_quotations s of None \<Rightarrow> counts | Some c \<Rightarrow> c)\<rparr>))
                 (then_act (report x)
                   (raise (QuotationRefusal (Err CONTEXT_NOTE_QUOTE (quoteFailureMessage counts repaired)) v diagnosis)))))"

definition parseCandidate :: "('q, 'p) writer_env \<Rightarrow> 'p writer_response \<Rightarrow> bool \<Rightarrow> ('q, jsval) act" where
  "parseCandidate x response is_note =
     then_act (throwIfAborted x)
       (bind_act (lift_res (parseNote (we_host x) response)) (\<lambda>parsed.
         (let (v, envelope) = (if is_note then removeNoteEnvelope parsed else (parsed, None))
          in then_act (update (put_detail (\<lambda>d. (case envelope of None \<Rightarrow> d | Some e \<Rightarrow> d\<lparr>wd_envelope := Some e\<rparr>)
                 \<lparr>wc_noteBytes := Some (byte_length (stringify v))\<rparr>)))
              (then_act (report x) (ret v)))))"

definition has_next_step :: "memory_note \<Rightarrow> bool" where
  "has_next_step n \<longleftrightarrow> list_ex (\<lambda>f. trim (f_text f) \<noteq> []) (items n NextSteps)"

definition continuation_missing :: writer_failure where
  "continuation_missing = Thrown (Err CONTEXT_CONTINUATION_MISSING
     (js ''CONTEXT_CONTINUATION_MISSING: an unfinished turn requires an explicit next step or final reporting step''))"

definition checkCandidate :: "('q, 'p) writer_env \<Rightarrow> jsval \<Rightarrow> bool \<Rightarrow> ('q, memory_note) act" where
  "checkCandidate x v repaired = bind_act (validateCandidate x v repaired) (\<lambda>valid.
     (let n = oneLineNote valid
      in if active_requests (we_options x) \<noteq> [] \<and> \<not> has_next_step n then raise continuation_missing else ret n))"

definition readCandidate :: "('q, 'p) writer_env \<Rightarrow> 'p writer_response \<Rightarrow> ('q, memory_note) act" where
  "readCandidate x response = bind_act (parseCandidate x response True) (\<lambda>v. checkCandidate x v False)"

section \<open>The one repair\<close>

definition output_tokens :: "('q, 'p) writer_env \<Rightarrow> int" where
  "output_tokens x = outputBudget (wt_maxOutputTokens (we_transport x)) (note_limit (we_options x))"

definition repair_fits :: "('q, 'p) writer_env \<Rightarrow> jstring \<Rightarrow> jstring \<Rightarrow> bool" where
  "repair_fits x system prompt \<longleftrightarrow>
     int (textTokens system) + int (textTokens prompt) + output_tokens x \<le> min (wt_contextWindow (we_transport x)) 64000"

definition begin_repair :: "repair_kind \<Rightarrow> 'q writer_state \<Rightarrow> 'q writer_state" where
  "begin_repair kind s = s\<lparr>ws_repairUsed := True, ws_repairKind := Some kind, ws_phase := Repair\<rparr>"

definition requestRepair :: "('q, 'p) writer_env \<Rightarrow> repair_kind \<Rightarrow> jstring \<Rightarrow> jstring \<Rightarrow> writer_failure \<Rightarrow> ('q, jsval) act" where
  "requestRepair x kind rules prompt refusal =
     (if \<not> repair_fits x rules prompt then raise refusal
      else then_act (throwIfAborted x) (then_act (update (begin_repair kind))
        (finally_generate
          (bind_act (complete x (wt_request (we_transport x) (RepairRequest rules prompt None (output_tokens x))) None)
            (\<lambda>response. parseCandidate x response False)))))"

definition repairQuotations :: "('q, 'p) writer_env \<Rightarrow> err \<Rightarrow> memory_note \<Rightarrow> quote_diagnosis \<Rightarrow> ('q, memory_note) act" where
  "repairQuotations x e n diagnosis s =
     (let h = we_host x; opts = we_options x; refusal = QuotationRefusal e n diagnosis in
      if \<not> wo_noteRepair opts \<or> ws_repairUsed s \<or> \<not> quoteRepairEligible diagnosis then raise refusal s
      else bind_act (requestRepair x QuotationRepair (QUOTE_REPAIR_RULES (we_doc x))
             (quoteRepairPrompt h n (qd_failures diagnosis) (wo_branch opts)) refusal) (\<lambda>v.
           bind_act (lift_res (applyQuoteRepair h n (qd_failures diagnosis) v)) (\<lambda>(repaired, outcome).
             then_act (update (\<lambda>s. s\<lparr>ws_quotationRepair := Some outcome\<rparr>))
               (then_act (report x) (checkCandidate x repaired True)))) s)"

definition repairSources :: "('q, 'p) writer_env \<Rightarrow> err \<Rightarrow> schema_diagnosis \<Rightarrow> ('q, memory_note) act" where
  "repairSources x e diagnosis s =
     (let h = we_host x; opts = we_options x; refusal = SchemaRefusal e diagnosis in
      case sd_pending diagnosis of
        None \<Rightarrow> raise refusal s
      | Some n \<Rightarrow>
          if \<not> wo_noteRepair opts \<or> ws_repairUsed s \<or> \<not> sourcesRepairEligible diagnosis then raise refusal s
          else bind_act (requestRepair x SourcesRepair (SOURCES_REPAIR_RULES (we_doc x))
                 (sourcesRepairPrompt n (sd_uncited diagnosis) (citableEvidence n opts)) refusal) (\<lambda>v.
               bind_act (lift_res (applySourcesRepair h n (sd_uncited diagnosis) v)) (\<lambda>repaired.
                 checkCandidate x repaired False)) s)"

definition declineToolCall ::
    "('q, 'p) writer_env \<Rightarrow> 'q \<Rightarrow> writer_reasoning \<Rightarrow> 'p writer_response \<Rightarrow> ('q, 'p writer_response) act" where
  "declineToolCall x request effort response s =
     (if \<not> calls_tool response \<or> rs_stopReason response \<noteq> js ''toolUse'' \<or> \<not> wo_noteRepair (we_options x) \<or> ws_toolDeclined s
      then ret response s
      else then_act (throwIfAborted x) (then_act (update (\<lambda>s. s\<lparr>ws_toolDeclined := True\<rparr>))
        (complete x (wt_declineToolCalls (we_transport x) request response) effort)) s)"

definition budget_error :: "nat \<Rightarrow> int \<Rightarrow> writer_failure" where
  "budget_error bytes limit = Thrown (Err CONTEXT_NOTE_BUDGET (budget_message bytes limit))"

text \<open>The size repair of an accepted candidate that is too long.\<close>

definition shortenCandidate :: "('q, 'p) writer_env \<Rightarrow> memory_note \<Rightarrow> ('q, memory_note) act" where
  "shortenCandidate x candidate s =
     (let opts = we_options x; T = we_transport x; system = shorten_system (we_doc x) opts; prompt = shorten_prompt opts candidate in
      if \<not> wo_noteRepair opts \<or> ws_repairUsed s then raise (budget_error (noteBytes candidate) (note_limit opts)) s
      else if \<not> repair_fits x system prompt then raise (Thrown (Err CONTEXT_WRITER_CAPACITY
        (js ''CONTEXT_WRITER_CAPACITY: size-repair request cannot fit its bounded window; no checkpoint committed''))) s
      else then_act (throwIfAborted x) (then_act (update (begin_repair SizeRepair))
        (finally_generate
          (bind_act (complete x (wt_request T (RepairRequest system prompt (wt_effort T) (output_tokens x))) (wt_effort T)) (\<lambda>response.
           bind_act (readCandidate x response) (\<lambda>repaired.
           bind_act (lift_res (validateNote (we_host x) repaired (wo_branch opts) (note_limit opts))) (\<lambda>_.
           then_act (lift_res (assertRepairPreserved candidate repaired)) (ret repaired))))))) s)"

text \<open>The \<open>catch\<close> of \<open>accept\<close>: a refusal that carries its candidate goes to its repair.\<close>

fun repair_refusal :: "('q, 'p) writer_env \<Rightarrow> writer_failure \<Rightarrow> ('q, memory_note) act" where
  "repair_refusal x (SchemaRefusal e d) = repairSources x e d"
| "repair_refusal x (QuotationRefusal e n d) = repairQuotations x e n d"
| "repair_refusal x f = raise f"

definition accept :: "('q, 'p) writer_env \<Rightarrow> 'p writer_response \<Rightarrow> ('q, memory_note) act" where
  "accept x response =
     bind_act (parseCandidate x response True) (\<lambda>v.
       bind_act (recover (checkCandidate x v False) (repair_refusal x)) (\<lambda>candidate.
         if int (noteBytes candidate) \<le> note_limit (we_options x) * 3 then ret candidate else shortenCandidate x candidate))"

section \<open>The two writers\<close>

fun fixed_loop :: "('q, 'p) writer_env \<Rightarrow> jstring \<Rightarrow> int \<Rightarrow> source_part list list \<Rightarrow> memory_note option \<Rightarrow> nat
    \<Rightarrow> ('q, memory_note option \<times> nat) act" where
  "fixed_loop x system maxTokens [] n chunkCount = ret (n, chunkCount)"
| "fixed_loop x system maxTokens (chunk # chunks) n chunkCount =
     then_act (throwIfAborted x)
       (let prompt = chunk_prompt (we_options x) n chunkCount chunk; T = we_transport x in
        if int (textTokens prompt) + int (textTokens system) + maxTokens > wt_contextWindow T
        then raise (Thrown (Err CONTEXT_WRITER_CAPACITY
          (js ''CONTEXT_WRITER_CAPACITY: chunk request exceeds the fixed writer's context window'')))
        else bind_act (complete x (wt_request T (ChunkRequest system prompt (wt_effort T) maxTokens)) (wt_effort T)) (\<lambda>response.
          then_act (throwIfAborted x)
            (bind_act (accept x response) (\<lambda>n'. fixed_loop x system maxTokens chunks (Some n') (chunkCount + 1)))))"

definition no_new_source :: writer_failure where
  "no_new_source = Thrown (Err CONTEXT_NO_NEW_SOURCE
     (js ''CONTEXT_NO_NEW_SOURCE: no original evidence available for this checkpoint''))"

definition chunk_budget :: "('q, 'p) writer_env \<Rightarrow> int" where
  "chunk_budget x = min 24000 (wt_contextWindow (we_transport x) - output_tokens x
     - int (textTokens (fixed_system (we_doc x) (we_options x))) - note_limit (we_options x) * 3 - 2000)"

definition writeWithFixedWriter :: "('q, 'p) writer_env \<Rightarrow> ('q, memory_note \<times> nat) act" where
  "writeWithFixedWriter x =
     (let opts = we_options x; system = fixed_system (we_doc x) opts in
      if chunk_budget x < 2048 then raise (Thrown (Err CONTEXT_WRITER_CAPACITY
        (js ''CONTEXT_WRITER_CAPACITY: fixed writer cannot fit the required evidence and note'')))
      else bind_act (fixed_loop x system (output_tokens x) (sourceChunks (wo_uncovered opts) (chunk_budget x)) (wo_previous opts) 0)
        (\<lambda>(n, chunkCount). case n of
            Some v \<Rightarrow> if chunkCount = 0 then raise no_new_source else ret (v, chunkCount)
          | None \<Rightarrow> raise no_new_source))"

text \<open>The handover instructions tried, from the richest to the barest.\<close>

definition handovers :: "('q, 'p) writer_env \<Rightarrow> session_record list \<Rightarrow> jstring list" where
  "handovers x sources =
     (let opts = we_options x; quotable = quotableOriginals sources (active_requests opts) (note_limit opts)
      in map (\<lambda>(block, head). handoverInstruction (we_doc x) opts sources head block) [(quotable, 80), ([], 80), ([], 40), ([], 0)])"

definition writeWithSession :: "('q, 'p) writer_env \<Rightarrow> ('q, memory_note \<times> nat) act" where
  "writeWithSession x =
     (let opts = we_options x; T = we_transport x; sources = filter (\<lambda>r. 0 < length (sourceText r)) (wo_uncovered opts) in
      case wt_prefixTokens T of
        None \<Rightarrow> raise (Thrown (Err CONTEXT_WRITER_UNAVAILABLE
          (js ''CONTEXT_WRITER_UNAVAILABLE: the session writer needs the current provider context'')))
      | Some prefixTokens \<Rightarrow>
          if sources = [] then raise no_new_source
          else case find (\<lambda>t. prefixTokens + output_tokens x + int (textTokens t) \<le> wt_contextWindow T) (handovers x sources) of
              None \<Rightarrow> raise (Thrown (Err CONTEXT_WRITER_CAPACITY
                (js ''CONTEXT_WRITER_CAPACITY: the session context leaves no room for the handover request'')))
            | Some instruction \<Rightarrow>
                then_act (throwIfAborted x)
                  (let request = wt_request T (HandoverRequest instruction (wt_effort T) (output_tokens x)) in
                   bind_act (complete x request (wt_effort T)) (\<lambda>first_response.
                   bind_act (declineToolCall x request (wt_effort T) first_response) (\<lambda>response.
                   then_act (throwIfAborted x)
                     (bind_act (accept x response) (\<lambda>n. ret (n, 1)))))))"

section \<open>The whole operation\<close>

definition budget_count :: "jsnum \<Rightarrow> bool" where
  "budget_count n \<longleftrightarrow> (case n of JInt i \<Rightarrow> \<bar>i\<bar> \<le> max_safe_integer \<and> 500 \<le> i | _ \<Rightarrow> False)"

definition frozen_options :: "writer_options \<Rightarrow> writer_options" where
  "frozen_options opts =
     (let hardTokens = min (note_limit opts) MAX_NOTE_TOKENS;
          baseTokens = (case wo_baseNoteTokens opts of None \<Rightarrow> hardTokens | Some n \<Rightarrow> token_count n)
      in opts\<lparr>wo_noteTokens := JInt hardTokens, wo_baseNoteTokens := Some (JInt (min baseTokens hardTokens))\<rparr>)"

definition finish_note :: "('q, 'p) writer_env \<Rightarrow> memory_note \<times> nat \<Rightarrow> ('q, write_result) act" where
  "finish_note x result s = (case result of (n, chunkCount) \<Rightarrow>
     if active_requests (we_options x) \<noteq> [] \<and> \<not> has_next_step n then raise continuation_missing s
     else ret \<lparr>wm_note = n, wm_usage = sumMemoryUsage (ws_usages s), wm_chunkCount = chunkCount,
       wm_writerModel = wt_model (we_transport x), wm_writerEffort = wt_effort (we_transport x)\<rparr> s)"

definition run_writer :: "('q, 'p) writer_env \<Rightarrow> ('q, write_result) act" where
  "run_writer x = bind_act (if wt_session (we_transport x) then writeWithSession x else writeWithFixedWriter x) (finish_note x)"

definition writeMemory :: "host \<Rightarrow> (schema \<Rightarrow> jsval) \<Rightarrow> writer_world \<Rightarrow> writer_options
    \<Rightarrow> ('q, 'p) writer_transport res \<Rightarrow> (writer_failure + write_result) \<times> 'q writer_state" where
  "writeMemory h doc W opts opened =
     (if \<not> budget_count (wo_noteTokens opts) \<or> (case wo_baseNoteTokens opts of None \<Rightarrow> False | Some n \<Rightarrow> \<not> budget_count n)
      then raise (Thrown (Err CONTEXT_CONFIG (js ''CONTEXT_CONFIG: writer note budgets must be integer counts >= 500''))) first_state
      else case opened of
          Inl e \<Rightarrow> raise (Thrown e) first_state
        | Inr T \<Rightarrow> run_writer \<lparr>we_host = h, we_doc = doc, we_world = W, we_transport = T, we_options = frozen_options opts\<rparr> first_state)"

end
