(* ===== verification/Writer_Ledger.thy ===== *)
theory Writer_Ledger
  imports Writer
begin

text \<open>
  The accounting of the writer as an abstract machine. A \<open>ledger\<close> is what the accounting sees of the
  state; \<open>call_effect\<close> says what one provider call may do to it and \<open>ledger_step\<close> what the writer
  may do between calls. \<open>refines\<close> is the simulation: every operation of the writer, whatever the host
  answers and whether it throws, is a sequence of ledger steps. The invariants are proved of the
  machine by rule induction and carried over.
\<close>

section \<open>The ledger\<close>

record 'q ledger =
  lg_calls :: nat
  lg_usages :: "writer_usage list"
  lg_repaired :: bool
  lg_declined :: bool
  lg_phase :: call_phase
  lg_events :: "'q writer_event list"

fun call_event :: "'q writer_event \<Rightarrow> bool" where
  "call_event (Reported p) = False"
| "call_event _ = True"

definition ledger_of :: "'q writer_state \<Rightarrow> 'q ledger" where
  "ledger_of s = \<lparr>lg_calls = ws_calls s, lg_usages = ws_usages s, lg_repaired = ws_repairUsed s,
     lg_declined = ws_toolDeclined s, lg_phase = ws_phase s, lg_events = filter call_event (ws_trace s)\<rparr>"

definition option_list :: "'a option \<Rightarrow> 'a list" where
  "option_list v = (case v of None \<Rightarrow> [] | Some a \<Rightarrow> [a])"

lemma option_list_simps [simp]: "option_list None = []" "option_list (Some a) = [a]"
  by (simp_all add: option_list_def)

text \<open>A settlement closes the reservation it names.\<close>

definition closes :: "dispatch_request \<Rightarrow> jstring \<Rightarrow> dispatch_result \<Rightarrow> bool" where
  "closes req i r \<longleftrightarrow> i \<noteq> [] \<and> ds_callId r = i \<and> ds_callIndex r = dr_callIndex req \<and> ds_phase r = dr_phase req"

text \<open>
  One call: refused before anything was recorded; reserved but cancelled before its dispatch; sent and
  settled with the usage it reported. Without hooks there is nothing to reserve or settle.
\<close>

inductive call_effect :: "bool \<Rightarrow> 'q ledger \<Rightarrow> 'q ledger \<Rightarrow> bool" where
  refused: "call_effect hooked L L"
| unsent: "dr_callIndex req = Suc (lg_calls L) \<Longrightarrow> dr_phase req = lg_phase L \<Longrightarrow> closes req i r \<Longrightarrow> \<not> ds_dispatched r \<Longrightarrow>
    ds_usage r = None \<Longrightarrow> call_effect True L (L\<lparr>lg_events := lg_events L @ [Reserved req i, Settled r]\<rparr>)"
| sent: "dr_callIndex req = Suc (lg_calls L) \<Longrightarrow> dr_phase req = lg_phase L \<Longrightarrow> closes req i r \<Longrightarrow> ds_dispatched r \<Longrightarrow>
    call_effect True L (L\<lparr>lg_calls := Suc (lg_calls L), lg_usages := lg_usages L @ option_list (ds_usage r),
      lg_events := lg_events L @ [Reserved req i, Dispatched q, Settled r]\<rparr>)"
| unobserved: "call_effect False L (L\<lparr>lg_calls := Suc (lg_calls L)\<rparr>)"
| unhooked: "call_effect False L (L\<lparr>lg_calls := Suc (lg_calls L), lg_usages := lg_usages L @ us,
      lg_events := lg_events L @ [Dispatched q]\<rparr>)"

datatype move = Generation | Declined | Repaired

inductive ledger_step :: "bool \<Rightarrow> move \<Rightarrow> 'q ledger \<Rightarrow> 'q ledger \<Rightarrow> bool" for hooked where
  generation: "call_effect hooked L M \<Longrightarrow> ledger_step hooked Generation L M"
| declined: "\<not> lg_declined L \<Longrightarrow> call_effect hooked (L\<lparr>lg_declined := True\<rparr>) M \<Longrightarrow> ledger_step hooked Declined L M"
| repaired: "\<not> lg_repaired L \<Longrightarrow> call_effect hooked (L\<lparr>lg_repaired := True, lg_phase := Repair\<rparr>) M \<Longrightarrow>
    ledger_step hooked Repaired L (M\<lparr>lg_phase := Generate\<rparr>)"

inductive ledger_run :: "bool \<Rightarrow> 'q ledger \<Rightarrow> move list \<Rightarrow> 'q ledger \<Rightarrow> bool" for hooked where
  stay: "ledger_run hooked L [] L"
| more_steps: "ledger_step hooked k L M \<Longrightarrow> ledger_run hooked M ks N \<Longrightarrow> ledger_run hooked L (k # ks) N"

inductive_cases call_effectE: "call_effect hooked L M"
inductive_cases ledger_stepE: "ledger_step hooked k L M"

lemma ledger_run_append: "ledger_run hooked L ks M \<Longrightarrow> ledger_run hooked M ls N \<Longrightarrow> ledger_run hooked L (ks @ ls) N"
  by (induction rule: ledger_run.induct) (auto intro: more_steps)

lemma ledger_run_one: "ledger_step hooked k L M \<Longrightarrow> ledger_run hooked L [k] M"
  by (blast intro: more_steps stay)

section \<open>Steps that the ledger does not see\<close>

lemma ledger_of_quiet [simp]:
  "ledger_of (tick s) = ledger_of s"
  "ledger_of (log_event (Reported p) s) = ledger_of s"
  "ledger_of (put_detail f s) = ledger_of s"
  "ledger_of (s\<lparr>ws_details := ds\<rparr>) = ledger_of s"
  "ledger_of (s\<lparr>ws_schema := a\<rparr>) = ledger_of s"
  "ledger_of (s\<lparr>ws_scope := b\<rparr>) = ledger_of s"
  "ledger_of (s\<lparr>ws_quotations := c\<rparr>) = ledger_of s"
  "ledger_of (s\<lparr>ws_quotationRepair := d\<rparr>) = ledger_of s"
  "ledger_of (s\<lparr>ws_toolResponses := n\<rparr>) = ledger_of s"
  by (simp_all add: ledger_of_def tick_def log_event_def put_detail_def)

lemma ledger_of_put_sent [simp]: "ledger_of (put_sent sent s) = ledger_of s"
  by (cases sent) (simp_all add: put_sent_def)

lemma ledger_of_event: "call_event ev \<Longrightarrow> ledger_of (log_event ev s) = (ledger_of s)\<lparr>lg_events := lg_events (ledger_of s) @ [ev]\<rparr>"
  by (simp add: ledger_of_def log_event_def)

lemma ledger_of_receive [simp]:
  "ledger_of (receive x rs s) = (ledger_of s)\<lparr>lg_usages := lg_usages (ledger_of s) @ option_list (reportedUsage rs)\<rparr>"
  by (simp add: receive_def Let_def ledger_of_def put_detail_def split: option.split)

lemma ledger_of_report [simp]: "ledger_of (snd (report x s)) = ledger_of s"
  by (auto simp: report_def lift_res_def split: option.splits sum.splits)

lemma ledger_of_throwIfAborted [simp]: "ledger_of (snd (throwIfAborted x s)) = ledger_of s"
  by (simp add: throwIfAborted_def)

lemma ledger_of_now [simp]: "ledger_of (snd (now x s)) = ledger_of s"
  by (simp add: now_def)

lemma ledger_of_polled [simp]: "ledger_of (snd (polled x s)) = ledger_of s"
  by (simp add: polled_def)

lemma ledger_of_original_failure [simp]: "ledger_of (snd (original_failure x att outcome s)) = ledger_of s"
  by (simp add: original_failure_def case_prod_unfold Let_def split: option.split)

section \<open>One call\<close>

text \<open>What the ledger sees of an attempt: nothing before it is counted, then the call, the dispatch and the usage.\<close>

definition attempted :: "'q \<Rightarrow> 'p attempt \<Rightarrow> 'q ledger \<Rightarrow> 'q ledger" where
  "attempted q att L = (let us = option_list (Option.bind (at_response att) reportedUsage) in
     if at_dispatched att then L\<lparr>lg_calls := lg_calls L + 1, lg_usages := lg_usages L @ us, lg_events := lg_events L @ [Dispatched q]\<rparr>
     else if at_called att then L\<lparr>lg_calls := lg_calls L + 1\<rparr> else L)"

lemma ledger_of_dispatch_call:
  assumes "dispatch_call x q s = (att, s')"
  shows "ledger_of s' = (ledger_of s)\<lparr>lg_usages := lg_usages (ledger_of s) @ option_list (Option.bind (at_response att) reportedUsage),
      lg_events := lg_events (ledger_of s) @ [Dispatched q]\<rparr>"
    "at_dispatched att" "at_called att"
proof -
  have observed: "ledger_of (snd (if hooks x \<noteq> None then report x s else (Inr (), s))) = ledger_of s" for s :: "'b writer_state"
    by simp
  show "ledger_of s' = (ledger_of s)\<lparr>lg_usages := lg_usages (ledger_of s) @ option_list (Option.bind (at_response att) reportedUsage),
      lg_events := lg_events (ledger_of s) @ [Dispatched q]\<rparr>" "at_dispatched att" "at_called att"
    using assms by (auto simp: dispatch_call_def Let_def case_prod_unfold ledger_of_event
        simp del: split_beta split: prod.splits sum.splits if_splits)
qed

lemma ledger_of_send_call:
  assumes "send_call x q callPhase effort s = (att, s')"
  shows "ledger_of s' = attempted q att (ledger_of s)"
    "at_dispatched att \<or> at_response att = None" "at_dispatched att \<longrightarrow> at_called att"
    "hooks x \<noteq> None \<and> at_called att \<longrightarrow> at_dispatched att"
proof -
  obtain r s1 where a: "throwIfAborted x s = (r, s1)" by (cases "throwIfAborted x s")
  have s1: "ledger_of s1 = ledger_of s" using ledger_of_throwIfAborted[of x s] by (simp add: a)
  let ?s2 = "s1\<lparr>ws_calls := ws_calls s1 + 1, ws_details := ws_details s1 @ [fresh_detail callPhase effort]\<rparr>"
  obtain o' s3 where b: "(if hooks x = None then report x ?s2 else (Inr (), ?s2)) = (o', s3)" by (metis surj_pair)
  have "ledger_of s3 = ledger_of ?s2" using arg_cong[OF b, of "\<lambda>p. ledger_of (snd p)"] by (simp split: if_splits)
  also have "\<dots> = (ledger_of s)\<lparr>lg_calls := lg_calls (ledger_of s) + 1\<rparr>" using s1 by (simp add: ledger_of_def)
  finally have s3: "ledger_of s3 = (ledger_of s)\<lparr>lg_calls := lg_calls (ledger_of s) + 1\<rparr>" .
  have hooked: "o' = Inr ()" if "hooks x \<noteq> None" using b that by auto
  have "ledger_of s' = attempted q att (ledger_of s) \<and> (at_dispatched att \<or> at_response att = None) \<and>
    (at_dispatched att \<longrightarrow> at_called att) \<and> (hooks x \<noteq> None \<and> at_called att \<longrightarrow> at_dispatched att)"
  proof (cases r)
    case (Inl f)
    then show ?thesis using assms s1 by (auto simp: send_call_def a attempted_def Let_def)
  next
    case (Inr u)
    show ?thesis
    proof (cases o')
      case (Inl f)
      then show ?thesis using assms s3 Inr b hooked
        by (auto simp: send_call_def a attempted_def Let_def split: if_splits)
    next
      case (Inr v)
      with \<open>r = Inr u\<close> have d: "dispatch_call x q s3 = (att, s')"
        using assms b by (auto simp: send_call_def a Let_def split: if_splits)
      show ?thesis using ledger_of_dispatch_call[OF d] s3 by (simp add: attempted_def Let_def)
    qed
  qed
  then show "ledger_of s' = attempted q att (ledger_of s)"
    "at_dispatched att \<or> at_response att = None" "at_dispatched att \<longrightarrow> at_called att"
    "hooks x \<noteq> None \<and> at_called att \<longrightarrow> at_dispatched att" by simp_all
qed

lemma ledger_of_reserve:
  assumes "reserve x callIndex callPhase effort s = (r, s')"
  shows "case r of Inl f \<Rightarrow> ledger_of s' = ledger_of s
    | Inr None \<Rightarrow> hooks x = None \<and> ledger_of s' = ledger_of s
    | Inr (Some i) \<Rightarrow> hooks x \<noteq> None \<and> i \<noteq> [] \<and> (\<exists>req. dr_callIndex req = callIndex \<and> dr_phase req = callPhase \<and>
        ledger_of s' = (ledger_of s)\<lparr>lg_events := lg_events (ledger_of s) @ [Reserved req i]\<rparr>)"
proof (cases "hooks x")
  case (Some hk)
  let ?req = "\<lparr>dr_callIndex = callIndex, dr_phase = callPhase, dr_model = wt_model (we_transport x), dr_writerEffort = effort\<rparr>"
  show ?thesis
  proof (cases "\<exists>u i. wh_beforeDispatch hk (ws_tick s) ?req = Inr (JStr (u # i))")
    case True
    then show ?thesis using assms Some by (auto simp: reserve_def Let_def ledger_of_event intro!: exI[of _ ?req])
  next
    case False
    then have "r \<in> range Inl \<and> s' = tick s" using assms Some
      by (auto simp: reserve_def Let_def split: sum.splits jsval.splits list.splits)
    then show ?thesis by auto
  qed
qed (use assms in \<open>auto simp: reserve_def\<close>)

lemma ledger_of_settle_call:
  assumes "settle_call x callIndex callId callPhase elapsedMs att s = (f, s')"
  shows "(hooks x = None \<or> callId = None \<longrightarrow> ledger_of s' = ledger_of s) \<and>
    (\<forall>i. hooks x \<noteq> None \<and> callId = Some i \<longrightarrow> (\<exists>r aborted. r = settlement callIndex i callPhase elapsedMs aborted att \<and>
      ledger_of s' = (ledger_of s)\<lparr>lg_events := lg_events (ledger_of s) @ [Settled r]\<rparr>))"
proof (cases "(hooks x, callId)" rule: prod.exhaust)
  case (Pair a b)
  show ?thesis
  proof (cases "\<exists>hk i. a = Some hk \<and> b = Some i")
    case True
    then obtain hk i where [simp]: "hooks x = Some hk" "callId = Some i" using Pair by auto
    define aborted where "aborted = fst (polled x s)"
    define s1 where "s1 = snd (polled x s)"
    define res where "res = settlement callIndex i callPhase elapsedMs aborted att"
    have "ledger_of s' = ledger_of (log_event (Settled res) s1)"
      using assms ledger_of_original_failure[of x att "ds_outcome res" "log_event (Settled res) s1"]
      by (auto simp: settle_call_def Let_def case_prod_unfold res_def[symmetric] s1_def[symmetric] aborted_def[symmetric]
          split: sum.splits option.splits prod.splits)
    then show ?thesis by (auto simp: ledger_of_event s1_def res_def)
  next
    case False
    then show ?thesis using assms Pair by (auto simp: settle_call_def split: option.splits)
  qed
qed

lemma settlement_closes:
  "i \<noteq> [] \<Longrightarrow> dr_callIndex req = n \<Longrightarrow> dr_phase req = p \<Longrightarrow> closes req i (settlement n i p ms aborted att)"
  "ds_dispatched (settlement n i p ms aborted att) = at_dispatched att"
  "ds_usage (settlement n i p ms aborted att) = Option.bind (at_response att) reportedUsage"
  by (simp_all add: closes_def settlement_def Let_def)

lemma unhooked_none: "call_effect False L (L\<lparr>lg_calls := Suc (lg_calls L), lg_events := lg_events L @ [Dispatched q]\<rparr>)"
  using unhooked[where us = "[]"] by simp

text \<open>What a call does once it is past its reservation: the attempt, then its settlement when there is one.\<close>

lemma ledger_of_reserved_call:
  fixes x :: "('q, 'p) writer_env"
  obtains att :: "'p attempt" where "at_dispatched att \<or> at_response att = None" "at_dispatched att \<longrightarrow> at_called att"
    "hooks x \<noteq> None \<and> at_called att \<longrightarrow> at_dispatched att"
    "hooks x = None \<or> callId = None \<longrightarrow> ledger_of (snd (reserved_call x q effort n p callId s)) = attempted q att (ledger_of s)"
    "\<forall>i. hooks x \<noteq> None \<and> callId = Some i \<longrightarrow> (\<exists>r ms aborted. r = settlement n i p ms aborted att \<and>
      ledger_of (snd (reserved_call x q effort n p callId s)) =
      (attempted q att (ledger_of s))\<lparr>lg_events := lg_events (attempted q att (ledger_of s)) @ [Settled r]\<rparr>)"
proof -
  obtain t0 s1 where t0: "now x s = (t0, s1)" by (cases "now x s")
  obtain att s2 where d: "send_call x q p effort s1 = (att, s2)" by (cases "send_call x q p effort s1")
  obtain t1 s3 where t1: "now x s2 = (t1, s3)" by (cases "now x s2")
  define ms where "ms = \<lfloor>t1 - t0 + 1 / 2\<rfloor>"
  define s4 where "s4 = (if at_called att then put_detail (\<lambda>d. d\<lparr>wc_ms := Some ms\<rparr>) s3 else s3)"
  obtain f s5 where e: "settle_call x n callId p ms att s4 = (f, s5)" by (cases "settle_call x n callId p ms att s4")
  obtain o' s6 where r: "report x s5 = (o', s6)" by (cases "report x s5")
  have "snd (reserved_call x q effort n p callId s) = s6"
    by (auto simp: reserved_call_def t0 d t1 ms_def[symmetric] s4_def[symmetric] e r split: option.split sum.split)
  then have last: "ledger_of (snd (reserved_call x q effort n p callId s)) = ledger_of s5"
    using ledger_of_report[of x s5] by (simp add: r)
  have s4: "ledger_of s4 = attempted q att (ledger_of s)"
    using ledger_of_now[of x s] ledger_of_now[of x s2] ledger_of_send_call(1)[OF d] by (simp add: t0 t1 s4_def)
  note sent = ledger_of_send_call(2-4)[OF d]
  note settled = ledger_of_settle_call[OF e]
  show ?thesis
  proof (rule that)
    show "hooks x = None \<or> callId = None \<longrightarrow> ledger_of (snd (reserved_call x q effort n p callId s)) = attempted q att (ledger_of s)"
      using settled unfolding last s4 by blast
    show "\<forall>i. hooks x \<noteq> None \<and> callId = Some i \<longrightarrow> (\<exists>r ms aborted. r = settlement n i p ms aborted att \<and>
      ledger_of (snd (reserved_call x q effort n p callId s)) =
      (attempted q att (ledger_of s))\<lparr>lg_events := lg_events (attempted q att (ledger_of s)) @ [Settled r]\<rparr>)"
      using settled unfolding last s4 by blast
  qed (fact sent)+
qed

theorem complete_effect:
  fixes x :: "('q, 'p) writer_env"
  shows "call_effect (hooks x \<noteq> None) (ledger_of s) (ledger_of (snd (complete x q effort s)))"
proof -
  obtain r s1 where a: "throwIfAborted x s = (r, s1)" by (cases "throwIfAborted x s")
  have s1: "ledger_of s1 = ledger_of s" using ledger_of_throwIfAborted[of x s] by (simp add: a)
  define n where "n = ws_calls s1 + 1"
  define p where "p = ws_phase s1"
  have np: "n = lg_calls (ledger_of s) + 1" "p = lg_phase (ledger_of s)"
    unfolding n_def p_def s1[symmetric] by (simp_all add: ledger_of_def)
  obtain c s2 where b: "reserve x n p effort s1 = (c, s2)" by (cases "reserve x n p effort s1")
  note reserved = ledger_of_reserve[OF b]
  have result: "snd (complete x q effort s) = (case r of Inl f \<Rightarrow> s1 | Inr _ \<Rightarrow> (case c of Inl f \<Rightarrow> s2
      | Inr callId \<Rightarrow> snd (reserved_call x q effort n p callId s2)))"
    unfolding complete_def bind_act_def a prod.case n_def[symmetric] p_def[symmetric] b by (auto split: sum.split)
  show ?thesis
  proof (cases "\<exists>callId u. r = Inr u \<and> c = Inr callId")
    case False
    then show ?thesis using reserved s1 by (auto simp: result intro: refused split: sum.splits)
  next
    case True
    then obtain u callId where rc: "r = Inr u" "c = Inr callId" by blast
    obtain att :: "'p attempt" where att: "at_dispatched att \<or> at_response att = None" "at_dispatched att \<longrightarrow> at_called att"
      "hooks x \<noteq> None \<and> at_called att \<longrightarrow> at_dispatched att"
      and plain: "hooks x = None \<or> callId = None \<longrightarrow> ledger_of (snd (complete x q effort s)) = attempted q att (ledger_of s2)"
      and hooked: "\<forall>i. hooks x \<noteq> None \<and> callId = Some i \<longrightarrow> (\<exists>r ms aborted. r = settlement n i p ms aborted att \<and>
        ledger_of (snd (complete x q effort s)) =
        (attempted q att (ledger_of s2))\<lparr>lg_events := lg_events (attempted q att (ledger_of s2)) @ [Settled r]\<rparr>)"
      using ledger_of_reserved_call[of x callId q effort n p s2] unfolding result rc sum.case by metis
    show ?thesis
    proof (cases "hooks x")
      case None
      with reserved rc have "callId = None" "ledger_of s2 = ledger_of s" using s1 by (auto split: option.splits)
      then show ?thesis using plain att None by (auto simp: attempted_def Let_def intro: refused unobserved unhooked unhooked_none)
    next
      case (Some hk)
      with reserved rc s1 obtain i req where i: "callId = Some i" "i \<noteq> []" "dr_callIndex req = n" "dr_phase req = p"
        "ledger_of s2 = (ledger_of s)\<lparr>lg_events := lg_events (ledger_of s) @ [Reserved req i]\<rparr>" by (auto split: option.splits)
      obtain ms aborted where last: "ledger_of (snd (complete x q effort s)) = (attempted q att (ledger_of s2))
          \<lparr>lg_events := lg_events (attempted q att (ledger_of s2)) @ [Settled (settlement n i p ms aborted att)]\<rparr>"
        using hooked Some i(1) by auto
      note cl = settlement_closes(1)[OF i(2-4), of ms aborted att]
      show ?thesis
      proof (cases "at_dispatched att")
        case True
        have eq: "ledger_of (snd (complete x q effort s)) = (ledger_of s)\<lparr>lg_calls := Suc (lg_calls (ledger_of s)),
            lg_usages := lg_usages (ledger_of s) @ option_list (ds_usage (settlement n i p ms aborted att)),
            lg_events := lg_events (ledger_of s) @ [Reserved req i, Dispatched q, Settled (settlement n i p ms aborted att)]\<rparr>"
          using True by (simp add: last i(5) attempted_def settlement_closes)
        have "call_effect True (ledger_of s) (ledger_of (snd (complete x q effort s)))"
          unfolding eq by (rule sent) (use np i(3,4) cl True in \<open>simp_all add: settlement_closes\<close>)
        then show ?thesis using Some by simp
      next
        case False
        then have none: "\<not> at_called att" "at_response att = None" using att Some by auto
        then have eq: "ledger_of (snd (complete x q effort s)) =
            (ledger_of s)\<lparr>lg_events := lg_events (ledger_of s) @ [Reserved req i, Settled (settlement n i p ms aborted att)]\<rparr>"
          using False by (simp add: last i(5) attempted_def)
        have "call_effect True (ledger_of s) (ledger_of (snd (complete x q effort s)))"
          unfolding eq by (rule unsent) (use np i(3,4) cl False none in \<open>simp_all add: settlement_closes\<close>)
        then show ?thesis using Some by simp
      qed
    qed
  qed
qed

section \<open>The writer refines the ledger\<close>

definition quiet :: "('q, 'a) act \<Rightarrow> bool" where
  "quiet m \<longleftrightarrow> (\<forall>s. ledger_of (snd (m s)) = ledger_of s)"

text \<open>
  \<open>refines x g d m\<close>: whatever state \<open>m\<close> starts in, it is a run of the ledger with at most \<open>g\<close> calls that
  generate and \<open>d\<close> declined tool calls.
\<close>

definition refines :: "('q, 'p) writer_env \<Rightarrow> nat \<Rightarrow> nat \<Rightarrow> ('q, 'a) act \<Rightarrow> bool" where
  "refines x g d m \<longleftrightarrow> (\<forall>s. \<exists>ks. ledger_run (hooks x \<noteq> None) (ledger_of s) ks (ledger_of (snd (m s))) \<and>
     count_list ks Generation \<le> g \<and> count_list ks Declined \<le> d)"

named_theorems writer_quiet \<open>operations that the ledger does not see\<close>
named_theorems writer_refines \<open>operations that refine the ledger\<close>

lemma quiet_bind: "quiet m \<Longrightarrow> (\<And>a. quiet (k a)) \<Longrightarrow> quiet (bind_act m k)"
  unfolding quiet_def bind_act_def
  by (metis (mono_tags, lifting) case_prod_conv old.prod.exhaust snd_conv sum.case_eq_if)

lemma quiet_simps [writer_quiet]:
  "quiet (ret a)" "quiet (raise f)" "quiet (lift_res r)" "quiet (report x)" "quiet (throwIfAborted x)"
  by (auto simp: quiet_def ret_def raise_def lift_res_def split: sum.split)

lemma quiet_update: "(\<And>s. ledger_of (f s) = ledger_of s) \<Longrightarrow> quiet (update f)"
  by (simp add: quiet_def update_def)

lemma quiet_then: "quiet m \<Longrightarrow> quiet k \<Longrightarrow> quiet (then_act m k)"
  unfolding then_act_def by (rule quiet_bind)

lemmas quiet_intros = quiet_bind quiet_then quiet_update

lemma quiet_validateCandidate [writer_quiet]: "quiet (validateCandidate x v repaired)"
  unfolding validateCandidate_def Let_def by (auto intro!: quiet_intros simp: writer_quiet split: sum.split)

lemma quiet_parseCandidate [writer_quiet]: "quiet (parseCandidate x response is_note)"
  unfolding parseCandidate_def by (auto intro!: quiet_intros simp: writer_quiet case_prod_unfold Let_def)

lemma quiet_checkCandidate [writer_quiet]: "quiet (checkCandidate x v repaired)"
  unfolding checkCandidate_def by (auto intro!: quiet_intros simp: writer_quiet Let_def continuation_missing_def)

lemma quiet_readCandidate [writer_quiet]: "quiet (readCandidate x response)"
  unfolding readCandidate_def by (auto intro!: quiet_intros simp: writer_quiet)

lemma refines_quiet: "quiet m \<Longrightarrow> refines x g d m"
  by (auto simp: refines_def quiet_def intro!: exI[of _ "[]"] stay)

lemma refines_bind:
  assumes "refines x g d m" "\<And>a. refines x g' d' (k a)"
  shows "refines x (g + g') (d + d') (bind_act m k)"
  unfolding refines_def
proof
  fix s
  obtain r s1 where m: "m s = (r, s1)" by (cases "m s")
  obtain ks where ks: "ledger_run (hooks x \<noteq> None) (ledger_of s) ks (ledger_of s1)" "count_list ks Generation \<le> g" "count_list ks Declined \<le> d"
    using assms(1) unfolding refines_def by (metis m snd_conv)
  show "\<exists>ks. ledger_run (hooks x \<noteq> None) (ledger_of s) ks (ledger_of (snd (bind_act m k s))) \<and>
     count_list ks Generation \<le> g + g' \<and> count_list ks Declined \<le> d + d'"
  proof (cases r)
    case (Inl f)
    then show ?thesis using ks by (auto simp: bind_act_def m intro!: exI[of _ ks])
  next
    case (Inr a)
    obtain ls where "ledger_run (hooks x \<noteq> None) (ledger_of s1) ls (ledger_of (snd (k a s1)))" "count_list ls Generation \<le> g'" "count_list ls Declined \<le> d'"
      using assms(2)[of a] unfolding refines_def by metis
    then have "ledger_run (hooks x \<noteq> None) (ledger_of s) (ks @ ls) (ledger_of (snd (bind_act m k s)))"
      "count_list (ks @ ls) Generation \<le> g + g'" "count_list (ks @ ls) Declined \<le> d + d'"
      using ledger_run_append[OF ks(1)] ks(2,3) by (simp_all add: bind_act_def m Inr)
    then show ?thesis by blast
  qed
qed

lemma refines_quiet_bind: "quiet m \<Longrightarrow> (\<And>a. refines x g d (k a)) \<Longrightarrow> refines x g d (bind_act m k)"
  using refines_bind[OF refines_quiet[of m x 0 0]] by fastforce

lemma refines_quiet_then: "quiet m \<Longrightarrow> refines x g d k \<Longrightarrow> refines x g d (then_act m k)"
  unfolding then_act_def by (rule refines_quiet_bind)

lemma refines_bind_quiet: "refines x g d m \<Longrightarrow> (\<And>a. quiet (k a)) \<Longrightarrow> refines x g d (bind_act m k)"
  using refines_bind[of x g d m 0 0 k] refines_quiet by fastforce

lemma refines_recover:
  assumes "quiet m" "\<And>f. refines x g d (k f)"
  shows "refines x g d (recover m k)"
  unfolding refines_def
proof
  fix s
  obtain r s1 where m: "m s = (r, s1)" by (cases "m s")
  have s1: "ledger_of s1 = ledger_of s" using assms(1) unfolding quiet_def by (metis m snd_conv)
  show "\<exists>ks. ledger_run (hooks x \<noteq> None) (ledger_of s) ks (ledger_of (snd (recover m k s))) \<and>
     count_list ks Generation \<le> g \<and> count_list ks Declined \<le> d"
  proof (cases r)
    case (Inl f)
    then have "recover m k s = k f s1" by (simp add: recover_def m)
    then show ?thesis using assms(2)[of f] s1 unfolding refines_def by metis
  next
    case (Inr a)
    then show ?thesis using s1 by (auto simp: recover_def m intro!: exI[of _ "[]"] stay)
  qed
qed

lemma refines_mono: "refines x g d m \<Longrightarrow> g \<le> g' \<Longrightarrow> d \<le> d' \<Longrightarrow> refines x g' d' m"
  unfolding refines_def by (meson order.trans)

lemma refines_complete [writer_refines]: "refines x 1 0 (complete x q effort)"
  unfolding refines_def
  by (intro allI exI[of _ "[Generation]"] conjI ledger_run_one generation complete_effect) simp_all

text \<open>A repair is one call in the repair phase, then steps the ledger does not see.\<close>

lemma repair_call_run:
  assumes "\<not> ws_repairUsed s" "\<And>a. quiet (k a)"
  shows "ledger_run (hooks x \<noteq> None) (ledger_of s) [Repaired]
    (ledger_of (snd (finally_generate (bind_act (complete x q effort) k) (begin_repair kind s))))"
proof -
  obtain r s1 where c: "complete x q effort (begin_repair kind s) = (r, s1)" by (cases "complete x q effort (begin_repair kind s)")
  have effect: "call_effect (hooks x \<noteq> None) ((ledger_of s)\<lparr>lg_repaired := True, lg_phase := Repair\<rparr>) (ledger_of s1)"
    using complete_effect[of x "begin_repair kind s" q effort] by (simp add: c) (simp add: ledger_of_def begin_repair_def)
  have "ledger_of (snd (bind_act (complete x q effort) k (begin_repair kind s))) = ledger_of s1"
    using assms(2) by (cases r) (auto simp: bind_act_def c quiet_def)
  then have "ledger_of (snd (finally_generate (bind_act (complete x q effort) k) (begin_repair kind s))) =
      (ledger_of s1)\<lparr>lg_phase := Generate\<rparr>"
    by (simp add: finally_generate_def case_prod_unfold) (simp add: ledger_of_def)
  then show ?thesis using repaired[OF _ effect] assms(1) by (auto intro!: ledger_run_one simp: ledger_of_def)
qed

lemma repair_run:
  assumes "\<not> ws_repairUsed s" "\<And>a. quiet (k a)"
  shows "\<exists>ks. ledger_run (hooks x \<noteq> None) (ledger_of s) ks (ledger_of (snd (then_act (throwIfAborted x)
      (then_act (update (begin_repair kind)) (finally_generate (bind_act (complete x q effort) k))) s))) \<and>
    count_list ks Generation = 0 \<and> count_list ks Declined = 0"
proof -
  obtain r s1 where a: "throwIfAborted x s = (r, s1)" by (cases "throwIfAborted x s")
  have s1: "ledger_of s1 = ledger_of s" using ledger_of_throwIfAborted[of x s] by (simp add: a)
  show ?thesis
  proof (cases r)
    case (Inl f)
    then show ?thesis using s1 by (auto simp: then_act_def bind_act_def a intro!: exI[of _ "[]"] stay)
  next
    case (Inr u)
    have "\<not> ws_repairUsed s1" using assms(1) arg_cong[OF s1, of lg_repaired] by (simp add: ledger_of_def)
    from repair_call_run[OF this, of k x q effort kind, OF assms(2)] show ?thesis
      using Inr s1 by (intro exI[of _ "[Repaired]"]) (simp add: then_act_def bind_act_def[of "throwIfAborted x"] bind_act_def[of "update _"] a update_def)
  qed
qed

lemma ledger_of_bind_quiet: "(\<And>a. quiet (k a)) \<Longrightarrow> ledger_of (snd (bind_act m k s)) = ledger_of (snd (m s))"
  by (cases "m s") (auto simp: bind_act_def quiet_def split: sum.split)

lemma requestRepair_run:
  assumes "\<not> ws_repairUsed s" "\<And>a. quiet (k a)"
  shows "\<exists>ks. ledger_run (hooks x \<noteq> None) (ledger_of s) ks (ledger_of (snd (bind_act (requestRepair x kind rules prompt f) k s))) \<and>
    count_list ks Generation = 0 \<and> count_list ks Declined = 0"
  unfolding ledger_of_bind_quiet[of k, OF assms(2)]
proof (cases "repair_fits x rules prompt")
  case True
  then show "\<exists>ks. ledger_run (hooks x \<noteq> None) (ledger_of s) ks (ledger_of (snd (requestRepair x kind rules prompt f s))) \<and>
    count_list ks Generation = 0 \<and> count_list ks Declined = 0"
    unfolding requestRepair_def by (simp only: True not_True_eq_False if_False) (rule repair_run[OF assms(1)], rule quiet_parseCandidate)
next
  case False
  then show "\<exists>ks. ledger_run (hooks x \<noteq> None) (ledger_of s) ks (ledger_of (snd (requestRepair x kind rules prompt f s))) \<and>
    count_list ks Generation = 0 \<and> count_list ks Declined = 0"
    by (auto simp: requestRepair_def raise_def intro!: exI[of _ "[]"] stay)
qed

lemma raise_run: "\<exists>ks. ledger_run hooked (ledger_of s) ks (ledger_of (snd (raise f s))) \<and> count_list ks Generation = 0 \<and> count_list ks Declined = 0"
  by (auto simp: raise_def intro!: exI[of _ "[]"] stay)

lemma refinesI:
  assumes "\<And>s. \<exists>ks. ledger_run (hooks x \<noteq> None) (ledger_of s) ks (ledger_of (snd (m s))) \<and>
    count_list ks Generation = 0 \<and> count_list ks Declined = 0"
  shows "refines x 0 0 m"
  using assms unfolding refines_def by auto

lemma refines_repairQuotations [writer_refines]: "refines x 0 0 (repairQuotations x e n diagnosis)"
proof (rule refinesI)
  fix s
  show "\<exists>ks. ledger_run (hooks x \<noteq> None) (ledger_of s) ks (ledger_of (snd (repairQuotations x e n diagnosis s))) \<and>
      count_list ks Generation = 0 \<and> count_list ks Declined = 0"
    unfolding repairQuotations_def Let_def
    by (cases "\<not> wo_noteRepair (we_options x) \<or> ws_repairUsed s \<or> \<not> quoteRepairEligible diagnosis")
      (simp_all only: if_True if_False raise_run, rule requestRepair_run,
        auto intro!: quiet_intros simp: writer_quiet)
qed

lemma refines_repairSources [writer_refines]: "refines x 0 0 (repairSources x e diagnosis)"
proof (rule refinesI)
  fix s
  show "\<exists>ks. ledger_run (hooks x \<noteq> None) (ledger_of s) ks (ledger_of (snd (repairSources x e diagnosis s))) \<and>
      count_list ks Generation = 0 \<and> count_list ks Declined = 0"
  proof (cases "sd_pending diagnosis")
    case (Some n)
    show ?thesis unfolding repairSources_def Let_def Some option.case
      by (cases "\<not> wo_noteRepair (we_options x) \<or> ws_repairUsed s \<or> \<not> sourcesRepairEligible diagnosis")
        (simp_all only: if_True if_False raise_run, rule requestRepair_run,
          auto intro!: quiet_intros simp: writer_quiet)
  qed (simp only: repairSources_def Let_def option.case raise_run)
qed

lemma refines_shortenCandidate [writer_refines]: "refines x 0 0 (shortenCandidate x candidate)"
proof (rule refinesI)
  fix s
  show "\<exists>ks. ledger_run (hooks x \<noteq> None) (ledger_of s) ks (ledger_of (snd (shortenCandidate x candidate s))) \<and>
      count_list ks Generation = 0 \<and> count_list ks Declined = 0"
    unfolding shortenCandidate_def Let_def
    by (cases "\<not> wo_noteRepair (we_options x) \<or> ws_repairUsed s";
        cases "repair_fits x (shorten_system (we_doc x) (we_options x)) (shorten_prompt (we_options x) candidate)")
      (simp_all only: if_True if_False not_True_eq_False not_False_eq_True raise_run, rule repair_run,
        auto intro!: quiet_intros simp: writer_quiet)
qed

lemma refines_repair_refusal: "refines x 0 0 (repair_refusal x f)"
  by (cases f) (simp_all add: writer_refines refines_quiet writer_quiet)

lemma refines_accept [writer_refines]: "refines x 0 0 (accept x response)"
proof -
  have "refines x (0 + 0) (0 + 0) (bind_act (recover (checkCandidate x v False) (repair_refusal x)) (\<lambda>candidate.
      if int (noteBytes candidate) \<le> note_limit (we_options x) * 3 then ret candidate else shortenCandidate x candidate))" for v
    by (intro refines_bind refines_recover refines_repair_refusal)
      (simp_all add: writer_quiet writer_refines refines_quiet)
  then show ?thesis unfolding accept_def by (intro refines_quiet_bind[OF quiet_parseCandidate]) simp
qed

lemma refines_declineToolCall [writer_refines]: "refines x 0 1 (declineToolCall x q effort response)"
  unfolding refines_def
proof
  fix s
  obtain r s1 where a: "throwIfAborted x s = (r, s1)" by (cases "throwIfAborted x s")
  have s1: "ledger_of s1 = ledger_of s" using ledger_of_throwIfAborted[of x s] by (simp add: a)
  let ?goal = "\<lambda>t. \<exists>ks. ledger_run (hooks x \<noteq> None) (ledger_of s) ks (ledger_of t) \<and> count_list ks Generation \<le> 0 \<and> count_list ks Declined \<le> 1"
  have same: "?goal t" if "ledger_of t = ledger_of s" for t
    using that by (auto intro!: exI[of _ "[]"] stay)
  show "?goal (snd (declineToolCall x q effort response s))"
  proof (cases "\<not> calls_tool response \<or> rs_stopReason response \<noteq> js ''toolUse'' \<or> \<not> wo_noteRepair (we_options x) \<or> ws_toolDeclined s")
    case True
    then show ?thesis by (intro same) (simp add: declineToolCall_def ret_def)
  next
    case False
    let ?c = "complete x (wt_declineToolCalls (we_transport x) q response) effort"
    have step: "declineToolCall x q effort response s =
        then_act (throwIfAborted x) (then_act (update (\<lambda>s. s\<lparr>ws_toolDeclined := True\<rparr>)) ?c) s"
      unfolding declineToolCall_def if_not_P[OF False] ..
    show ?thesis
    proof (cases r)
      case (Inl f)
      then show ?thesis using s1 by (intro same) (simp add: step then_act_def bind_act_def a)
    next
      case (Inr u)
      have "ledger_step (hooks x \<noteq> None) Declined (ledger_of s1) (ledger_of (snd (?c (s1\<lparr>ws_toolDeclined := True\<rparr>))))"
      proof (rule declined)
        show "\<not> lg_declined (ledger_of s1)" using False s1 by (simp add: ledger_of_def)
        show "call_effect (hooks x \<noteq> None) ((ledger_of s1)\<lparr>lg_declined := True\<rparr>) (ledger_of (snd (?c (s1\<lparr>ws_toolDeclined := True\<rparr>))))"
          using complete_effect[of x "s1\<lparr>ws_toolDeclined := True\<rparr>"] by (simp add: ledger_of_def)
      qed
      then have "ledger_run (hooks x \<noteq> None) (ledger_of s) [Declined] (ledger_of (snd (declineToolCall x q effort response s)))"
        using Inr s1 by (auto simp: step then_act_def bind_act_def a update_def intro: ledger_run_one)
      then show ?thesis by (auto intro!: exI[of _ "[Declined]"])
    qed
  qed
qed

lemma refines_fixed_loop: "refines x (length chunks) 0 (fixed_loop x system maxTokens chunks n chunkCount)"
proof (induction chunks arbitrary: n chunkCount)
  case (Cons chunk chunks)
  have rest: "refines x (length chunks) 0 (then_act (throwIfAborted x)
      (bind_act (accept x response) (\<lambda>n'. fixed_loop x system maxTokens chunks (Some n') (chunkCount + 1))))" for response
    using refines_bind[OF refines_accept Cons.IH] by (intro refines_quiet_then) (auto simp: writer_quiet)
  show ?case
    using refines_bind[OF refines_complete rest]
    by (auto intro!: refines_quiet_then simp: Let_def writer_quiet refines_quiet)
qed (simp add: refines_quiet writer_quiet)

lemma refines_fixed_writer: "refines x (length (sourceChunks (wo_uncovered (we_options x)) (chunk_budget x))) 0 (writeWithFixedWriter x)"
proof (cases "chunk_budget x < 2048")
  case True
  then show ?thesis by (simp add: writeWithFixedWriter_def Let_def refines_quiet writer_quiet)
next
  case False
  have "quiet (case r of (n, chunkCount) \<Rightarrow> case n of Some v \<Rightarrow> if chunkCount = 0 then raise no_new_source else ret (v, chunkCount)
      | None \<Rightarrow> raise no_new_source)" for r :: "memory_note option \<times> nat"
    by (auto simp: writer_quiet split: prod.split option.split)
  from refines_bind_quiet[OF refines_fixed_loop this] False show ?thesis
    by (simp add: writeWithFixedWriter_def Let_def)
qed

lemma refines_session_writer: "refines x 1 1 (writeWithSession x)"
proof -
  have rest: "refines x 0 1 (bind_act (declineToolCall x q effort first_response) (\<lambda>response.
      then_act (throwIfAborted x) (bind_act (accept x response) (\<lambda>n. ret (n, 1 :: nat)))))" for q effort first_response
  proof -
    have "refines x 0 0 (then_act (throwIfAborted x) (bind_act (accept x response) (\<lambda>n. ret (n, 1 :: nat))))" for response
      by (intro refines_quiet_then refines_bind_quiet refines_accept) (simp_all add: writer_quiet)
    from refines_bind[OF refines_declineToolCall this] show ?thesis by simp
  qed
  have call: "refines x 1 1 (bind_act (complete x q effort) (\<lambda>first_response. bind_act (declineToolCall x q effort first_response) (\<lambda>response.
      then_act (throwIfAborted x) (bind_act (accept x response) (\<lambda>n. ret (n, 1 :: nat))))))" for q effort
    using refines_bind[OF refines_complete rest] by simp
  have started: "refines x 1 1 (then_act (throwIfAborted x) (bind_act (complete x q effort) (\<lambda>first_response.
      bind_act (declineToolCall x q effort first_response) (\<lambda>response.
      then_act (throwIfAborted x) (bind_act (accept x response) (\<lambda>n. ret (n, 1 :: nat)))))))" for q effort
    by (rule refines_quiet_then[OF _ call]) (simp add: writer_quiet)
  have stopped: "refines x 1 1 (raise f :: (_, memory_note \<times> nat) act)" for f
    by (simp add: refines_quiet writer_quiet)
  show ?thesis
    unfolding writeWithSession_def Let_def by (simp add: started[simplified] stopped[simplified] split: option.split)
qed

lemma quiet_finish_note [writer_quiet]: "quiet (finish_note x r)"
  by (auto simp: quiet_def finish_note_def ret_def raise_def split: prod.split)

text \<open>The calls a writer may spend on generation: one for a session, one per chunk for a fixed writer.\<close>

definition generations :: "('q, 'p) writer_env \<Rightarrow> nat" where
  "generations x = (if wt_session (we_transport x) then 1 else length (sourceChunks (wo_uncovered (we_options x)) (chunk_budget x)))"

definition declines :: "('q, 'p) writer_env \<Rightarrow> nat" where
  "declines x = (if wt_session (we_transport x) then 1 else 0)"

lemma refines_run_writer: "refines x (generations x) (declines x) (run_writer x)"
  unfolding run_writer_def generations_def declines_def
  using refines_session_writer[of x] refines_fixed_writer[of x] by (auto intro!: refines_bind_quiet simp: writer_quiet)

section \<open>Invariants of the ledger\<close>

lemma moves_once:
  "ledger_run hooked L ks M \<Longrightarrow> count_list ks Repaired \<le> (if lg_repaired L then 0 else 1) \<and>
     count_list ks Declined \<le> (if lg_declined L then 0 else 1)"
proof (induction rule: ledger_run.induct)
  case (more_steps k L M ks N)
  have effect: "lg_repaired B = lg_repaired A \<and> lg_declined B = lg_declined A" if "call_effect hooked A B" for A B :: "'a ledger"
    using that by (cases rule: call_effect.cases) auto
  from more_steps(1) show ?case
    by (cases rule: ledger_step.cases) (use more_steps(3) effect in \<open>fastforce split: if_splits\<close>)+
qed simp

lemma calls_bounded: "ledger_run hooked L ks M \<Longrightarrow> lg_calls M \<le> lg_calls L + length ks"
proof (induction rule: ledger_run.induct)
  case (more_steps k L M ks N)
  have effect: "lg_calls B \<le> Suc (lg_calls A)" if "call_effect hooked A B" for A B :: "'a ledger"
    using that by (cases rule: call_effect.cases) auto
  from more_steps(1) have "lg_calls M \<le> Suc (lg_calls L)"
    by (cases rule: ledger_step.cases) (use effect in \<open>fastforce\<close>)+
  with more_steps(3) show ?case by simp
qed simp

text \<open>
  \<open>booked n es\<close>: from \<open>n\<close> counted calls on, the events are reservations numbered by the next call, each
  closed by one settlement of the same identity, index and phase before the next, with one dispatch
  between them exactly when the settlement says so; the result is the number of calls counted then.
\<close>

fun booked :: "nat \<Rightarrow> 'q writer_event list \<Rightarrow> nat option" where
  "booked n [] = Some n"
| "booked n (Reserved req i # Settled r # es) =
     (if dr_callIndex req = Suc n \<and> closes req i r \<and> \<not> ds_dispatched r \<and> ds_usage r = None then booked n es else None)"
| "booked n (Reserved req i # Dispatched q # Settled r # es) =
     (if dr_callIndex req = Suc n \<and> closes req i r \<and> ds_dispatched r then booked (Suc n) es else None)"
| "booked n _ = None"

lemma booked_append: "booked n es = Some k \<Longrightarrow> booked n (es @ fs) = booked k fs"
  by (induction n es rule: booked.induct) (auto split: if_splits)

fun settled_usages :: "'q writer_event list \<Rightarrow> writer_usage list" where
  "settled_usages [] = []"
| "settled_usages (Settled r # es) = option_list (ds_usage r) @ settled_usages es"
| "settled_usages (_ # es) = settled_usages es"

lemma settled_usages_append: "settled_usages (es @ fs) = settled_usages es @ settled_usages fs"
  by (induction es rule: settled_usages.induct) auto

fun repair_call :: "'q writer_event \<Rightarrow> bool" where
  "repair_call (Reserved req i) = (dr_phase req = Repair)"
| "repair_call _ = False"

text \<open>The books of a ledger are in order.\<close>

definition in_order :: "'q ledger \<Rightarrow> bool" where
  "in_order L \<longleftrightarrow> booked 0 (lg_events L) = Some (lg_calls L) \<and> lg_usages L = settled_usages (lg_events L)"

lemma in_order_effect: "call_effect True L M \<Longrightarrow> in_order L \<Longrightarrow> in_order M"
  by (erule call_effect.cases) (auto simp: in_order_def booked_append settled_usages_append)

lemma in_order_update: "in_order (L\<lparr>lg_declined := b\<rparr>) = in_order L" "in_order (L\<lparr>lg_repaired := b, lg_phase := p\<rparr>) = in_order L"
    "in_order (L\<lparr>lg_phase := p\<rparr>) = in_order L" "in_order (L\<lparr>lg_repaired := b\<rparr>) = in_order L"
  by (simp_all add: in_order_def)

lemma in_order_run: "ledger_run True L ks M \<Longrightarrow> in_order L \<Longrightarrow> in_order M"
proof (induction rule: ledger_run.induct)
  case (more_steps k L M ks N)
  from more_steps(1,4) have "in_order M"
    by (cases rule: ledger_step.cases) (auto simp: in_order_update dest!: in_order_effect)
  then show ?case by (rule more_steps(3))
qed

lemma repair_calls_run:
  "ledger_run hooked L ks M \<Longrightarrow> lg_phase L = Generate \<Longrightarrow> lg_phase M = Generate \<and>
    length (filter repair_call (lg_events M)) \<le> length (filter repair_call (lg_events L)) + count_list ks Repaired"
proof (induction rule: ledger_run.induct)
  case (more_steps k L M ks N)
  have effect: "lg_phase B = lg_phase A \<and> length (filter repair_call (lg_events B)) \<le>
      length (filter repair_call (lg_events A)) + (if lg_phase A = Repair then 1 else 0)" if "call_effect hooked A B" for A B :: "'a ledger"
    using that by (cases rule: call_effect.cases) auto
  from more_steps(1,4) have "lg_phase M = Generate \<and> length (filter repair_call (lg_events M)) \<le>
      length (filter repair_call (lg_events L)) + (if k = Repaired then 1 else 0)"
    by (cases rule: ledger_step.cases) (use effect in fastforce)+
  with more_steps(3) show ?case by auto
qed simp

section \<open>The whole operation\<close>

abbreviation env_of :: "host \<Rightarrow> (schema \<Rightarrow> jsval) \<Rightarrow> writer_world \<Rightarrow> writer_options \<Rightarrow> ('q, 'p) writer_transport
    \<Rightarrow> ('q, 'p) writer_env" where
  "env_of h doc W opts T \<equiv> \<lparr>we_host = h, we_doc = doc, we_world = W, we_transport = T, we_options = frozen_options opts\<rparr>"

definition empty_ledger :: "'q ledger" where
  "empty_ledger = \<lparr>lg_calls = 0, lg_usages = [], lg_repaired = False, lg_declined = False, lg_phase = Generate, lg_events = []\<rparr>"

lemma ledger_of_first [simp]: "ledger_of first_state = empty_ledger"
  by (simp add: ledger_of_def first_state_def empty_ledger_def)

lemma raise_stays: "ledger_run hooked empty_ledger [] (ledger_of (snd (raise f first_state)))"
  by (simp add: raise_def stay)

lemma writeMemory_run:
  "\<exists>ks. ledger_run (ww_hooks W \<noteq> None) empty_ledger ks (ledger_of (snd (writeMemory h doc W opts opened))) \<and>
    count_list ks Repaired \<le> 1 \<and>
    (case opened of Inl e \<Rightarrow> ks = [] | Inr T \<Rightarrow> count_list ks Generation \<le> generations (env_of h doc W opts T) \<and>
       count_list ks Declined \<le> declines (env_of h doc W opts T))"
proof -
  show ?thesis
  proof (cases opened)
    case (Inl e)
    then show ?thesis by (simp add: writeMemory_def raise_stays)
  next
    case (Inr T)
    obtain ks where ks: "ledger_run (ww_hooks W \<noteq> None) empty_ledger ks (ledger_of (snd (run_writer (env_of h doc W opts T) first_state)))"
      "count_list ks Generation \<le> generations (env_of h doc W opts T)" "count_list ks Declined \<le> declines (env_of h doc W opts T)"
      using refines_run_writer[of "env_of h doc W opts T"] unfolding refines_def
      by (metis ledger_of_first writer_env.select_convs(3))
    have "count_list ks Repaired \<le> 1" using moves_once[OF ks(1)] by (simp add: empty_ledger_def)
    with ks Inr show ?thesis by (auto simp: writeMemory_def intro: exI[of _ "[]"] raise_stays)
  qed
qed

lemma length_moves: "length ks = count_list ks Generation + count_list ks Declined + count_list ks Repaired"
proof (induction ks)
  case (Cons k ks)
  then show ?case by (cases k) auto
qed simp

text \<open>
  C5: \<^bold>\<open>Refinement.\<close> Whatever the host answers and however the operation ends, its accounting is a run of
  the ledger machine from the empty ledger: every change of the counted calls, the collected usage, the
  repair and decline flags and the sequence of reservations, dispatches and settlements is one of the
  machine's steps, with at most one repair and at most the writer's own number of generation calls.
\<close>

theorem writeMemory_refines_ledger:
  "\<exists>ks. ledger_run (ww_hooks W \<noteq> None) empty_ledger ks (ledger_of (snd (writeMemory h doc W opts opened))) \<and>
    count_list ks Repaired \<le> 1 \<and>
    (case opened of Inl e \<Rightarrow> ks = [] | Inr T \<Rightarrow> count_list ks Generation \<le> generations (env_of h doc W opts T) \<and>
       count_list ks Declined \<le> declines (env_of h doc W opts T))"
  by (rule writeMemory_run)

text \<open>
  C7: \<^bold>\<open>The call budget.\<close> On every outcome a session writer makes at most three provider calls and a fixed
  writer at most one more than its chunks; nothing is called when no transport opens; at most one of
  the reserved calls is a repair; and the phase is back at generation.
\<close>

theorem writeMemory_call_budget:
  "(case opened of Inl e \<Rightarrow> ws_calls (snd (writeMemory h doc W opts opened)) = 0
    | Inr T \<Rightarrow> ws_calls (snd (writeMemory h doc W opts opened)) \<le>
        (if wt_session T then 3
         else length (sourceChunks (wo_uncovered opts) (chunk_budget (env_of h doc W opts T))) + 1)) \<and>
   length (filter repair_call (ws_trace (snd (writeMemory h doc W opts opened)))) \<le> 1 \<and>
   ws_phase (snd (writeMemory h doc W opts opened)) = Generate"
proof -
  let ?t = "snd (writeMemory h doc W opts opened)"
  obtain ks where ks: "ledger_run (ww_hooks W \<noteq> None) empty_ledger ks (ledger_of ?t)" "count_list ks Repaired \<le> 1"
    "case opened of Inl e \<Rightarrow> ks = [] | Inr T \<Rightarrow> count_list ks Generation \<le> generations (env_of h doc W opts T) \<and>
       count_list ks Declined \<le> declines (env_of h doc W opts T)"
    using writeMemory_run by blast
  have calls: "ws_calls ?t \<le> length ks" using calls_bounded[OF ks(1)] by (simp add: ledger_of_def empty_ledger_def)
  have uncovered: "wo_uncovered (frozen_options opts) = wo_uncovered opts" by (simp add: frozen_options_def Let_def)
  have "case opened of Inl e \<Rightarrow> ws_calls ?t = 0 | Inr T \<Rightarrow> ws_calls ?t \<le> (if wt_session T then 3
         else length (sourceChunks (wo_uncovered opts) (chunk_budget (env_of h doc W opts T))) + 1)"
    using calls ks(2,3) length_moves[of ks]
    by (auto simp: generations_def declines_def uncovered split: sum.splits if_splits)
  moreover have "filter repair_call (filter call_event es) = filter repair_call es" for es :: "'a writer_event list"
  proof (induction es)
    case (Cons ev es)
    then show ?case by (cases ev) auto
  qed simp
  then have "length (filter repair_call (ws_trace ?t)) \<le> 1 \<and> ws_phase ?t = Generate"
    using repair_calls_run[OF ks(1)] ks(2) by (simp add: ledger_of_def empty_ledger_def)
  ultimately show ?thesis by blast
qed

lemma writeMemory_booked:
  "booked 0 (filter call_event (ws_trace (snd (writeMemory h doc (W\<lparr>ww_hooks := Some hk\<rparr>) opts opened)))) =
     Some (ws_calls (snd (writeMemory h doc (W\<lparr>ww_hooks := Some hk\<rparr>) opts opened))) \<and>
   ws_usages (snd (writeMemory h doc (W\<lparr>ww_hooks := Some hk\<rparr>) opts opened)) =
     settled_usages (filter call_event (ws_trace (snd (writeMemory h doc (W\<lparr>ww_hooks := Some hk\<rparr>) opts opened))))"
proof -
  obtain ks where "ledger_run True empty_ledger ks (ledger_of (snd (writeMemory h doc (W\<lparr>ww_hooks := Some hk\<rparr>) opts opened)))"
    using writeMemory_run[of "W\<lparr>ww_hooks := Some hk\<rparr>" h doc opts opened] by auto
  from in_order_run[OF this] show ?thesis
    by (simp add: in_order_def empty_ledger_def ledger_of_def)
qed

text \<open>
  C6: \<^bold>\<open>Accounting.\<close> With call hooks installed, on every outcome: the reservations that returned an identity
  are numbered in order, each is settled exactly once, under its own identity, index and phase, before
  the next one, and between them the request was dispatched exactly when the settlement says so; the
  number of calls counted is the number dispatched; and the usage collected is exactly the usage the
  settlements reported, so a failure after a paid call erases nothing.
\<close>

theorem writeMemory_accounts:
  "booked 0 (filter call_event (ws_trace (snd (writeMemory h doc (W\<lparr>ww_hooks := Some hk\<rparr>) opts opened)))) =
     Some (ws_calls (snd (writeMemory h doc (W\<lparr>ww_hooks := Some hk\<rparr>) opts opened))) \<and>
   ws_usages (snd (writeMemory h doc (W\<lparr>ww_hooks := Some hk\<rparr>) opts opened)) =
     settled_usages (filter call_event (ws_trace (snd (writeMemory h doc (W\<lparr>ww_hooks := Some hk\<rparr>) opts opened))))"
  by (rule writeMemory_booked)

end
