(* ===== verification/Writer_Result.thy ===== *)
theory Writer_Result
  imports Writer_Ledger
begin

text \<open>
  What the writer returns: whatever the host answers, a note that comes back was validated against the
  originals, fits the frozen budget and continues an unfinished turn; and a host that answers with such
  a note gets it back after one call.
\<close>

section \<open>What a returning operation gives\<close>

definition gives :: "('q, 'a) act \<Rightarrow> ('a \<Rightarrow> bool) \<Rightarrow> bool" where
  "gives m P \<longleftrightarrow> (\<forall>s r s'. m s = (Inr r, s') \<longrightarrow> P r)"

named_theorems writer_gives \<open>what the operations of the writer give\<close>

lemma gives_ret: "P a \<Longrightarrow> gives (ret a) P"
  by (simp add: gives_def ret_def)

lemma gives_raise [simp]: "gives (raise f) P"
  by (simp add: gives_def raise_def)

lemma gives_lift: "(\<And>a. r = Inr a \<Longrightarrow> P a) \<Longrightarrow> gives (lift_res r) P"
  by (simp add: gives_def lift_res_def split: sum.split)

lemma gives_any [simp]: "gives m (\<lambda>_. True)"
  by (simp add: gives_def)

lemma gives_bind:
  assumes "gives m P" "\<And>a. P a \<Longrightarrow> gives (k a) Q"
  shows "gives (bind_act m k) Q"
  unfolding gives_def
proof (intro allI impI)
  fix s r s' assume e: "bind_act m k s = (Inr r, s')"
  then obtain a s1 where "m s = (Inr a, s1)" "k a s1 = (Inr r, s')"
    by (auto simp: bind_act_def split: prod.splits sum.splits)
  with assms show "Q r" unfolding gives_def by blast
qed

lemma gives_bind_any: "(\<And>a. gives (k a) Q) \<Longrightarrow> gives (bind_act m k) Q"
  by (rule gives_bind[OF gives_any])

lemma gives_then: "gives k Q \<Longrightarrow> gives (then_act m k) Q"
  unfolding then_act_def by (rule gives_bind_any)

lemma gives_recover:
  assumes "gives m P" "\<And>f. gives (k f) P"
  shows "gives (recover m k) P"
  unfolding gives_def recover_def using assms by (auto simp: gives_def split: prod.splits sum.splits)

lemma gives_finally: "gives m P \<Longrightarrow> gives (finally_generate m) P"
  by (auto simp: gives_def finally_generate_def split: prod.splits)

lemma gives_if: "gives m P \<Longrightarrow> gives k P \<Longrightarrow> gives (\<lambda>s. if b s then m s else k s) P"
  by (auto simp: gives_def)

section \<open>Candidates\<close>

text \<open>A checked candidate: the folded form of a note that was validated, with a next step when one is due.\<close>

definition checked :: "('q, 'p) writer_env \<Rightarrow> memory_note \<Rightarrow> bool" where
  "checked x n \<longleftrightarrow> (\<exists>v. validateNoteContent (we_host x) v (wo_branch (we_options x)) = Inr v \<and> n = oneLineNote v) \<and>
     (active_requests (we_options x) = [] \<or> has_next_step n)"

definition accepted :: "('q, 'p) writer_env \<Rightarrow> memory_note \<Rightarrow> bool" where
  "accepted x n \<longleftrightarrow> checked x n \<and> int (noteBytes n) \<le> 3 * note_limit (we_options x)"

lemma gives_validateCandidate: "gives (validateCandidate x v repaired) (\<lambda>n. n = v \<and> validateNoteContent (we_host x) v (wo_branch (we_options x)) = Inr v)"
proof (cases "validateNoteContent (we_host x) v (wo_branch (we_options x))")
  case (Inl e)
  show ?thesis unfolding validateCandidate_def Let_def Inl sum.case by (auto intro!: gives_then)
next
  case (Inr n)
  then have "n = v" by (simp add: validateNoteContent_Inr)
  with Inr show ?thesis by (simp add: validateCandidate_def gives_ret)
qed

lemma gives_checkCandidate: "gives (checkCandidate x v repaired) (checked x)"
  unfolding checkCandidate_def
  by (rule gives_bind[OF gives_validateCandidate]) (auto simp: Let_def continuation_missing_def checked_def intro!: gives_ret)

lemma gives_readCandidate: "gives (readCandidate x response) (checked x)"
  unfolding readCandidate_def by (intro gives_bind_any gives_checkCandidate)

lemma gives_repair_refusal: "gives (repair_refusal x f) (checked x)"
proof (cases f)
  case (SchemaRefusal e d)
  show ?thesis
  proof (cases "sd_pending d")
    case (Some n)
    show ?thesis unfolding SchemaRefusal repair_refusal.simps repairSources_def[abs_def] Let_def Some option.case
      by (intro gives_if gives_raise gives_bind_any gives_checkCandidate)
  qed (simp add: SchemaRefusal repairSources_def[abs_def] Let_def)
next
  case (QuotationRefusal e n d)
  show ?thesis unfolding QuotationRefusal repair_refusal.simps repairQuotations_def[abs_def] Let_def
    by (intro gives_if gives_raise gives_bind_any) (auto intro!: gives_then gives_checkCandidate)
qed simp_all

text \<open>What a note refers to: its sources, what it supersedes, its quotations, and its sections in use.\<close>

definition anchors :: "memory_note \<Rightarrow> jstring set \<times> jstring set \<times> jstring set" where
  "anchors n = ((\<Union>f \<in> set (all_items n). set (f_sources f)), (\<Union>f \<in> set (all_items n). set (f_supersedes f)),
     {q. \<exists>f \<in> set (all_items n). f_quote f = Some q})"

definition occupied :: "memory_note \<Rightarrow> note_section option set" where
  "occupied n = {Some s | s. items n s \<noteq> []} \<union> (if gaps n = [] then {} else {None})"

definition kept :: "memory_note \<Rightarrow> memory_note \<Rightarrow> bool" where
  "kept before after \<longleftrightarrow> fst (anchors before) \<subseteq> fst (anchors after) \<and> fst (snd (anchors before)) \<subseteq> fst (snd (anchors after)) \<and>
     snd (snd (anchors before)) \<subseteq> snd (snd (anchors after)) \<and> occupied before \<subseteq> occupied after"

lemma assertRepairPreserved_kept: "assertRepairPreserved before after = Inr () \<longleftrightarrow> kept before after"
proof -
  have sources: "fst (anchors before) \<subseteq> fst (anchors after) \<longleftrightarrow>
      \<not> list_ex (\<lambda>f. list_ex (\<lambda>i. i \<notin> set (concat (map f_sources (all_items after)))) (f_sources f)) (all_items before)"
    by (auto simp: anchors_def list_ex_iff)
  have supersedes: "fst (snd (anchors before)) \<subseteq> fst (snd (anchors after)) \<longleftrightarrow>
      \<not> list_ex (\<lambda>f. list_ex (\<lambda>i. i \<notin> set (concat (map f_supersedes (all_items after)))) (f_supersedes f)) (all_items before)"
    by (auto simp: anchors_def list_ex_iff)
  have all_quotes: "set (concat (map (\<lambda>f. case f_quote f of None \<Rightarrow> [] | Some q \<Rightarrow> [q]) (all_items n))) = snd (snd (anchors n))" for n
    by (force simp: anchors_def split: option.splits)
  have "\<not> list_ex (\<lambda>f. case f_quote f of None \<Rightarrow> False | Some q \<Rightarrow> q \<notin> Q) (all_items before) \<longleftrightarrow> snd (snd (anchors before)) \<subseteq> Q" for Q
    by (auto simp: anchors_def list_ex_iff split: option.split)
  then have quotes: "snd (snd (anchors before)) \<subseteq> snd (snd (anchors after)) \<longleftrightarrow> \<not> list_ex (\<lambda>f. case f_quote f of None \<Rightarrow> False
      | Some q \<Rightarrow> q \<notin> set (concat (map (\<lambda>f. case f_quote f of None \<Rightarrow> [] | Some q \<Rightarrow> [q]) (all_items after)))) (all_items before)"
    unfolding all_quotes by simp
  have sections: "occupied before \<subseteq> occupied after \<longleftrightarrow>
      \<not> list_ex (\<lambda>s. items before s \<noteq> [] \<and> items after s = []) noteSections \<and> \<not> (gaps before \<noteq> [] \<and> gaps after = [])"
    by (auto simp: occupied_def list_ex_iff noteSections_all split: if_splits)
  have split: "list_ex (\<lambda>f. A f \<or> B f \<or> C f) xs \<longleftrightarrow> list_ex A xs \<or> list_ex B xs \<or> list_ex C xs" for A B C and xs :: "jsval list"
    by (auto simp: list_ex_iff)
  have "assertRepairPreserved before after = (if \<not> kept before after then throw CONTEXT_NOTE_REPAIR_LOSS
      ''CONTEXT_NOTE_REPAIR_LOSS: size repair lost evidence anchors, exact quotations or an occupied section; no checkpoint committed'' else Inr ())"
    unfolding assertRepairPreserved_def Let_def split kept_def sources supersedes quotes sections
    by (rule if_cong) (blast, rule refl, rule refl)
  then show ?thesis by (simp add: throw_def)
qed

lemma gives_shorten: "gives (shortenCandidate x candidate) (\<lambda>n. accepted x n \<and> kept candidate n)"
proof -
  have tail: "gives (bind_act (lift_res (validateNote (we_host x) n (wo_branch (we_options x)) (note_limit (we_options x))))
      (\<lambda>_. then_act (lift_res (assertRepairPreserved candidate n)) (ret n))) (\<lambda>n. accepted x n \<and> kept candidate n)" if "checked x n" for n
  proof (rule gives_bind[OF gives_lift[of _ "\<lambda>_. int (noteBytes n) \<le> 3 * note_limit (we_options x)"]])
    assume fits: "int (noteBytes n) \<le> 3 * note_limit (we_options x)"
    show "gives (then_act (lift_res (assertRepairPreserved candidate n)) (ret n)) (\<lambda>n. accepted x n \<and> kept candidate n)"
      unfolding then_act_def
      by (rule gives_bind[OF gives_lift[of _ "\<lambda>_. kept candidate n"]])
        (use that fits in \<open>auto simp: assertRepairPreserved_kept accepted_def intro!: gives_ret\<close>)
  qed (simp add: validateNote_Inr)
  have repair: "gives (then_act (throwIfAborted x) (then_act (update (begin_repair SizeRepair)) (finally_generate
      (bind_act (complete x q effort) (\<lambda>response. bind_act (readCandidate x response) (\<lambda>n.
        bind_act (lift_res (validateNote (we_host x) n (wo_branch (we_options x)) (note_limit (we_options x))))
          (\<lambda>_. then_act (lift_res (assertRepairPreserved candidate n)) (ret n)))))))) (\<lambda>n. accepted x n \<and> kept candidate n)" for q effort
    by (rule gives_then, rule gives_then, rule gives_finally, rule gives_bind_any, rule gives_bind[OF gives_readCandidate tail])
  show ?thesis unfolding shortenCandidate_def[abs_def] Let_def
    by (intro gives_if gives_raise repair)
qed

lemma gives_shortenCandidate: "gives (shortenCandidate x candidate) (accepted x)"
  using gives_shorten[of x candidate] by (simp add: gives_def)

lemma gives_accept: "gives (accept x response) (accepted x)"
  unfolding accept_def
proof (rule gives_bind_any)
  fix v
  show "gives (bind_act (recover (checkCandidate x v False) (repair_refusal x)) (\<lambda>candidate.
      if int (noteBytes candidate) \<le> note_limit (we_options x) * 3 then ret candidate else shortenCandidate x candidate)) (accepted x)"
    by (rule gives_bind[OF gives_recover[OF gives_checkCandidate gives_repair_refusal]])
      (auto simp: gives_shortenCandidate accepted_def[of x] intro!: gives_ret)
qed

section \<open>The writers\<close>

lemma gives_fixed_loop:
  "chunkCount = 0 \<or> (\<exists>v. n = Some v \<and> accepted x v) \<Longrightarrow>
    gives (fixed_loop x system maxTokens chunks n chunkCount) (\<lambda>(n', k). k = 0 \<or> (\<exists>v. n' = Some v \<and> accepted x v))"
proof (induction chunks arbitrary: n chunkCount)
  case (Cons chunk chunks)
  have rest: "gives (bind_act (complete x q effort) (\<lambda>response. then_act (throwIfAborted x) (bind_act (accept x response)
      (\<lambda>n'. fixed_loop x system maxTokens chunks (Some n') (chunkCount + 1)))))
      (\<lambda>(n', k). k = 0 \<or> (\<exists>v. n' = Some v \<and> accepted x v))" for q effort
    by (rule gives_bind_any, rule gives_then, rule gives_bind[OF gives_accept], rule Cons.IH) simp
  show ?case unfolding fixed_loop.simps Let_def by (intro gives_then) (simp add: rest[simplified])
qed (auto intro: gives_ret)

lemma gives_fixed_writer: "gives (writeWithFixedWriter x) (\<lambda>(n, k). accepted x n)"
  unfolding writeWithFixedWriter_def Let_def
  by (auto intro!: gives_bind[OF gives_fixed_loop] gives_ret split: option.splits simp: no_new_source_def)

lemma gives_session_writer: "gives (writeWithSession x) (\<lambda>(n, k). accepted x n)"
proof -
  have rest: "gives (then_act (throwIfAborted x) (bind_act (complete x q effort) (\<lambda>first_response.
      bind_act (declineToolCall x q effort first_response) (\<lambda>response.
      then_act (throwIfAborted x) (bind_act (accept x response) (\<lambda>n. ret (n, 1 :: nat))))))) (\<lambda>(n, k). accepted x n)" for q effort
    by (rule gives_then, rule gives_bind_any, rule gives_bind_any, rule gives_then, rule gives_bind[OF gives_accept]) (simp add: gives_ret)
  show ?thesis unfolding writeWithSession_def Let_def by (simp add: rest[simplified] split: option.split)
qed

lemma writeMemory_returns:
  assumes "writeMemory h doc W opts opened = (Inr r, t)"
  shows "\<exists>T. opened = Inr T \<and> budget_count (wo_noteTokens opts) \<and> accepted (env_of h doc W opts T) (wm_note r) \<and>
    wm_usage r = sumMemoryUsage (ws_usages t)"
proof -
  obtain T where T: "opened = Inr T" "budget_count (wo_noteTokens opts)"
    and run: "run_writer (env_of h doc W opts T) first_state = (Inr r, t)"
    using assms by (auto simp: writeMemory_def raise_def split: if_splits sum.splits)
  let ?x = "env_of h doc W opts T"
  obtain p s1 where p: "(if wt_session T then writeWithSession ?x else writeWithFixedWriter ?x) first_state = (Inr p, s1)"
    "finish_note ?x p s1 = (Inr r, t)"
    using run by (auto simp: run_writer_def bind_act_def split: prod.splits sum.splits)
  have "case p of (n, k) \<Rightarrow> accepted ?x n"
  proof (cases "wt_session T")
    case True
    then have "writeWithSession ?x first_state = (Inr p, s1)" using p(1) by simp
    then show ?thesis using gives_session_writer unfolding gives_def by blast
  next
    case False
    then have "writeWithFixedWriter ?x first_state = (Inr p, s1)" using p(1) by simp
    then show ?thesis using gives_fixed_writer unfolding gives_def by blast
  qed
  then show ?thesis using T p(2)
    by (auto simp: finish_note_def ret_def raise_def split: prod.splits if_splits)
qed

lemma active_frozen [simp]: "active_requests (frozen_options opts) = active_requests opts" "wo_branch (frozen_options opts) = wo_branch opts"
    "note_limit (frozen_options opts) = min (note_limit opts) MAX_NOTE_TOKENS" "wo_noteRepair (frozen_options opts) = wo_noteRepair opts"
    "wo_uncovered (frozen_options opts) = wo_uncovered opts"
  by (simp_all add: frozen_options_def active_requests_def Let_def token_count_def)

text \<open>
  C4: \<^bold>\<open>A note that comes back is sound.\<close> Whatever the provider answered and however many repairs were made,
  a note the writer returns is the folded form of a note the validator accepted, every fact of it is
  evidenced by the branch (its citations are readable originals and its quotation is in one it cites), its
  JSON fits the frozen budget, it has a next step when a turn is unfinished, and the usage beside it is
  the sum over all calls made.
\<close>

theorem writeMemory_note_sound:
  assumes "documented_check h len" "writeMemory h doc W opts opened = (Inr r, t)"
  shows "(\<exists>v. check h noteSchema v \<and> wm_note r = oneLineNote v) \<and> note_evidenced (wo_branch opts) (wm_note r) \<and>
    int (noteBytes (wm_note r)) \<le> 3 * min (note_limit opts) 8000 \<and>
    (active_requests opts = [] \<or> has_next_step (wm_note r)) \<and> wm_usage r = sumMemoryUsage (ws_usages t)"
proof -
  obtain v where v: "validateNoteContent h v (wo_branch opts) = Inr v" "wm_note r = oneLineNote v"
    and rest: "active_requests opts = [] \<or> has_next_step (wm_note r)" "int (noteBytes (wm_note r)) \<le> 3 * min (note_limit opts) 8000"
      "wm_usage r = sumMemoryUsage (ws_usages t)"
    using writeMemory_returns[OF assms(2)] by (auto simp: accepted_def checked_def MAX_NOTE_TOKENS_def)
  have ok: "check h noteSchema v" "note_evidenced (wo_branch opts) v" using v(1) by (simp_all add: validateNoteContent_Inr)
  have "isRecord v" using ok(1) assms(1) noteSchema_isRecord by (simp add: documented_check_def)
  then have "note_evidenced (wo_branch opts) (oneLineNote v)" using ok(2) by (auto simp: note_evidenced_iff oneLineNote_items)
  then show ?thesis using v(2) ok(1) rest by auto
qed

text \<open>
  C8: \<^bold>\<open>A size repair loses nothing.\<close> Whatever the provider answers, a note the size repair returns was validated
  again and fits the budget, and every source, superseded id and quotation of the candidate still occurs
  in it, as does every section that was in use.
\<close>

theorem shortenCandidate_keeps:
  "gives (shortenCandidate x candidate) (\<lambda>n. kept candidate n \<and> int (noteBytes n) \<le> 3 * note_limit (we_options x) \<and>
     (\<exists>v. check (we_host x) noteSchema v \<and> note_evidenced (wo_branch (we_options x)) v \<and> n = oneLineNote v))"
  using gives_shorten[of x candidate]
  by (auto simp: gives_def accepted_def checked_def validateNoteContent_Inr)

end
