(* ===== verification/Writer_Session.thy ===== *)
theory Writer_Session
  imports Writer_Result
begin

text \<open>
  The writer makes progress: when nothing is aborted, the observers answer and the session model returns a
  valid note that fits, \<open>writeMemory\<close> returns that note after one call. The run is also the concrete
  input of the witnesses.
\<close>

section \<open>An honest host\<close>

definition honest :: "writer_world \<Rightarrow> ('q, 'p) writer_transport \<Rightarrow> 'p writer_response \<Rightarrow> bool" where
  "honest W T rs \<longleftrightarrow>
     (\<forall>n. \<not> ww_aborted W n) \<and>
     (\<forall>f n p. ww_onProgress W = Some f \<longrightarrow> f n p = Inr ()) \<and>
     (\<forall>hk n req. ww_hooks W = Some hk \<longrightarrow> (\<exists>u i. wh_beforeDispatch hk n req = Inr (JStr (u # i)))) \<and>
     (\<forall>hk n r. ww_hooks W = Some hk \<longrightarrow> wh_afterDispatch hk n r = Inr ()) \<and>
     (\<forall>n q. snd (wt_dispatch T n q) = Inr ()) \<and> (\<forall>n q. snd (wt_result T n q) = Inr rs)"

text \<open>\<open>yields m s a k\<close>: from \<open>s\<close>, \<open>m\<close> returns \<open>a\<close> after counting \<open>k\<close> calls.\<close>

definition yields :: "('q, 'a) act \<Rightarrow> 'q writer_state \<Rightarrow> 'a \<Rightarrow> nat \<Rightarrow> bool" where
  "yields m s a k \<longleftrightarrow> (\<exists>s'. m s = (Inr a, s') \<and> ws_calls s' = ws_calls s + k)"

lemma yields_ret: "yields (ret a) s a 0"
  by (simp add: yields_def ret_def)

lemma yields_bind:
  assumes "yields m s a j" "\<And>s. yields (f a) s b k"
  shows "yields (bind_act m f) s b (j + k)"
proof -
  obtain s' where s': "m s = (Inr a, s')" "ws_calls s' = ws_calls s + j" using assms(1) by (auto simp: yields_def)
  obtain s'' where "f a s' = (Inr b, s'')" "ws_calls s'' = ws_calls s' + k" using assms(2) by (auto simp: yields_def)
  with s' show ?thesis by (auto simp: yields_def bind_act_def)
qed

lemma yields_bind0: "yields m s a 0 \<Longrightarrow> (\<And>s. yields (f a) s b k) \<Longrightarrow> yields (bind_act m f) s b k"
  using yields_bind[of m s a 0 f b k] by simp

lemma yields_bind1: "yields m s a 1 \<Longrightarrow> (\<And>s. yields (f a) s b 0) \<Longrightarrow> yields (bind_act m f) s b 1"
  using yields_bind[of m s a 1 f b 0] by simp

lemma yields_then0: "yields m s () 0 \<Longrightarrow> (\<And>s. yields k s b i) \<Longrightarrow> yields (then_act m k) s b i"
  unfolding then_act_def by (rule yields_bind0)

lemma yields_quiet: "quiet m \<Longrightarrow> m s = (Inr a, s') \<Longrightarrow> yields m s a 0"
  unfolding yields_def quiet_def by (metis add.right_neutral ledger.select_convs(1) ledger_of_def snd_conv)

lemma yields_detail: "yields (update (put_detail f)) s () 0"
  by (simp add: yields_def update_def put_detail_def)

lemma yields_recover: "yields m s a k \<Longrightarrow> yields (recover m f) s a k"
  by (auto simp: yields_def recover_def)

section \<open>One call\<close>

lemma honest_throwIfAborted: "honest (we_world x) T rs \<Longrightarrow> throwIfAborted x s = (Inr (), tick s)"
  by (simp add: honest_def throwIfAborted_def)

lemma honest_report: "honest (we_world x) T rs \<Longrightarrow> \<exists>s'. report x s = (Inr (), s')"
  by (auto simp: honest_def report_def lift_res_def split: option.split sum.split)

lemma yields_throwIfAborted: "honest (we_world x) T rs \<Longrightarrow> yields (throwIfAborted x) s () 0"
  by (rule yields_quiet) (simp_all add: writer_quiet honest_throwIfAborted)

lemma yields_report: "honest (we_world x) T rs \<Longrightarrow> yields (report x) s () 0"
  using honest_report yields_quiet quiet_simps(4) by metis

lemma honest_reserve:
  assumes "honest (we_world x) T rs"
  shows "\<exists>i s'. reserve x n p effort s = (Inr i, s') \<and> ws_calls s' = ws_calls s"
proof -
  obtain i s' where r: "reserve x n p effort s = (Inr i, s')"
  proof (cases "hooks x")
    case (Some hk)
    let ?req = "\<lparr>dr_callIndex = n, dr_phase = p, dr_model = wt_model (we_transport x), dr_writerEffort = effort\<rparr>"
    obtain u i where "wh_beforeDispatch hk (ws_tick s) ?req = Inr (JStr (u # i))"
      using assms Some unfolding honest_def by blast
    then show ?thesis using that Some by (simp add: reserve_def)
  qed (use that in \<open>simp add: reserve_def\<close>)
  have "lg_calls (ledger_of s') = lg_calls (ledger_of s)"
    using ledger_of_reserve[OF r] by (auto split: option.splits)
  with r show ?thesis by (simp add: ledger_of_def)
qed

lemma honest_send_call:
  assumes "honest (we_world x) (we_transport x) rs"
  shows "\<exists>s'. send_call x q p effort s = (\<lparr>at_called = True, at_dispatched = True, at_response = Some rs, at_failure = None\<rparr>, s') \<and>
    ws_calls s' = ws_calls s + 1"
proof -
  have d: "\<exists>s'. dispatch_call x q s = (\<lparr>at_called = True, at_dispatched = True, at_response = Some rs, at_failure = None\<rparr>, s')" for s
  proof -
    have ok: "snd (wt_dispatch (we_transport x) n q) = Inr ()" "snd (wt_result (we_transport x) n q) = Inr rs" for n
      using assms by (simp_all add: honest_def)
    obtain sent where sent: "wt_dispatch (we_transport x) (ws_tick s) q = (sent, Inr ())" by (metis ok(1) prod.collapse)
    obtain s2 where s2: "(if hooks x \<noteq> None then report x (put_sent sent (log_event (Dispatched q) s))
        else (Inr (), put_sent sent (log_event (Dispatched q) s))) = (Inr (), s2)"
      using honest_report[OF assms] by (metis (mono_tags))
    obtain sent' where "wt_result (we_transport x) (ws_tick s2) q = (sent', Inr rs)" by (metis ok(2) prod.collapse)
    then show ?thesis unfolding dispatch_call_def Let_def sent prod.case sum.case s2 by simp
  qed
  have "\<exists>s'. send_call x q p effort s = (\<lparr>at_called = True, at_dispatched = True, at_response = Some rs, at_failure = None\<rparr>, s')"
  proof -
    let ?s2 = "(tick s)\<lparr>ws_calls := ws_calls (tick s) + 1, ws_details := ws_details (tick s) @ [fresh_detail p effort]\<rparr>"
    obtain s3 where "(if hooks x = None then report x ?s2 else (Inr (), ?s2)) = (Inr (), s3)"
      using honest_report[OF assms] by (metis (mono_tags))
    then show ?thesis using d[of s3] unfolding send_call_def honest_throwIfAborted[OF assms] Let_def by simp
  qed
  then obtain s' where s': "send_call x q p effort s = (\<lparr>at_called = True, at_dispatched = True, at_response = Some rs, at_failure = None\<rparr>, s')" by blast
  have "lg_calls (ledger_of s') = lg_calls (ledger_of s) + 1"
    using ledger_of_send_call(1)[OF s'] by (simp add: attempted_def Let_def)
  with s' show ?thesis by (simp add: ledger_of_def)
qed

lemma honest_settle_call:
  assumes "honest (we_world x) T rs"
  shows "\<exists>s'. settle_call x n i p ms att s = (at_failure att, s') \<and> ws_calls s' = ws_calls s"
proof -
  obtain s' where r: "settle_call x n i p ms att s = (at_failure att, s')"
  proof (cases "\<exists>hk j. hooks x = Some hk \<and> i = Some j")
    case True
    then obtain hk j where hj: "hooks x = Some hk" "i = Some j" by blast
    then have "wh_afterDispatch hk m r = Inr ()" for m r using assms unfolding honest_def by blast
    then show ?thesis using that hj by (simp add: settle_call_def Let_def case_prod_unfold)
  next
    case False
    then show ?thesis by (cases "hooks x"; cases i) (auto simp: settle_call_def intro: that)
  qed
  have "lg_calls (ledger_of s') = lg_calls (ledger_of s)"
    using ledger_of_settle_call[OF r] by (cases "hooks x"; cases i) auto
  with r show ?thesis by (simp add: ledger_of_def)
qed

lemma yields_complete:
  assumes "honest (we_world x) (we_transport x) rs"
  shows "yields (complete x q effort) s rs 1"
proof -
  define s0 where "s0 = tick s"
  define n where "n = ws_calls s0 + 1"
  define p where "p = ws_phase s0"
  obtain i s1 where s1: "reserve x n p effort s0 = (Inr i, s1)" "ws_calls s1 = ws_calls s0"
    using honest_reserve[OF assms] by blast
  obtain t0 s2 where s2: "now x s1 = (t0, s2)" "ws_calls s2 = ws_calls s1" by (simp add: now_def tick_def)
  define att :: "'b attempt" where "att = \<lparr>at_called = True, at_dispatched = True, at_response = Some rs, at_failure = None\<rparr>"
  obtain s3 where s3: "send_call x q p effort s2 = (att, s3)" "ws_calls s3 = ws_calls s2 + 1"
    using honest_send_call[OF assms] unfolding att_def by blast
  obtain t1 s4 where s4: "now x s3 = (t1, s4)" "ws_calls s4 = ws_calls s3" by (simp add: now_def tick_def)
  define ms where "ms = \<lfloor>t1 - t0 + 1 / 2\<rfloor>"
  define s5 where "s5 = (if at_called att then put_detail (\<lambda>d. d\<lparr>wc_ms := Some ms\<rparr>) s4 else s4)"
  obtain s6 where s6: "settle_call x n i p ms att s5 = (at_failure att, s6)" "ws_calls s6 = ws_calls s5"
    using honest_settle_call[OF assms] by blast
  obtain s7 where s7: "report x s6 = (Inr (), s7)" using honest_report[OF assms] by blast
  have "ws_calls s7 = ws_calls s6" using ledger_of_report[of x s6] unfolding s7 by (simp add: ledger_of_def)
  moreover have "ws_calls s5 = ws_calls s4" by (simp add: s5_def put_detail_def)
  moreover have "ws_calls s0 = ws_calls s" by (simp add: s0_def tick_def)
  moreover have "reserved_call x q effort n p i s1 = (Inr rs, s7)"
    unfolding reserved_call_def s2(1) prod.case s3(1) s4(1) Let_def ms_def[symmetric] s5_def[symmetric] s6(1) s7
    by (simp add: att_def)
  then have "complete x q effort s = (Inr rs, s7)"
    unfolding complete_def bind_act_def honest_throwIfAborted[OF assms] prod.case sum.case s0_def[symmetric]
      n_def[symmetric] p_def[symmetric] s1(1) .
  ultimately show ?thesis using s1(2) s2(2) s3(2) s4(2) s6(2) by (simp add: yields_def)
qed

section \<open>The handover\<close>

text \<open>The answer of the session model: a final message whose text parses to \<open>v\<close>, in an envelope or bare.\<close>

definition answers :: "host \<Rightarrow> 'p writer_response \<Rightarrow> jsval \<Rightarrow> bool" where
  "answers h rs v \<longleftrightarrow> (\<exists>w. parseNote h rs = Inr w \<and> fst (removeNoteEnvelope w) = v)"

lemma answers_stop: "answers h rs v \<Longrightarrow> rs_stopReason rs = js ''stop'' \<and> \<not> calls_tool rs"
  by (auto simp: answers_def parseNote_def split: if_splits)

lemma yields_parseCandidate:
  assumes "honest (we_world x) T rs'" "answers (we_host x) rs v"
  shows "yields (parseCandidate x rs True) s v 0"
proof -
  obtain w where w: "parseNote (we_host x) rs = Inr w" "fst (removeNoteEnvelope w) = v" using assms(2) by (auto simp: answers_def)
  have lifted: "yields (lift_res (parseNote (we_host x) rs)) s w 0" for s by (simp add: yields_def lift_res_def w(1))
  show ?thesis
    unfolding parseCandidate_def if_True
    by (rule yields_then0[OF yields_throwIfAborted[OF assms(1)]], rule yields_bind0[OF lifted])
      (simp add: case_prod_unfold w(2), intro yields_then0[OF yields_detail] yields_then0[OF yields_report[OF assms(1)]] yields_ret)
qed

lemma yields_checkCandidate:
  assumes "validateNoteContent (we_host x) v (wo_branch (we_options x)) = Inr v"
    and "active_requests (we_options x) = [] \<or> has_next_step (oneLineNote v)"
  shows "yields (checkCandidate x v repaired) s (oneLineNote v) 0"
proof -
  have "yields (validateCandidate x v repaired) s v 0" by (simp add: validateCandidate_def assms(1) yields_ret)
  then show ?thesis
    unfolding checkCandidate_def by (rule yields_bind0) (use assms(2) in \<open>auto simp: Let_def yields_ret\<close>)
qed

lemma yields_accept:
  assumes "honest (we_world x) T rs'" "answers (we_host x) rs v"
    and "validateNoteContent (we_host x) v (wo_branch (we_options x)) = Inr v"
    and "active_requests (we_options x) = [] \<or> has_next_step (oneLineNote v)"
    and "int (noteBytes (oneLineNote v)) \<le> 3 * note_limit (we_options x)"
  shows "yields (accept x rs) s (oneLineNote v) 0"
proof -
  have fits: "int (noteBytes (oneLineNote v)) \<le> note_limit (we_options x) * 3" using assms(5) by simp
  have "yields (if int (noteBytes (oneLineNote v)) \<le> note_limit (we_options x) * 3 then ret (oneLineNote v)
      else shortenCandidate x (oneLineNote v)) s (oneLineNote v) 0" for s
    unfolding if_P[OF fits] by (rule yields_ret)
  note short = this
  show ?thesis
    unfolding accept_def
    by (rule yields_bind0[OF yields_parseCandidate[OF assms(1,2)]],
        rule yields_bind0[OF yields_recover[OF yields_checkCandidate[OF assms(3,4)]]], rule short)
qed

lemma yields_session_writer:
  assumes "honest (we_world x) (we_transport x) rs" "answers (we_host x) rs v"
    and "validateNoteContent (we_host x) v (wo_branch (we_options x)) = Inr v"
    and "active_requests (we_options x) = [] \<or> has_next_step (oneLineNote v)"
    and "int (noteBytes (oneLineNote v)) \<le> 3 * note_limit (we_options x)"
    and "wt_prefixTokens (we_transport x) = Some prefix_tokens"
    and "sources = filter (\<lambda>r. 0 < length (sourceText r)) (wo_uncovered (we_options x))" "sources \<noteq> []"
    and "\<exists>t \<in> set (handovers x sources). prefix_tokens + output_tokens x + int (textTokens t) \<le> wt_contextWindow (we_transport x)"
  shows "yields (writeWithSession x) s (oneLineNote v, 1) 1"
proof -
  obtain t where t: "find (\<lambda>t. prefix_tokens + output_tokens x + int (textTokens t) \<le> wt_contextWindow (we_transport x)) (handovers x sources) = Some t"
    using assms(9) by (metis (mono_tags, lifting) find_None_iff not_Some_eq)
  have "yields (declineToolCall x q effort rs) s rs 0" for q effort s
    using answers_stop[OF assms(2)] by (simp add: declineToolCall_def yields_def ret_def)
  note decline = this
  have accepts: "yields (then_act (throwIfAborted x) (bind_act (accept x rs) (\<lambda>n. ret (n, 1 :: nat)))) s (oneLineNote v, 1) 0" for s
    by (rule yields_then0[OF yields_throwIfAborted[OF assms(1)]], rule yields_bind0[OF yields_accept[OF assms(1-5)]], rule yields_ret)
  show ?thesis
    unfolding writeWithSession_def Let_def assms(6) option.case assms(7)[symmetric] if_not_P[OF assms(8)] t
    by (rule yields_then0[OF yields_throwIfAborted[OF assms(1)]], rule yields_bind1[OF yields_complete[OF assms(1)]],
        rule yields_bind0[OF decline], rule accepts)
qed

lemma session_run:
  assumes "honest W T rs" "answers h rs v" "wt_session T" "wt_prefixTokens T = Some prefix_tokens"
    and "validateNoteContent h v (wo_branch opts) = Inr v"
    and "active_requests opts = [] \<or> has_next_step (oneLineNote v)"
    and "int (noteBytes (oneLineNote v)) \<le> 3 * min (note_limit opts) 8000"
    and "sources = filter (\<lambda>r. 0 < length (sourceText r)) (wo_uncovered opts)" "sources \<noteq> []"
    and "prefix_tokens + outputBudget (wt_maxOutputTokens T) (min (note_limit opts) 8000) +
      int (textTokens (handoverInstruction doc (frozen_options opts) sources 0 [])) \<le> wt_contextWindow T"
  shows "\<exists>r t. run_writer (env_of h doc W opts T) first_state = (Inr r, t) \<and> wm_note r = oneLineNote v \<and>
    wm_chunkCount r = 1 \<and> ws_calls t = 1"
proof -
  let ?x = "env_of h doc W opts T"
  have room: "\<exists>t \<in> set (handovers ?x sources). prefix_tokens + output_tokens ?x + int (textTokens t) \<le> wt_contextWindow T"
    using assms(10) by (simp add: handovers_def Let_def output_tokens_def MAX_NOTE_TOKENS_def)
  have "yields (writeWithSession ?x) first_state (oneLineNote v, 1) 1"
    by (rule yields_session_writer[where rs = rs and sources = sources and prefix_tokens = prefix_tokens])
      (use assms room in \<open>simp_all add: MAX_NOTE_TOKENS_def\<close>)
  then obtain s' where s': "writeWithSession ?x first_state = (Inr (oneLineNote v, 1), s')" "ws_calls s' = 1"
    by (auto simp: yields_def first_state_def)
  then show ?thesis
    using assms(3,6) by (auto simp: run_writer_def bind_act_def finish_note_def ret_def)
qed

text \<open>
  C9: \<^bold>\<open>Progress.\<close> When the signal never fires, the observers and hooks answer, the session model's single
  answer holds a note the validator accepts, with a next step if a turn is unfinished, within the frozen
  budget, and the barest handover fits the window, \<open>writeMemory\<close> returns: the note is the folded form of
  that answer, and exactly one provider call was made.
\<close>

theorem writeMemory_session_returns:
  assumes "honest W T rs" "answers h rs v" "wt_session T" "wt_prefixTokens T = Some prefix_tokens"
    and "budget_count (wo_noteTokens opts)" "case wo_baseNoteTokens opts of None \<Rightarrow> True | Some n \<Rightarrow> budget_count n"
    and "validateNoteContent h v (wo_branch opts) = Inr v"
    and "active_requests opts = [] \<or> has_next_step (oneLineNote v)"
    and "int (noteBytes (oneLineNote v)) \<le> 3 * min (note_limit opts) 8000"
    and "sources = filter (\<lambda>r. 0 < length (sourceText r)) (wo_uncovered opts)" "sources \<noteq> []"
    and "prefix_tokens + outputBudget (wt_maxOutputTokens T) (min (note_limit opts) 8000) +
      int (textTokens (handoverInstruction doc (frozen_options opts) sources 0 [])) \<le> wt_contextWindow T"
  shows "\<exists>r t. writeMemory h doc W opts (Inr T) = (Inr r, t) \<and> wm_note r = oneLineNote v \<and> wm_chunkCount r = 1 \<and> ws_calls t = 1"
  using session_run[OF assms(1-4,7-12)] assms(5,6) by (auto simp: writeMemory_def split: option.splits)

section \<open>A run\<close>

definition sample_usage :: writer_usage where
  "sample_usage = zero_usage\<lparr>wu_input := 10, wu_output := 5, wu_totalTokens := 15\<rparr>"

definition sample_response :: "unit writer_response" where
  "sample_response = \<lparr>rs_stopReason = js ''stop'', rs_errorMessage = None,
     rs_content = [ThinkingBlock, TextBlock (stringify sample_note)], rs_usage = sample_usage, rs_native = ()\<rparr>"

definition sample_hooks :: call_hooks where
  "sample_hooks = \<lparr>wh_beforeDispatch = (\<lambda>_ _. Inr (JStr (js ''c1''))), wh_afterDispatch = (\<lambda>_ _. Inr ())\<rparr>"

definition sample_world :: writer_world where
  "sample_world = \<lparr>ww_aborted = (\<lambda>_. False), ww_reason = Err Aborted [], ww_now = (\<lambda>n. of_nat n),
     ww_onProgress = Some (\<lambda>_ _. Inr ()), ww_hooks = Some sample_hooks\<rparr>"

definition sample_options :: writer_options where
  "sample_options = \<lparr>wo_noteRepair = True, wo_previous = None, wo_increments = [], wo_uncovered = [sample_user],
     wo_branch = [sample_user], wo_noteTokens = JInt 500, wo_baseNoteTokens = None, wo_customInstructions = None,
     wo_activeRequests = None\<rparr>"

definition plain_doc :: "schema \<Rightarrow> jsval" where
  "plain_doc s = JNull"

definition sample_transport :: "(writer_request, unit) writer_transport" where
  "sample_transport = \<lparr>wt_model = js ''p/m'', wt_effort = None, wt_session = True,
     wt_contextWindow = 4096 + int (textTokens (handoverInstruction plain_doc (frozen_options sample_options) [sample_user] 0 [])),
     wt_maxOutputTokens = 4096, wt_prefixTokens = Some 0, wt_request = id, wt_declineToolCalls = (\<lambda>q _. q),
     wt_dispatch = (\<lambda>_ _. (None, Inr ())), wt_result = (\<lambda>_ _. (None, Inr sample_response)),
     wt_summarizeUsage = (\<lambda>u. \<lparr>us_input = wu_input u, us_output = wu_output u, us_cacheRead = 0, us_cacheWrite = 0,
       us_reasoning = None, us_totalTokens = wu_totalTokens u, us_cost = 0\<rparr>)\<rparr>"

lemma sample_honest: "honest sample_world sample_transport sample_response"
  by (auto simp: honest_def sample_world_def sample_transport_def sample_hooks_def js_def)

lemma sample_answer_text: "answer_text sample_response = stringify sample_note"
  by code_simp

lemma sample_note_ok: "json_ok sample_note"
  by code_simp

lemma sample_bare: "fst (removeNoteEnvelope sample_note) = sample_note"
  by code_simp

lemma sample_answers: "answers plain_host sample_response sample_note"
proof -
  have "parseNote plain_host sample_response = Inr sample_note"
    using json_parse_stringify[OF plain_reads[OF sample_note_ok]]
    by (simp add: parseNote_def sample_answer_text plain_host_def)
      (simp add: sample_response_def calls_tool_def)
  then show ?thesis using sample_bare by (auto simp: answers_def)
qed

lemma sample_valid: "validateNoteContent plain_host sample_note [sample_user] = Inr sample_note"
  using sample_note_conforms sample_note_evidenced by (simp add: validateNoteContent_Inr plain_host_def)

lemma sample_folded_bytes: "noteBytes (oneLineNote sample_note) = 140"
  by code_simp

lemma sample_options_simps:
  "wo_branch sample_options = [sample_user]" "note_limit sample_options = 500" "active_requests sample_options = []"
  "filter (\<lambda>r. 0 < length (sourceText r)) (wo_uncovered sample_options) = [sample_user]"
  "budget_count (wo_noteTokens sample_options)" "wo_baseNoteTokens sample_options = None"
  by (simp_all add: sample_options_def token_count_def active_requests_def budget_count_def max_safe_integer_def sample_user_simps)

lemma sample_room: "0 + outputBudget (wt_maxOutputTokens sample_transport) (min (note_limit sample_options) 8000) +
    int (textTokens (handoverInstruction plain_doc (frozen_options sample_options) [sample_user] 0 [])) \<le> wt_contextWindow sample_transport"
  by (simp add: sample_transport_def sample_options_simps outputBudget_def)

theorem writeMemory_session_returns_witness:
  "\<exists>r t. writeMemory plain_host plain_doc sample_world sample_options (Inr sample_transport) = (Inr r, t) \<and>
    wm_note r = oneLineNote sample_note \<and> wm_chunkCount r = 1 \<and> ws_calls t = 1"
proof (rule writeMemory_session_returns[OF sample_honest sample_answers _ _ sample_options_simps(5) _ _ _ _ sample_options_simps(4)[symmetric] _ sample_room])
  show "wt_session sample_transport" "wt_prefixTokens sample_transport = Some 0" by (simp_all add: sample_transport_def)
qed (simp_all add: sample_options_simps sample_valid sample_folded_bytes)

theorem writeMemory_note_sound_witness:
  "\<exists>r t. writeMemory plain_host plain_doc sample_world sample_options (Inr sample_transport) = (Inr r, t) \<and>
    note_evidenced [sample_user] (wm_note r) \<and> int (noteBytes (wm_note r)) \<le> 1500 \<and>
    wm_usage r = sumMemoryUsage (ws_usages t)"
proof -
  have "wt_session sample_transport" "wt_prefixTokens sample_transport = Some 0" by (simp_all add: sample_transport_def)
  then obtain r t where "run_writer (env_of plain_host plain_doc sample_world sample_options sample_transport) first_state = (Inr r, t)"
    using session_run[OF sample_honest sample_answers _ _ _ _ _ sample_options_simps(4)[symmetric] _ sample_room]
    by (auto simp: sample_options_simps sample_valid sample_folded_bytes)
  then have run: "writeMemory plain_host plain_doc sample_world sample_options (Inr sample_transport) = (Inr r, t)"
    by (simp add: writeMemory_def sample_options_simps)
  from writeMemory_note_sound[OF plain_host_documented this] run show ?thesis by (auto simp: sample_options_simps)
qed

end
