(* ===== verification/Lines.thy ===== *)
theory Lines
  imports Records
begin

text \<open>
  \<open>text.split("\n")\<close> and the joining of lines, for the files and summaries of the extension. A text is
  \<open>complete\<close> when its last line is empty; what follows a complete text starts a new line.
\<close>

fun text_lines :: "jstring \<Rightarrow> jstring list" where
  "text_lines [] = [[]]"
| "text_lines (u # s) =
     (if u = 0x0a then [] # text_lines s else case text_lines s of [] \<Rightarrow> [[u]] | l # ls \<Rightarrow> (u # l) # ls)"

text \<open>A text whose last line is complete.\<close>

definition complete_text :: "jstring \<Rightarrow> bool" where
  "complete_text text \<longleftrightarrow> text = [] \<or> last text = 0x0a"

lemma text_lines_not_Nil [simp]: "text_lines s \<noteq> []"
  by (cases s) (simp_all split: list.split)

lemma text_lines_Cons:
  "text_lines (u # s) = (if u = 0x0a then [] # text_lines s else (u # hd (text_lines s)) # tl (text_lines s))"
  by (cases "text_lines s") simp_all

declare text_lines.simps(2) [simp del] text_lines_Cons [simp]

lemma text_lines_append:
  "text_lines (x @ s) = butlast (text_lines x) @ (last (text_lines x) @ hd (text_lines s)) # tl (text_lines s)"
proof (induction x)
  case (Cons u x)
  obtain l ls where split: "text_lines x = l # ls" by (cases "text_lines x") auto
  show ?case by (simp add: Cons split)
qed simp

lemma text_lines_plain: "0x0a \<notin> set s \<Longrightarrow> text_lines s = [s]"
  by (induction s) auto

lemma text_lines_complete: "complete_text x \<Longrightarrow> last (text_lines x) = []"
  by (cases x rule: rev_cases) (simp_all add: complete_text_def text_lines_append)

lemma text_lines_torn:
  "complete_text x \<Longrightarrow> 0x0a \<notin> set tail \<Longrightarrow> text_lines (x @ tail) = butlast (text_lines x) @ [tail]"
  by (simp add: text_lines_append text_lines_plain text_lines_complete)

lemma text_lines_line:
  "complete_text x \<Longrightarrow> 0x0a \<notin> set l \<Longrightarrow> text_lines (x @ l @ newline) = butlast (text_lines x) @ [l, []]"
  by (simp add: text_lines_append text_lines_complete text_lines_plain)

lemma complete_text_line [simp]: "complete_text (x @ l @ newline)"
  by (simp add: complete_text_def)

lemma join_text_lines: "join newline (text_lines s) = s"
proof (induction s)
  case (Cons u s)
  obtain l ls where "text_lines s = l # ls" by (cases "text_lines s") auto
  with Cons show ?case by (cases ls) auto
qed simp

lemma text_lines_single: "l \<in> set (text_lines s) \<Longrightarrow> 0x0a \<notin> set l"
proof (induction s arbitrary: l)
  case (Cons u s)
  obtain m ls where "text_lines s = m # ls" by (cases "text_lines s") auto
  with Cons show ?case by (auto split: if_splits)
qed simp

end
