(* ===== verification/Call_Store.thy ===== *)
theory Call_Store
  imports Writer History Call_Journal Lines
begin

text \<open>
  \<^bold>\<open>preview/call-journal.ts\<close> of the extension: the append-only file of writer calls behind the summary
  of \<open>Call_Journal\<close>. A start line is on disk before the request is sent and its settlement follows.

  The journals are objects the hooks hold while the session map may drop them, so they live in a heap and
  the map and the hooks hold addresses. Files are texts by name. What the disk does is a parameter,
  \<open>journal_world\<close>: an append writes its line, or is refused before anything is written, or stops after some
  first units of the line (and part of the next character, which reads back as one U+FFFD), throwing or not;
  a read may throw.
  \<open>jw_number\<close> and \<open>jw_amount\<close> are the JSON number of an amount and the amount of a JSON number.
\<close>

section \<open>Records\<close>

definition MAX_JOURNAL_BYTES :: nat where
  "MAX_JOURNAL_BYTES = 4 * 1024 * 1024"

type_synonym call_map = "(jstring \<times> call_record) list"

record session_journal =
  sj_name :: jstring
  sj_calls :: call_map
  sj_gap :: "journal_gap option"

record call_store =
  cx_files :: "jstring \<Rightarrow> jstring option"
  cx_heap :: "session_journal list"
  cx_sessions :: "(jstring \<times> nat) list"
  cx_tick :: nat

record call_hook =
  hk_journal :: nat
  hk_purpose :: call_purpose
  hk_interval :: jstring
  hk_open :: "jstring list"
  hk_started :: nat

text \<open>The number of units that reached the file, and whether a part of a character follows them.\<close>

datatype append_outcome = Appended | Refused | Short nat bool | Interrupted nat bool

record journal_world =
  jw_host :: host
  jw_number :: "rat \<Rightarrow> jsnum"
  jw_amount :: "jsnum \<Rightarrow> rat"
  jw_unreadable :: "nat \<Rightarrow> bool"
  jw_append :: "nat \<Rightarrow> append_outcome"
  jw_uuid :: "nat \<Rightarrow> jstring"
  jw_time :: "nat \<Rightarrow> jstring"

datatype journal_refusal = CONTEXT_PREPARATION_BUDGET | CONTEXT_PREPARATION_ACCOUNTING

section \<open>Usage\<close>

fun is_count :: "journal_world \<Rightarrow> jsval \<Rightarrow> bool" where
  "is_count W (JNum n) = (n \<noteq> JNonFinite \<and> 0 \<le> jw_amount W n)"
| "is_count W _ = False"

fun amount_of :: "journal_world \<Rightarrow> jsval \<Rightarrow> rat" where
  "amount_of W (JNum n) = jw_amount W n"
| "amount_of W _ = 0"

definition callUsage :: "journal_world \<Rightarrow> jsval \<Rightarrow> call_usage option" where
  "callUsage W v =
     (if \<not> isRecord v then None
      else if list_all (\<lambda>k. is_count W (jfield v k)) [''input'', ''output'', ''cacheRead'', ''cacheWrite'', ''totalTokens'', ''cost''] then
        Some \<lparr>u_input = amount_of W (jfield v ''input''), u_output = amount_of W (jfield v ''output''),
          u_cacheRead = amount_of W (jfield v ''cacheRead''), u_cacheWrite = amount_of W (jfield v ''cacheWrite''),
          u_totalTokens = amount_of W (jfield v ''totalTokens''), u_cost = amount_of W (jfield v ''cost'')\<rparr>
      else None)"

definition fromProvider :: "writer_usage \<Rightarrow> call_usage" where
  "fromProvider u = \<lparr>u_input = of_int (wu_input u), u_output = of_int (wu_output u), u_cacheRead = of_int (wu_cacheRead u),
     u_cacheWrite = of_int (wu_cacheWrite u), u_totalTokens = of_int (wu_totalTokens u), u_cost = uc_total (wu_cost u)\<rparr>"

definition usage_json :: "journal_world \<Rightarrow> call_usage \<Rightarrow> jsval" where
  "usage_json W u = obj [(''input'', JNum (jw_number W (u_input u))), (''output'', JNum (jw_number W (u_output u))),
     (''cacheRead'', JNum (jw_number W (u_cacheRead u))), (''cacheWrite'', JNum (jw_number W (u_cacheWrite u))),
     (''totalTokens'', JNum (jw_number W (u_totalTokens u))), (''cost'', JNum (jw_number W (u_cost u)))]"

section \<open>Reading a journal\<close>

fun purpose_text :: "call_purpose \<Rightarrow> jstring" where
  "purpose_text Preparation = js ''preparation''"
| "purpose_text Compaction_call = js ''compaction''"

definition purpose_of :: "jsval \<Rightarrow> call_purpose option" where
  "purpose_of v =
     (if v = JStr (js ''preparation'') then Some Preparation
      else if v = JStr (js ''compaction'') then Some Compaction_call else None)"

definition started_record :: "call_purpose \<Rightarrow> jstring \<Rightarrow> call_record" where
  "started_record p interval = \<lparr>cr_purpose = p, cr_interval = interval, cr_settled = False, cr_dispatched = None,
     cr_usage = None, cr_complete = None\<rparr>"

definition settled_record :: "bool \<Rightarrow> bool \<Rightarrow> call_usage option \<Rightarrow> call_record \<Rightarrow> call_record" where
  "settled_record dispatched whole usage r = r\<lparr>cr_settled := True, cr_dispatched := Some dispatched,
     cr_complete := Some whole, cr_usage := usage\<rparr>"

definition load_value :: "journal_world \<Rightarrow> jsval \<Rightarrow> call_map \<Rightarrow> call_map option" where
  "load_value W v calls =
     (if \<not> isRecord v \<or> jfield v ''v'' \<noteq> JNum (JInt 1) then None
      else case jfield v ''call'' of
          JStr i \<Rightarrow>
            (case purpose_of (jfield v ''purpose'') of
               Some p \<Rightarrow> (case jfield v ''interval'' of
                   JStr interval \<Rightarrow> Some (obj_put i (started_record p interval) calls)
                 | _ \<Rightarrow> None)
             | None \<Rightarrow> (case (map_of calls i, jfield v ''dispatched'', jfield v ''complete'') of
                   (Some r, JBool dispatched, JBool whole) \<Rightarrow>
                     Some (obj_put i (settled_record dispatched whole (callUsage W (jfield v ''usage'')) r) calls)
                 | _ \<Rightarrow> None))
        | _ \<Rightarrow> None)"

definition load_line :: "journal_world \<Rightarrow> jstring \<Rightarrow> call_map \<Rightarrow> call_map option" where
  "load_line W line calls =
     (if line = [] then Some calls
      else Option.bind (json_parse (read_number (jw_host W)) line) (\<lambda>v. load_value W v calls))"

fun load_lines :: "journal_world \<Rightarrow> jstring list \<Rightarrow> call_map \<Rightarrow> call_map option" where
  "load_lines W [] calls = Some calls"
| "load_lines W (l # ls) calls = Option.bind (load_line W l calls) (load_lines W ls)"

definition whole_lines :: "jstring \<Rightarrow> jstring list" where
  "whole_lines text = (let ls = text_lines text in if last ls \<noteq> [] then butlast ls else ls)"

definition load_text :: "journal_world \<Rightarrow> jstring \<Rightarrow> call_map option" where
  "load_text W text = load_lines W (whole_lines text) []"

text \<open>\<open>load\<close>: a missing file is an empty journal; a read that throws, a file over the bound or an invalid line is not.\<close>

definition load_file :: "journal_world \<Rightarrow> jstring \<Rightarrow> call_store \<Rightarrow> call_map option" where
  "load_file W name st = (case cx_files st name of
       None \<Rightarrow> Some []
     | Some text \<Rightarrow> if jw_unreadable W (cx_tick st) \<or> MAX_JOURNAL_BYTES < byte_length text then None else load_text W text)"

section \<open>Sessions\<close>

definition journal_name :: "journal_world \<Rightarrow> jstring \<Rightarrow> jstring" where
  "journal_name W sessionId = digest (jw_host W) (utf8 sessionId) @ js ''.jsonl''"

definition loaded_journal :: "journal_world \<Rightarrow> jstring \<Rightarrow> call_store \<Rightarrow> session_journal" where
  "loaded_journal W sessionId st =
     (let name = journal_name W sessionId
      in case load_file W name st of
           Some calls \<Rightarrow> \<lparr>sj_name = name, sj_calls = calls, sj_gap = None\<rparr>
         | None \<Rightarrow> \<lparr>sj_name = name, sj_calls = [], sj_gap = Some Unreadable\<rparr>)"

text \<open>At 32 sessions the oldest entry of the map is dropped; hooks made from it keep their journal.\<close>

definition session :: "journal_world \<Rightarrow> jstring \<Rightarrow> call_store \<Rightarrow> nat \<times> call_store" where
  "session W sessionId st = (case map_of (cx_sessions st) sessionId of
       Some a \<Rightarrow> (a, st)
     | None \<Rightarrow>
         (let known = (if 32 \<le> length (cx_sessions st) then tl (cx_sessions st) else cx_sessions st);
              a = length (cx_heap st)
          in (a, st\<lparr>cx_heap := cx_heap st @ [loaded_journal W sessionId st],
                 cx_sessions := known @ [(sessionId, a)], cx_tick := Suc (cx_tick st)\<rparr>)))"

definition put_journal :: "nat \<Rightarrow> (session_journal \<Rightarrow> session_journal) \<Rightarrow> call_store \<Rightarrow> call_store" where
  "put_journal a f st = st\<lparr>cx_heap := (cx_heap st)[a := f (cx_heap st ! a)]\<rparr>"

definition file_text :: "call_store \<Rightarrow> jstring \<Rightarrow> jstring" where
  "file_text st name = (case cx_files st name of None \<Rightarrow> [] | Some text \<Rightarrow> text)"

definition journal_line :: "jsval \<Rightarrow> jstring" where
  "journal_line v = stringify v @ newline"

definition line_part :: "nat \<Rightarrow> bool \<Rightarrow> jsval \<Rightarrow> jstring" where
  "line_part n torn v = take n (journal_line v) @ (if torn then [0xfffd] else [])"

text \<open>
  \<open>append\<close>: whether it returned, and the store. The number of bytes \<open>writeSync\<close> reports is not looked at,
  so that a short write returns like a whole one.
\<close>

definition append_value :: "journal_world \<Rightarrow> jstring \<Rightarrow> jsval \<Rightarrow> call_store \<Rightarrow> bool \<times> call_store" where
  "append_value W name v st = (case jw_append W (cx_tick st) of
       Appended \<Rightarrow> (True, st\<lparr>cx_files := (cx_files st)(name \<mapsto> file_text st name @ journal_line v), cx_tick := Suc (cx_tick st)\<rparr>)
     | Refused \<Rightarrow> (False, st\<lparr>cx_tick := Suc (cx_tick st)\<rparr>)
     | Short n torn \<Rightarrow>
         (True, st\<lparr>cx_files := (cx_files st)(name \<mapsto> file_text st name @ line_part n torn v), cx_tick := Suc (cx_tick st)\<rparr>)
     | Interrupted n torn \<Rightarrow>
         (False, st\<lparr>cx_files := (cx_files st)(name \<mapsto> file_text st name @ line_part n torn v), cx_tick := Suc (cx_tick st)\<rparr>))"

section \<open>The hooks\<close>

fun phase_text :: "call_phase \<Rightarrow> jstring" where
  "phase_text Generate = js ''generate''"
| "phase_text Repair = js ''repair''"

fun outcome_text :: "call_outcome \<Rightarrow> jstring" where
  "outcome_text CallSuccess = js ''success''"
| "outcome_text CallFailed = js ''failed''"
| "outcome_text CallCancelled = js ''cancelled''"

fun effort_text :: "writer_reasoning \<Rightarrow> jstring" where
  "effort_text None = js ''off''"
| "effort_text (Some EffortMinimal) = js ''minimal''"
| "effort_text (Some EffortLow) = js ''low''"
| "effort_text (Some EffortMedium) = js ''medium''"
| "effort_text (Some EffortHigh) = js ''high''"
| "effort_text (Some EffortXhigh) = js ''xhigh''"
| "effort_text (Some EffortMax) = js ''max''"

definition start_value :: "call_purpose \<Rightarrow> jstring \<Rightarrow> jstring \<Rightarrow> dispatch_request \<Rightarrow> jstring \<Rightarrow> jsval" where
  "start_value p interval i req time = obj [(''v'', JNum (JInt 1)), (''call'', JStr i), (''purpose'', JStr (purpose_text p)),
     (''interval'', JStr interval), (''model'', JStr (dr_model req)), (''effort'', JStr (effort_text (dr_writerEffort req))),
     (''step'', JStr (phase_text (dr_phase req))), (''at'', JStr time)]"

definition settle_value :: "journal_world \<Rightarrow> dispatch_result \<Rightarrow> bool \<Rightarrow> jsval" where
  "settle_value W r whole = obj ([(''v'', JNum (JInt 1)), (''call'', JStr (ds_callId r)),
     (''outcome'', JStr (outcome_text (ds_outcome r))), (''dispatched'', JBool (ds_dispatched r)),
     (''complete'', JBool whole), (''ms'', JNum (jw_number W (of_int (ds_elapsedMs r))))] @
     (case ds_usage r of None \<Rightarrow> [] | Some u \<Rightarrow> [(''usage'', usage_json W (fromProvider u))]))"

definition open_hooks :: "journal_world \<Rightarrow> jstring \<Rightarrow> call_purpose \<Rightarrow> jstring \<Rightarrow> call_store \<Rightarrow> call_hook \<times> call_store" where
  "open_hooks W sessionId p interval st = (case session W sessionId st of
       (a, st') \<Rightarrow> (\<lparr>hk_journal = a, hk_purpose = p, hk_interval = interval, hk_open = [], hk_started = 0\<rparr>, st'))"

definition beforeDispatch :: "journal_world \<Rightarrow> dispatch_request \<Rightarrow> call_hook \<Rightarrow> call_store
    \<Rightarrow> (journal_refusal + jstring) \<times> call_hook \<times> call_store" where
  "beforeDispatch W req hk st =
     (let j = cx_heap st ! hk_journal hk;
          optional = (hk_purpose hk = Preparation);
          hk1 = (if optional \<and> sj_gap j = None then hk\<lparr>hk_started := hk_started hk + 1\<rparr> else hk)
      in if optional \<and> (sj_gap j \<noteq> None \<or> PREPARATION_CALLS_PER_ATTEMPT < hk_started hk1)
         then (Inl CONTEXT_PREPARATION_BUDGET, hk1, st)
         else
           (let i = jw_uuid W (cx_tick st);
                (written, st1) = append_value W (sj_name j)
                  (start_value (hk_purpose hk) (hk_interval hk) i req (jw_time W (cx_tick st))) st;
                st2 = (if written then st1 else put_journal (hk_journal hk) (\<lambda>j. j\<lparr>sj_gap := Some Unwritable\<rparr>) st1)
            in if \<not> written \<and> optional then (Inl CONTEXT_PREPARATION_ACCOUNTING, hk1, st2)
               else (Inr i, hk1\<lparr>hk_open := List.insert i (hk_open hk1)\<rparr>,
                     put_journal (hk_journal hk)
                       (\<lambda>j. j\<lparr>sj_calls := obj_put i (started_record (hk_purpose hk) (hk_interval hk)) (sj_calls j)\<rparr>) st2)))"

text \<open>\<open>!result.dispatched || (result.usageComplete ?? result.outcome === "success")\<close>\<close>

definition call_whole :: "dispatch_result \<Rightarrow> bool" where
  "call_whole r \<longleftrightarrow> \<not> ds_dispatched r \<or>
     (case ds_usageComplete r of Some whole \<Rightarrow> whole | None \<Rightarrow> ds_outcome r = CallSuccess)"

definition afterDispatch :: "journal_world \<Rightarrow> dispatch_result \<Rightarrow> call_hook \<Rightarrow> call_store \<Rightarrow> call_hook \<times> call_store" where
  "afterDispatch W r hk st =
     (let j = cx_heap st ! hk_journal hk;
          hk1 = hk\<lparr>hk_open := removeAll (ds_callId r) (hk_open hk)\<rparr>
      in case map_of (sj_calls j) (ds_callId r) of
           None \<Rightarrow> (hk1, st)
         | Some rec \<Rightarrow>
             if ds_callId r \<notin> set (hk_open hk) then (hk1, st)
             else
               (let whole = call_whole r;
                    (written, st1) = append_value W (sj_name j) (settle_value W r whole) st
                in if written
                   then (hk1, put_journal (hk_journal hk) (\<lambda>j. j\<lparr>sj_calls := obj_put (ds_callId r)
                          (settled_record (ds_dispatched r) whole (map_option fromProvider (ds_usage r)) rec) (sj_calls j)\<rparr>) st1)
                   else (hk1, put_journal (hk_journal hk) (\<lambda>j. j\<lparr>sj_gap := Some Unwritable\<rparr>) st1)))"

section \<open>What the session shows\<close>

definition preparedIn :: "journal_world \<Rightarrow> jstring \<Rightarrow> jstring \<Rightarrow> call_store \<Rightarrow> bool \<times> call_store" where
  "preparedIn W sessionId interval st = (case session W sessionId st of
       (a, st') \<Rightarrow> (list_ex (\<lambda>p. cr_purpose (snd p) = Preparation \<and> cr_interval (snd p) = interval) (sj_calls (cx_heap st' ! a)), st'))"

definition writable :: "journal_world \<Rightarrow> jstring \<Rightarrow> call_store \<Rightarrow> bool \<times> call_store" where
  "writable W sessionId st = (case session W sessionId st of (a, st') \<Rightarrow> (sj_gap (cx_heap st' ! a) = None, st'))"

definition journal_summary :: "journal_world \<Rightarrow> jstring \<Rightarrow> call_store \<Rightarrow> call_summary \<times> call_store" where
  "journal_summary W sessionId st = (case session W sessionId st of
       (a, st') \<Rightarrow> (summarizeCalls (map snd (sj_calls (cx_heap st' ! a))) (sj_gap (cx_heap st' ! a)), st'))"

section \<open>Reading lines\<close>

lemma load_lines_append: "load_lines W (a @ b) calls = Option.bind (load_lines W a calls) (load_lines W b)"
  by (induction a arbitrary: calls) (auto split: Option.bind_splits)

lemma load_line_empty [simp]: "load_line W [] calls = Some calls"
  by (simp add: load_line_def)

lemma load_text_complete:
  assumes "complete_text x"
  shows "load_text W x = load_lines W (butlast (text_lines x)) []"
proof -
  have "text_lines x = butlast (text_lines x) @ [[]]"
    using append_butlast_last_id[OF text_lines_not_Nil[of x]] text_lines_complete[OF assms] by simp
  then have "whole_lines x = butlast (text_lines x) @ [[]]"
    using text_lines_complete[OF assms] by (simp add: whole_lines_def)
  then show ?thesis by (simp add: load_text_def load_lines_append split: Option.bind_split)
qed

text \<open>A torn last line is dropped; a whole one is applied to what the lines before it gave.\<close>

lemma load_text_torn: "complete_text x \<Longrightarrow> 0x0a \<notin> set tail \<Longrightarrow> load_text W (x @ tail) = load_text W x"
  by (cases "tail = []") (simp_all add: load_text_complete load_text_def[of W "x @ tail"] whole_lines_def text_lines_torn)

lemma load_text_line:
  "complete_text x \<Longrightarrow> 0x0a \<notin> set l \<Longrightarrow> load_text W (x @ l @ newline) = Option.bind (load_text W x) (load_line W l)"
  by (simp add: load_text_complete[of x] load_text_complete[of "x @ l @ newline"] text_lines_line load_lines_append
      butlast_append split: Option.bind_split)

section \<open>Lines of the journal\<close>

lemma journal_names:
  "index_key (js ''v'') = None" "index_key (js ''call'') = None" "index_key (js ''purpose'') = None"
  "index_key (js ''interval'') = None" "index_key (js ''model'') = None" "index_key (js ''effort'') = None"
  "index_key (js ''step'') = None" "index_key (js ''at'') = None" "index_key (js ''outcome'') = None"
  "index_key (js ''dispatched'') = None" "index_key (js ''complete'') = None" "index_key (js ''ms'') = None"
  "index_key (js ''usage'') = None" "index_key (js ''input'') = None" "index_key (js ''output'') = None"
  "index_key (js ''cacheRead'') = None" "index_key (js ''cacheWrite'') = None"
  "index_key (js ''totalTokens'') = None" "index_key (js ''cost'') = None"
  by code_simp+

definition usage_amounts :: "call_usage \<Rightarrow> rat list" where
  "usage_amounts u = [u_input u, u_output u, u_cacheRead u, u_cacheWrite u, u_totalTokens u, u_cost u]"

text \<open>The JSON number of an amount is read as it was printed; that of a count is the count, and not negative.\<close>

abbreviation number_reads :: "journal_world \<Rightarrow> rat \<Rightarrow> bool" where
  "number_reads W q \<equiv> json_reads (read_number (jw_host W)) (JNum (jw_number W q))"

definition prints_back :: "journal_world \<Rightarrow> rat \<Rightarrow> bool" where
  "prints_back W q \<longleftrightarrow> number_reads W q \<and> jw_amount W (jw_number W q) = q \<and> 0 \<le> q"

definition billable :: "journal_world \<Rightarrow> dispatch_result \<Rightarrow> bool" where
  "billable W r \<longleftrightarrow> number_reads W (of_int (ds_elapsedMs r)) \<and>
     (case ds_usage r of None \<Rightarrow> True | Some u \<Rightarrow> list_all (prints_back W) (usage_amounts (fromProvider u)))"

lemma usage_json_ok: "list_all (prints_back W) (usage_amounts u) \<Longrightarrow>
   json_reads (read_number (jw_host W)) (usage_json W u)"
  by (auto simp: usage_json_def obj_def usage_amounts_def prints_back_def js_object_names journal_names)

lemma callUsage_json: "list_all (prints_back W) (usage_amounts u) \<Longrightarrow> callUsage W (usage_json W u) = Some u"
  by (auto simp: callUsage_def usage_json_def obj_def usage_amounts_def prints_back_def)

lemma start_json_ok: "documented_numbers h \<Longrightarrow> json_reads (read_number h) (start_value p interval i req time)"
  using documented_numbersD[of h 1] by (auto simp: start_value_def obj_def js_object_names journal_names max_safe_integer_def)

lemma settle_json_ok:
  "documented_numbers (jw_host W) \<Longrightarrow> billable W r \<Longrightarrow> json_reads (read_number (jw_host W)) (settle_value W r whole)"
  using documented_numbersD[of "jw_host W" 1] by (auto simp: settle_value_def billable_def obj_def js_object_names journal_names usage_json_ok max_safe_integer_def split: option.splits)

lemma load_line_value:
  assumes "json_reads (read_number (jw_host W)) v"
  shows "load_line W (stringify v) calls = load_value W v calls" and "0x0a \<notin> set (stringify v)"
proof -
  have "json_parse (read_number (jw_host W)) (stringify v) = Some v"
    using assms by (rule json_parse_stringify)
  moreover have "stringify v \<noteq> []" by (rule stringify_first[OF reads_by_ok[OF assms]]) simp
  ultimately show "load_line W (stringify v) calls = load_value W v calls" by (simp add: load_line_def)
  show "0x0a \<notin> set (stringify v)" using line_text_stringify(1)[OF reads_by_ok[OF assms]] by (simp add: line_text_def)
qed

lemma load_start: "load_value W (start_value p interval i req time) calls = Some (obj_put i (started_record p interval) calls)"
  by (cases p) (simp_all add: load_value_def start_value_def obj_def purpose_of_def)

lemma load_settle:
  assumes "billable W r" and "map_of calls (ds_callId r) = Some rec"
  shows "load_value W (settle_value W r whole) calls =
    Some (obj_put (ds_callId r) (settled_record (ds_dispatched r) whole (map_option fromProvider (ds_usage r)) rec) calls)"
proof -
  have "callUsage W (jfield (settle_value W r whole) ''usage'') = map_option fromProvider (ds_usage r)"
    using assms(1) callUsage_json
    by (cases "ds_usage r") (simp_all add: settle_value_def obj_def billable_def callUsage_def[of W JUndef])
  moreover have "jfield (settle_value W r whole) ''v'' = JNum (JInt 1)" "jfield (settle_value W r whole) ''call'' = JStr (ds_callId r)"
    "jfield (settle_value W r whole) ''dispatched'' = JBool (ds_dispatched r)"
    "jfield (settle_value W r whole) ''complete'' = JBool whole" "jfield (settle_value W r whole) ''purpose'' = JUndef"
    "isRecord (settle_value W r whole)"
    by (simp_all add: settle_value_def obj_def split: option.split)
  ultimately show ?thesis using assms(2) by (simp add: load_value_def purpose_of_def)
qed

end
