(* ===== verification/Call_Store_Run.thy ===== *)
theory Call_Store_Run
  imports Call_Store
begin

text \<open>
  Runs of the call journal: any interleaving of opened hooks, dispatches, settlements and reads of several
  sessions, on a disk that may refuse or tear any append but tells when it does. A journal whose file was
  missing or ended in a whole line when the run began is exactly what its file holds while it has no gap, so
  that a restart, also one after a crash inside an append, shows the summary it showed before. A file that
  began with a torn last line does not have this property (last section).
\<close>

section \<open>Operations\<close>

datatype journal_op =
    OpenHooks jstring call_purpose jstring
  | Before nat dispatch_request
  | After nat dispatch_result
  | Look jstring

type_synonym journal_state = "call_store \<times> call_hook list"

text \<open>One call of the journal or of the hooks with the given number; \<open>Look\<close> stands for the three reads.\<close>

fun journal_step :: "journal_world \<Rightarrow> journal_op \<Rightarrow> journal_state \<Rightarrow> journal_state" where
  "journal_step W (OpenHooks s p interval) (st, hs) = (case open_hooks W s p interval st of (hk, st') \<Rightarrow> (st', hs @ [hk]))"
| "journal_step W (Before k req) (st, hs) =
     (if k < length hs then (case beforeDispatch W req (hs ! k) st of (_, hk, st') \<Rightarrow> (st', hs[k := hk])) else (st, hs))"
| "journal_step W (After k r) (st, hs) =
     (if k < length hs then (case afterDispatch W r (hs ! k) st of (hk, st') \<Rightarrow> (st', hs[k := hk])) else (st, hs))"
| "journal_step W (Look s) (st, hs) = (snd (session W s st), hs)"

definition journal_run :: "journal_world \<Rightarrow> journal_op list \<Rightarrow> journal_state \<Rightarrow> journal_state" where
  "journal_run W ops c = fold (journal_step W) ops c"

definition fresh_store :: "(jstring \<Rightarrow> jstring option) \<Rightarrow> nat \<Rightarrow> call_store" where
  "fresh_store files t = \<lparr>cx_files = files, cx_heap = [], cx_sessions = [], cx_tick = t\<rparr>"

text \<open>A restart: the files stay, with what a torn append left of its line; nothing else does.\<close>

definition restarted :: "journal_world \<Rightarrow> jstring \<Rightarrow> jstring \<Rightarrow> call_store \<Rightarrow> call_store" where
  "restarted W s tail st = fresh_store ((cx_files st)(journal_name W s \<mapsto> file_text st (journal_name W s) @ tail)) (cx_tick st)"

section \<open>The invariant\<close>

definition mirrors :: "journal_world \<Rightarrow> jstring \<Rightarrow> call_map \<Rightarrow> bool" where
  "mirrors W text calls \<longleftrightarrow> complete_text text \<and> load_text W text = Some calls"

text \<open>\<open>C\<close>: the sessions of \<open>S\<close> whose file was missing or ended in a whole line before it was loaded.\<close>

definition store_ok_on :: "journal_world \<Rightarrow> jstring set \<Rightarrow> jstring set \<Rightarrow> call_store \<Rightarrow> bool" where
  "store_ok_on W S C st \<longleftrightarrow> C \<subseteq> S \<and>
     fst ` set (cx_sessions st) \<subseteq> S \<and> distinct (map fst (cx_sessions st)) \<and>
     map snd (cx_sessions st) = [0..<length (cx_heap st)] \<and>
     map sj_name (cx_heap st) = map (\<lambda>p. journal_name W (fst p)) (cx_sessions st) \<and>
     (\<forall>j \<in> set (cx_heap st). sj_name j \<in> journal_name W ` C \<longrightarrow> sj_gap j = None \<longrightarrow> mirrors W (file_text st (sj_name j)) (sj_calls j)) \<and>
     (\<forall>s \<in> C - fst ` set (cx_sessions st). complete_text (file_text st (journal_name W s)))"

abbreviation store_ok :: "journal_world \<Rightarrow> jstring set \<Rightarrow> call_store \<Rightarrow> bool" where
  "store_ok W S \<equiv> store_ok_on W S S"

definition state_ok :: "journal_world \<Rightarrow> jstring set \<Rightarrow> jstring set \<Rightarrow> journal_state \<Rightarrow> bool" where
  "state_ok W S C c \<longleftrightarrow> store_ok_on W S C (fst c) \<and> (\<forall>hk \<in> set (snd c). hk_journal hk < length (cx_heap (fst c)))"

text \<open>
  At most 32 sessions, so that none is dropped; their file names do not collide; safe integers print and read
  back; an append that wrote only a part of its line throws.
\<close>

definition no_short_writes :: "journal_world \<Rightarrow> bool" where
  "no_short_writes W \<longleftrightarrow> (\<forall>t n torn. jw_append W t \<noteq> Short n torn)"

definition journal_setting :: "journal_world \<Rightarrow> jstring set \<Rightarrow> bool" where
  "journal_setting W S \<longleftrightarrow> finite S \<and> card S \<le> 32 \<and> inj_on (journal_name W) S \<and> documented_numbers (jw_host W) \<and>
     no_short_writes W"

fun op_ok :: "journal_world \<Rightarrow> jstring set \<Rightarrow> journal_op \<Rightarrow> bool" where
  "op_ok W S (OpenHooks s _ _) = (s \<in> S)"
| "op_ok W S (Before _ _) = True"
| "op_ok W S (After _ r) = billable W r"
| "op_ok W S (Look s) = (s \<in> S)"

lemma complete_mirrors: "mirrors W x calls \<Longrightarrow> complete_text x"
  by (simp add: mirrors_def)

lemma mirrors_line:
  assumes "mirrors W x calls" and "json_reads (read_number (jw_host W)) v" and "load_value W v calls = Some calls'"
  shows "mirrors W (x @ journal_line v) calls'"
  using assms load_text_line[of x "stringify v" W] load_line_value[OF assms(2)]
  by (simp add: mirrors_def journal_line_def)

lemma store_ok_names:
  assumes "journal_setting W S" and "store_ok_on W S C st"
  shows "distinct (map sj_name (cx_heap st))" and "length (cx_sessions st) = length (cx_heap st)"
    and "a < length (cx_heap st) \<Longrightarrow> s \<in> C - fst ` set (cx_sessions st) \<Longrightarrow> journal_name W s \<noteq> sj_name (cx_heap st ! a)"
proof -
  note ok = assms(2)[unfolded store_ok_on_def]
  have inj: "inj_on (journal_name W) S" using assms(1) by (simp add: journal_setting_def)
  have names: "map sj_name (cx_heap st) = map (journal_name W) (map fst (cx_sessions st))" using ok by (simp add: comp_def)
  have sub: "set (map fst (cx_sessions st)) \<subseteq> S" and C: "C \<subseteq> S" using ok by simp_all
  show "distinct (map sj_name (cx_heap st))"
    unfolding names using ok inj_on_subset[OF inj sub] by (simp add: distinct_map comp_inj_on)
  show "length (cx_sessions st) = length (cx_heap st)" using map_eq_imp_length_eq[OF names] by simp
  assume a: "a < length (cx_heap st)" and s: "s \<in> C - fst ` set (cx_sessions st)"
  have "sj_name (cx_heap st ! a) \<in> journal_name W ` fst ` set (cx_sessions st)"
    using a arg_cong[OF names, of set] by (metis image_eqI list.set_map nth_mem)
  then obtain t where t: "t \<in> fst ` set (cx_sessions st)" "sj_name (cx_heap st ! a) = journal_name W t" by blast
  then have "t \<in> S" "t \<noteq> s" using s sub by auto
  then show "journal_name W s \<noteq> sj_name (cx_heap st ! a)" using s C t(2) inj by (auto dest: inj_onD)
qed

lemma store_ok_update:
  assumes "journal_setting W S" and "store_ok_on W S C st" and a: "a < length (cx_heap st)"
    and st': "cx_sessions st' = cx_sessions st" "cx_heap st' = (cx_heap st)[a := j]" "sj_name j = sj_name (cx_heap st ! a)"
      "\<And>n. n \<noteq> sj_name j \<Longrightarrow> file_text st' n = file_text st n"
    and mir: "sj_gap j = None \<Longrightarrow> sj_name j \<in> journal_name W ` C \<Longrightarrow> mirrors W (file_text st' (sj_name j)) (sj_calls j)"
  shows "store_ok_on W S C st'"
proof -
  note ok = assms(2)[unfolded store_ok_on_def]
  note names = store_ok_names[OF assms(1,2)]
  have "map sj_name (cx_heap st') = map sj_name (cx_heap st)"
    using a st'(3) by (simp add: st'(2) map_update list_update_same_conv)
  moreover have "mirrors W (file_text st' (sj_name i)) (sj_calls i)" if i: "i \<in> set (cx_heap st')" "sj_gap i = None" "sj_name i \<in> journal_name W ` C" for i
  proof -
    obtain k where k: "k < length (cx_heap st)" "i = (cx_heap st)[a := j] ! k"
      using i(1) by (auto simp: st'(2) in_set_conv_nth)
    show ?thesis
    proof (cases "k = a")
      case True
      then show ?thesis using k a mir i(2,3) by simp
    next
      case False
      then have "i = cx_heap st ! k" using k by simp
      moreover have "sj_name (cx_heap st ! k) \<noteq> sj_name (cx_heap st ! a)"
        using names(1) False k(1) a nth_eq_iff_index_eq[OF names(1), of k a] by simp
      ultimately show ?thesis using ok i(2,3) k(1) st'(3,4) by simp
    qed
  qed
  moreover have "complete_text (file_text st' (journal_name W s))" if "s \<in> C - fst ` set (cx_sessions st)" for s
    using names(3)[OF a that] st'(3,4) ok that by simp
  ultimately show ?thesis using ok by (simp add: store_ok_on_def st'(1,2))
qed

section \<open>Every operation keeps it\<close>

lemma file_text_simps [simp]:
  "file_text (st\<lparr>cx_heap := hp\<rparr>) n = file_text st n" "file_text (st\<lparr>cx_tick := t\<rparr>) n = file_text st n"
  "file_text (st\<lparr>cx_sessions := ss\<rparr>) n = file_text st n"
  "file_text (st\<lparr>cx_files := (cx_files st)(m \<mapsto> x)\<rparr>) n = (if n = m then x else file_text st n)"
  by (simp_all add: file_text_def)

lemma append_value_simps:
  assumes "append_value W n v st = (written, st')"
  shows "cx_heap st' = cx_heap st" and "cx_sessions st' = cx_sessions st" and "\<And>m. m \<noteq> n \<Longrightarrow> file_text st' m = file_text st m"
    and "no_short_writes W \<Longrightarrow> written \<Longrightarrow> file_text st' n = file_text st n @ journal_line v"
  using assms by (auto simp: append_value_def file_text_def no_short_writes_def split: append_outcome.splits)

lemma put_journal_simps [simp]:
  "cx_sessions (put_journal a f st) = cx_sessions st" "cx_heap (put_journal a f st) = (cx_heap st)[a := f (cx_heap st ! a)]"
  "file_text (put_journal a f st) n = file_text st n" "cx_files (put_journal a f st) = cx_files st"
  by (simp_all add: put_journal_def)

lemma session_ok:
  assumes "journal_setting W S" and "store_ok_on W S C st" and "s \<in> S" and "session W s st = (a, st')"
  shows "store_ok_on W S C st'" and "a < length (cx_heap st')" and "length (cx_heap st) \<le> length (cx_heap st')"
    and "sj_name (cx_heap st' ! a) = journal_name W s" and "map_of (cx_sessions st') s = Some a"
proof -
  note ok = assms(2)[unfolded store_ok_on_def]
  note names = store_ok_names[OF assms(1,2)]
  have "store_ok_on W S C st' \<and> a < length (cx_heap st') \<and> length (cx_heap st) \<le> length (cx_heap st') \<and>
      sj_name (cx_heap st' ! a) = journal_name W s \<and> map_of (cx_sessions st') s = Some a"
  proof (cases "map_of (cx_sessions st) s")
    case (Some b)
    then have b: "(s, b) \<in> set (cx_sessions st)" by (rule map_of_SomeD)
    then obtain k where k: "k < length (cx_sessions st)" "cx_sessions st ! k = (s, b)" by (auto simp: in_set_conv_nth)
    have "map snd (cx_sessions st) ! k = [0..<length (cx_heap st)] ! k" using ok by simp
    then have kb: "k = b" using k names(2) by simp
    have "map sj_name (cx_heap st) ! k = map (\<lambda>p. journal_name W (fst p)) (cx_sessions st) ! k" using ok by simp
    then show ?thesis using Some assms(2,4) k names(2) kb by (simp add: session_def)
  next
    case None
    then have new: "s \<notin> fst ` set (cx_sessions st)" by (simp add: map_of_eq_None_iff)
    have "card (fst ` set (cx_sessions st)) = length (cx_sessions st)"
      using ok distinct_card[of "map fst (cx_sessions st)"] by simp
    moreover have "fst ` set (cx_sessions st) \<subset> S" using ok new assms(3) by auto
    ultimately have "length (cx_sessions st) < 32"
      using assms(1) psubset_card_mono[of S "fst ` set (cx_sessions st)"] by (simp add: journal_setting_def)
    then have st': "a = length (cx_heap st)" "st' = st\<lparr>cx_heap := cx_heap st @ [loaded_journal W s st],
        cx_sessions := cx_sessions st @ [(s, a)], cx_tick := Suc (cx_tick st)\<rparr>"
      using assms(4) None by (auto simp: session_def Let_def)
    have name: "sj_name (loaded_journal W s st) = journal_name W s"
      by (simp add: loaded_journal_def Let_def split: option.split)
    have "mirrors W (file_text st (journal_name W s)) (sj_calls (loaded_journal W s st))" if held: "sj_gap (loaded_journal W s st) = None" "journal_name W s \<in> journal_name W ` C"
    proof -
      obtain u where u: "u \<in> C" "journal_name W s = journal_name W u" using held(2) by blast
      moreover have "u \<in> S" using u(1) ok by blast
      ultimately have "s \<in> C" using assms(1,3) by (auto simp: journal_setting_def dest: inj_onD)
      then have "complete_text (file_text st (journal_name W s))" using ok new by simp
      then show ?thesis using held(1)
        by (auto simp: mirrors_def loaded_journal_def load_file_def file_text_def Let_def load_text_def whole_lines_def
            split: option.splits if_splits)
    qed
    then have "store_ok_on W S C st'"
      using ok new assms(3) name by (auto simp: store_ok_on_def st')
    then show ?thesis using name new by (simp add: st' map_add_def map_of_append None del: map_of_eq_None_iff)
  qed
  then show "store_ok_on W S C st'" "a < length (cx_heap st')" "length (cx_heap st) \<le> length (cx_heap st')"
    "sj_name (cx_heap st' ! a) = journal_name W s" "map_of (cx_sessions st') s = Some a" by simp_all
qed

lemma beforeDispatch_cases:
  assumes "beforeDispatch W req hk st = (res, hk', st')"
  obtains (refused) "st' = st" "res = Inl CONTEXT_PREPARATION_BUDGET" "hk_journal hk' = hk_journal hk"
  | (failed) st1 v where "append_value W (sj_name (cx_heap st ! hk_journal hk)) v st = (False, st1)" "hk_journal hk' = hk_journal hk"
      "st' = put_journal (hk_journal hk) (\<lambda>j. j\<lparr>sj_gap := Some Unwritable\<rparr>) st1"
      "hk_purpose hk = Preparation" "res = Inl CONTEXT_PREPARATION_ACCOUNTING"
  | (unrecorded) st1 v i f where "append_value W (sj_name (cx_heap st ! hk_journal hk)) v st = (False, st1)" "hk_journal hk' = hk_journal hk"
      "st' = put_journal (hk_journal hk) f (put_journal (hk_journal hk) (\<lambda>j. j\<lparr>sj_gap := Some Unwritable\<rparr>) st1)"
      "\<And>j. sj_name (f j) = sj_name j \<and> sj_gap (f j) = sj_gap j" "hk_purpose hk \<noteq> Preparation" "res = Inr i"
  | (recorded) st1 i time where "append_value W (sj_name (cx_heap st ! hk_journal hk))
        (start_value (hk_purpose hk) (hk_interval hk) i req time) st = (True, st1)" "hk_journal hk' = hk_journal hk"
      "st' = put_journal (hk_journal hk)
         (\<lambda>j. j\<lparr>sj_calls := obj_put i (started_record (hk_purpose hk) (hk_interval hk)) (sj_calls j)\<rparr>) st1"
      "i = jw_uuid W (cx_tick st)" "res = Inr i" "hk_open hk' = List.insert i (hk_open hk)"
      "hk_purpose hk = Preparation \<longrightarrow> sj_gap (cx_heap st ! hk_journal hk) = None \<and> hk_started hk' = Suc (hk_started hk) \<and>
         hk_started hk' \<le> PREPARATION_CALLS_PER_ATTEMPT"
      "hk_purpose hk' = hk_purpose hk" "hk_interval hk' = hk_interval hk"
proof -
  let ?v = "start_value (hk_purpose hk) (hk_interval hk) (jw_uuid W (cx_tick st)) req (jw_time W (cx_tick st))"
  obtain written st1 where app: "append_value W (sj_name (cx_heap st ! hk_journal hk)) ?v st = (written, st1)"
    by (cases "append_value W (sj_name (cx_heap st ! hk_journal hk)) ?v st")
  let ?over = "hk_purpose hk = Preparation \<and> (sj_gap (cx_heap st ! hk_journal hk) \<noteq> None \<or>
      PREPARATION_CALLS_PER_ATTEMPT < Suc (hk_started hk))"
  consider "?over" | "\<not> ?over" "\<not> written" "hk_purpose hk = Preparation" | "\<not> ?over" "\<not> written" "hk_purpose hk \<noteq> Preparation"
    | "\<not> ?over" "written" by blast
  then show ?thesis
  proof cases
    case 1
    then show ?thesis using assms by (intro refused) (auto simp: beforeDispatch_def Let_def split: if_splits prod.splits)
  next
    case 2
    then show ?thesis using assms app by (intro failed[of ?v st1]) (auto simp: beforeDispatch_def Let_def)
  next
    case 3
    then show ?thesis using assms app
      by (intro unrecorded[of ?v st1 "\<lambda>j. j\<lparr>sj_calls := obj_put (jw_uuid W (cx_tick st)) (started_record (hk_purpose hk) (hk_interval hk)) (sj_calls j)\<rparr>"])
        (auto simp: beforeDispatch_def Let_def)
  next
    case 4
    then show ?thesis using assms app
      by (intro recorded[of "jw_uuid W (cx_tick st)" "jw_time W (cx_tick st)" st1]) (auto simp: beforeDispatch_def Let_def split: if_splits)
  qed
qed

lemma beforeDispatch_ok:
  assumes "journal_setting W S" and "store_ok_on W S C st" and "hk_journal hk < length (cx_heap st)"
    and "beforeDispatch W req hk st = (res, hk', st')"
  shows "store_ok_on W S C st' \<and> length (cx_heap st') = length (cx_heap st) \<and> hk_journal hk' = hk_journal hk"
  using assms(4)
proof (cases rule: beforeDispatch_cases)
  case refused
  then show ?thesis using assms(2) by simp
next
  case (failed st1 v)
  have "store_ok_on W S C st'"
    by (rule store_ok_update[OF assms(1-3), where j = "(cx_heap st ! hk_journal hk)\<lparr>sj_gap := Some Unwritable\<rparr>"])
      (simp_all add: failed append_value_simps[OF failed(1)])
  then show ?thesis by (simp add: failed append_value_simps[OF failed(1)])
next
  case (unrecorded st1 v i f)
  have "store_ok_on W S C st'"
    using assms(3)
    by (intro store_ok_update[OF assms(1-3), where j = "f ((cx_heap st ! hk_journal hk)\<lparr>sj_gap := Some Unwritable\<rparr>)"])
      (simp_all add: unrecorded append_value_simps[OF unrecorded(1)])
  then show ?thesis by (simp add: unrecorded append_value_simps[OF unrecorded(1)])
next
  case (recorded st1 i time)
  let ?j = "cx_heap st ! hk_journal hk" and ?v = "start_value (hk_purpose hk) (hk_interval hk) i req time"
  let ?calls = "obj_put i (started_record (hk_purpose hk) (hk_interval hk)) (sj_calls ?j)"
  have "mirrors W (file_text st (sj_name ?j) @ journal_line ?v) ?calls" if "sj_gap ?j = None" "sj_name ?j \<in> journal_name W ` C"
    using assms(1-3) that
    by (intro mirrors_line[OF _ start_json_ok load_start]) (simp_all add: store_ok_on_def journal_setting_def)
  then have "store_ok_on W S C st'"
    using assms(1) by (intro store_ok_update[OF assms(1-3), where j = "?j\<lparr>sj_calls := ?calls\<rparr>"])
      (simp_all add: journal_setting_def recorded append_value_simps[OF recorded(1)])
  then show ?thesis by (simp add: recorded append_value_simps[OF recorded(1)])
qed

lemma afterDispatch_cases:
  assumes "afterDispatch W r hk st = (hk', st')"
  obtains (ignored) "st' = st"
  | (failed) st1 where "append_value W (sj_name (cx_heap st ! hk_journal hk)) (settle_value W r (call_whole r)) st = (False, st1)"
      "st' = put_journal (hk_journal hk) (\<lambda>j. j\<lparr>sj_gap := Some Unwritable\<rparr>) st1"
  | (settled) st1 rec where "append_value W (sj_name (cx_heap st ! hk_journal hk)) (settle_value W r (call_whole r)) st = (True, st1)"
      "map_of (sj_calls (cx_heap st ! hk_journal hk)) (ds_callId r) = Some rec"
      "st' = put_journal (hk_journal hk) (\<lambda>j. j\<lparr>sj_calls := obj_put (ds_callId r)
         (settled_record (ds_dispatched r) (call_whole r) (map_option fromProvider (ds_usage r)) rec) (sj_calls j)\<rparr>) st1"
proof -
  let ?v = "settle_value W r (call_whole r)"
  obtain written st1 where app: "append_value W (sj_name (cx_heap st ! hk_journal hk)) ?v st = (written, st1)"
    by (cases "append_value W (sj_name (cx_heap st ! hk_journal hk)) ?v st")
  consider "map_of (sj_calls (cx_heap st ! hk_journal hk)) (ds_callId r) = None \<or> ds_callId r \<notin> set (hk_open hk)"
    | rec where "map_of (sj_calls (cx_heap st ! hk_journal hk)) (ds_callId r) = Some rec" "ds_callId r \<in> set (hk_open hk)" "\<not> written"
    | rec where "map_of (sj_calls (cx_heap st ! hk_journal hk)) (ds_callId r) = Some rec" "ds_callId r \<in> set (hk_open hk)" "written"
    by fastforce
  then show ?thesis
  proof cases
    case 1
    then show ?thesis using assms by (intro ignored) (auto simp: afterDispatch_def Let_def split: option.splits)
  next
    case 2
    then show ?thesis using assms app by (intro failed[of st1]) (auto simp: afterDispatch_def Let_def)
  next
    case 3
    then show ?thesis using assms app by (intro settled[of st1]) (auto simp: afterDispatch_def Let_def)
  qed
qed

lemma afterDispatch_hook: "afterDispatch W r hk st = (hk', st') \<Longrightarrow> hk' = hk\<lparr>hk_open := removeAll (ds_callId r) (hk_open hk)\<rparr>"
  by (auto simp: afterDispatch_def Let_def split: option.splits if_splits prod.splits)

lemma afterDispatch_ok:
  assumes "journal_setting W S" and "store_ok_on W S C st" and "hk_journal hk < length (cx_heap st)" and "billable W r"
    and "afterDispatch W r hk st = (hk', st')"
  shows "store_ok_on W S C st' \<and> length (cx_heap st') = length (cx_heap st) \<and> hk_journal hk' = hk_journal hk"
  using assms(5)
proof (cases rule: afterDispatch_cases)
  case ignored
  then show ?thesis using assms(2) afterDispatch_hook[OF assms(5)] by simp
next
  case (failed st1)
  have "store_ok_on W S C st'"
    by (rule store_ok_update[OF assms(1-3), where j = "(cx_heap st ! hk_journal hk)\<lparr>sj_gap := Some Unwritable\<rparr>"])
      (simp_all add: failed append_value_simps[OF failed(1)])
  then show ?thesis by (simp add: failed append_value_simps[OF failed(1)] afterDispatch_hook[OF assms(5)])
next
  case (settled st1 rec)
  let ?j = "cx_heap st ! hk_journal hk" and ?done = "call_whole r"
  let ?calls = "obj_put (ds_callId r) (settled_record (ds_dispatched r) ?done (map_option fromProvider (ds_usage r)) rec) (sj_calls ?j)"
  have "mirrors W (file_text st (sj_name ?j) @ journal_line (settle_value W r ?done)) ?calls" if "sj_gap ?j = None" "sj_name ?j \<in> journal_name W ` C"
    using assms(1-3) that
    by (intro mirrors_line[OF _ settle_json_ok[OF _ assms(4)] load_settle[OF assms(4) settled(2)]])
      (simp_all add: store_ok_on_def journal_setting_def)
  then have "store_ok_on W S C st'"
    using assms(1) by (intro store_ok_update[OF assms(1-3), where j = "?j\<lparr>sj_calls := ?calls\<rparr>"])
      (simp_all add: journal_setting_def settled append_value_simps[OF settled(1)])
  then show ?thesis by (simp add: settled append_value_simps[OF settled(1)] afterDispatch_hook[OF assms(5)])
qed

lemma journal_step_ok:
  assumes "journal_setting W S" and "state_ok W S C c" and "op_ok W S op"
  shows "state_ok W S C (journal_step W op c)"
proof -
  obtain st hs where c: "c = (st, hs)" by (cases c)
  have st: "store_ok_on W S C st" and hs: "\<forall>hk \<in> set hs. hk_journal hk < length (cx_heap st)"
    using assms(2) by (simp_all add: state_ok_def c)
  show ?thesis
  proof (cases op)
    case (OpenHooks s p interval)
    obtain a st' where a: "session W s st = (a, st')" by (cases "session W s st")
    from session_ok[OF assms(1) st _ a] assms(3) OpenHooks hs show ?thesis
      by (fastforce simp: c state_ok_def open_hooks_def a)
  next
    case (Before k req)
    then show ?thesis using st hs assms(1)
      by (auto simp: c state_ok_def set_update_memI dest!: beforeDispatch_ok[rotated 3] set_update_subset_insert[THEN subsetD] split: prod.split)
  next
    case (After k r)
    then show ?thesis using st hs assms(1,3)
      by (auto simp: c state_ok_def dest!: afterDispatch_ok[rotated 4] set_update_subset_insert[THEN subsetD] split: prod.split)
  next
    case (Look s)
    obtain a st' where a: "session W s st = (a, st')" by (cases "session W s st")
    from session_ok[OF assms(1) st _ a] assms(3) Look hs show ?thesis by (fastforce simp: c state_ok_def a)
  qed
qed

lemma journal_run_snoc: "journal_run W (ops @ [op]) c = journal_step W op (journal_run W ops c)"
  by (simp add: journal_run_def)

lemma journal_run_ok:
  assumes "journal_setting W S" and "state_ok W S C c" and "list_all (op_ok W S) ops"
  shows "state_ok W S C (journal_run W ops c)"
  using assms(3)
proof (induction ops rule: rev_induct)
  case Nil
  then show ?case using assms(2) by (simp add: journal_run_def)
next
  case (snoc op ops)
  then show ?case using journal_step_ok[OF assms(1)] by (simp add: journal_run_snoc)
qed

text \<open>What a run found: no file, or one that ends in a whole line.\<close>

definition found_whole :: "(jstring \<Rightarrow> jstring option) \<Rightarrow> jstring \<Rightarrow> bool" where
  "found_whole files name = (case files name of None \<Rightarrow> True | Some x \<Rightarrow> complete_text x)"

lemma found_whole_text: "found_whole files n \<longleftrightarrow> complete_text (file_text (fresh_store files t) n)"
  by (simp add: found_whole_def fresh_store_def file_text_def complete_text_def split: option.split)

lemma fresh_store_ok: "C \<subseteq> S \<Longrightarrow> \<forall>s \<in> C. found_whole files (journal_name W s) \<Longrightarrow> state_ok W S C (fresh_store files t, [])"
  unfolding found_whole_text[where t = t] by (simp add: state_ok_def store_ok_on_def) (simp add: fresh_store_def)

lemma store_ok_mirrors:
  assumes "store_ok_on W S C st" and "a < length (cx_heap st)" and "sj_name (cx_heap st ! a) = journal_name W s" and "s \<in> C"
    and "sj_gap (cx_heap st ! a) = None"
  shows "mirrors W (file_text st (journal_name W s)) (sj_calls (cx_heap st ! a))"
  using assms by (metis (no_types, lifting) image_eqI nth_mem store_ok_on_def)

section \<open>Files only grow\<close>

text \<open>Files only get longer, journals stay where they are and hooks keep their journal and purpose.\<close>

definition grows :: "journal_state \<Rightarrow> journal_state \<Rightarrow> bool" where
  "grows c c' \<longleftrightarrow>
     (\<forall>n. \<exists>y. file_text (fst c') n = file_text (fst c) n @ y) \<and>
     length (cx_heap (fst c)) \<le> length (cx_heap (fst c')) \<and>
     (\<forall>a < length (cx_heap (fst c)). sj_name (cx_heap (fst c') ! a) = sj_name (cx_heap (fst c) ! a)) \<and>
     length (snd c) \<le> length (snd c') \<and>
     (\<forall>k < length (snd c). hk_journal (snd c' ! k) = hk_journal (snd c ! k) \<and> hk_purpose (snd c' ! k) = hk_purpose (snd c ! k) \<and>
        hk_interval (snd c' ! k) = hk_interval (snd c ! k) \<and> hk_started (snd c ! k) \<le> hk_started (snd c' ! k))"

lemma append_value_grows:
  "append_value W n v st = (written, st') \<Longrightarrow> \<exists>y. file_text st' m = file_text st m @ y"
  by (auto simp: append_value_def file_text_def split: append_outcome.splits)

lemma beforeDispatch_hook:
  "beforeDispatch W req hk st = (res, hk', st') \<Longrightarrow> hk_purpose hk' = hk_purpose hk \<and> hk_interval hk' = hk_interval hk \<and>
    hk_journal hk' = hk_journal hk \<and> hk_started hk \<le> hk_started hk'"
  by (auto simp: beforeDispatch_def Let_def split: if_splits prod.splits)

lemma sj_name_update:
  "a < length xs \<Longrightarrow> sj_name j = sj_name (xs ! b) \<Longrightarrow> sj_name (xs[b := j] ! a) = sj_name (xs ! a)"
  by (cases "b = a") simp_all

lemma beforeDispatch_grows:
  assumes "beforeDispatch W req hk st = (res, hk', st')"
  shows "(\<exists>y. file_text st' m = file_text st m @ y) \<and> length (cx_heap st') = length (cx_heap st) \<and>
    (\<forall>a < length (cx_heap st). sj_name (cx_heap st' ! a) = sj_name (cx_heap st ! a))"
  using assms
proof (cases rule: beforeDispatch_cases)
  case (failed st1 v)
  from append_value_grows[OF this(1), of m] show ?thesis
    by (auto simp: failed append_value_simps[OF failed(1)] sj_name_update)
next
  case (unrecorded st1 v i f)
  from append_value_grows[OF this(1), of m] show ?thesis
    by (cases "hk_journal hk < length (cx_heap st)")
      (auto simp: unrecorded append_value_simps[OF unrecorded(1)] sj_name_update)
next
  case (recorded st1 i time)
  from append_value_grows[OF this(1), of m] show ?thesis
    by (auto simp: recorded append_value_simps[OF recorded(1)] sj_name_update)
qed simp

lemma afterDispatch_grows:
  assumes "afterDispatch W r hk st = (hk', st')"
  shows "(\<exists>y. file_text st' m = file_text st m @ y) \<and> length (cx_heap st') = length (cx_heap st) \<and>
    (\<forall>a < length (cx_heap st). sj_name (cx_heap st' ! a) = sj_name (cx_heap st ! a))"
  using assms
proof (cases rule: afterDispatch_cases)
  case (failed st1)
  from append_value_grows[OF this(1), of m] show ?thesis
    by (auto simp: failed append_value_simps[OF failed(1)] sj_name_update)
next
  case (settled st1 rec)
  from append_value_grows[OF this(1), of m] show ?thesis
    by (auto simp: settled append_value_simps[OF settled(1)] sj_name_update)
qed simp

lemma session_grows:
  "session W s st = (a, st') \<Longrightarrow> (\<forall>n. file_text st' n = file_text st n) \<and> length (cx_heap st) \<le> length (cx_heap st') \<and>
    (\<forall>a < length (cx_heap st). cx_heap st' ! a = cx_heap st ! a)"
  by (auto simp: session_def Let_def nth_append split: option.splits)

lemma journal_step_grows: "grows c (journal_step W op c)"
proof -
  obtain st hs where c: "c = (st, hs)" by (cases c)
  show ?thesis
  proof (cases op)
    case (OpenHooks s p interval)
    obtain a st' where "session W s st = (a, st')" by (cases "session W s st")
    with session_grows[OF this] OpenHooks show ?thesis by (simp add: grows_def c open_hooks_def nth_append)
  next
    case (Before k req)
    obtain res hk st' where b: "beforeDispatch W req (hs ! k) st = (res, hk, st')" by (metis prod_cases3)
    from beforeDispatch_grows[OF b] beforeDispatch_hook[OF b] Before show ?thesis
      by (auto simp: grows_def c b nth_list_update)
  next
    case (After k r)
    obtain hk st' where b: "afterDispatch W r (hs ! k) st = (hk, st')" by (metis prod.exhaust)
    from afterDispatch_grows[OF b] afterDispatch_hook[OF b] After show ?thesis
      by (auto simp: grows_def c b nth_list_update)
  next
    case (Look s)
    obtain a st' where "session W s st = (a, st')" by (cases "session W s st")
    with session_grows[OF this] Look show ?thesis by (simp add: grows_def c)
  qed
qed

section \<open>The identities handed out\<close>

text \<open>The identities \<open>beforeDispatch\<close> returned in a run, with the hooks they came from.\<close>

fun step_ids :: "journal_world \<Rightarrow> journal_op \<Rightarrow> journal_state \<Rightarrow> (nat \<times> jstring) list" where
  "step_ids W (Before k req) (st, hs) =
     (if k < length hs then (case fst (beforeDispatch W req (hs ! k) st) of Inl _ \<Rightarrow> [] | Inr i \<Rightarrow> [(k, i)]) else [])"
| "step_ids W _ _ = []"

fun run_ids :: "journal_world \<Rightarrow> journal_op list \<Rightarrow> journal_state \<Rightarrow> (nat \<times> jstring) list" where
  "run_ids W [] c = []"
| "run_ids W (op # ops) c = step_ids W op c @ run_ids W ops (journal_step W op c)"

lemma run_ids_snoc: "run_ids W (ops @ [op]) c = run_ids W ops c @ step_ids W op (journal_run W ops c)"
  by (induction ops arbitrary: c) (simp_all add: journal_run_def)

text \<open>The start line of an identity is in the text of a file; in one found \<open>whole\<close> it is a line of its own.\<close>

definition recorded_start :: "bool \<Rightarrow> jstring \<Rightarrow> jstring \<Rightarrow> jstring \<Rightarrow> bool" where
  "recorded_start whole text interval i \<longleftrightarrow> (\<exists>x req time y.
     text = x @ journal_line (start_value Preparation interval i req time) @ y \<and> (if whole then complete_text x else True))"

lemma recorded_start_grows: "recorded_start whole x interval i \<Longrightarrow> recorded_start whole (x @ y) interval i"
  unfolding recorded_start_def by (metis append.assoc)

text \<open>Every identity of optional hooks counts as started and is recorded.\<close>

definition ids_ok :: "jstring set \<Rightarrow> (nat \<times> jstring) list \<Rightarrow> journal_state \<Rightarrow> bool" where
  "ids_ok N ids c \<longleftrightarrow>
     (\<forall>p \<in> set ids. fst p < length (snd c)) \<and>
     (\<forall>k < length (snd c). hk_purpose (snd c ! k) = Preparation \<longrightarrow>
        length (filter (\<lambda>p. fst p = k) ids) \<le> min (hk_started (snd c ! k)) PREPARATION_CALLS_PER_ATTEMPT) \<and>
     (\<forall>p \<in> set ids. hk_purpose (snd c ! fst p) = Preparation \<longrightarrow>
        (let n = sj_name (cx_heap (fst c) ! hk_journal (snd c ! fst p)) in
         recorded_start (n \<in> N) (file_text (fst c) n) (hk_interval (snd c ! fst p)) (snd p)))"

text \<open>A step that hands out nothing to optional hooks.\<close>

lemma ids_ok_grows:
  assumes "ids_ok N ids c" and "grows c c'" and "\<forall>hk \<in> set (snd c). hk_journal hk < length (cx_heap (fst c))"
  shows "ids_ok N ids c'"
proof -
  note ok = assms(1)[unfolded ids_ok_def] and g = assms(2)[unfolded grows_def]
  have "length (filter (\<lambda>p. fst p = k) ids) \<le> min (hk_started (snd c' ! k)) PREPARATION_CALLS_PER_ATTEMPT"
    if "k < length (snd c')" "hk_purpose (snd c' ! k) = Preparation" for k
  proof (cases "k < length (snd c)")
    case True
    then have "length (filter (\<lambda>p. fst p = k) ids) \<le> min (hk_started (snd c ! k)) PREPARATION_CALLS_PER_ATTEMPT"
      using ok g that(2) by simp
    moreover have "hk_started (snd c ! k) \<le> hk_started (snd c' ! k)" using g True by blast
    ultimately show ?thesis by simp
  next
    case False
    then have "\<forall>p \<in> set ids. fst p \<noteq> k" using ok by auto
    then show ?thesis by (simp add: filter_empty_conv)
  qed
  moreover have "recorded_start (sj_name (cx_heap (fst c') ! hk_journal (snd c' ! fst p)) \<in> N)
      (file_text (fst c') (sj_name (cx_heap (fst c') ! hk_journal (snd c' ! fst p)))) (hk_interval (snd c' ! fst p)) (snd p)"
    if p: "p \<in> set ids" "hk_purpose (snd c' ! fst p) = Preparation" for p
  proof -
    have k: "fst p < length (snd c)" using ok p(1) by blast
    then have same: "hk_journal (snd c' ! fst p) = hk_journal (snd c ! fst p)" "hk_purpose (snd c' ! fst p) = hk_purpose (snd c ! fst p)"
      "hk_interval (snd c' ! fst p) = hk_interval (snd c ! fst p)" using g by blast+
    have "hk_journal (snd c ! fst p) < length (cx_heap (fst c))" using assms(3) k by simp
    then have name: "sj_name (cx_heap (fst c') ! hk_journal (snd c' ! fst p)) = sj_name (cx_heap (fst c) ! hk_journal (snd c ! fst p))"
      using g same(1) by simp
    obtain y where "file_text (fst c') (sj_name (cx_heap (fst c) ! hk_journal (snd c ! fst p))) =
        file_text (fst c) (sj_name (cx_heap (fst c) ! hk_journal (snd c ! fst p))) @ y" using g by blast
    then show ?thesis using ok p same name by (auto simp: Let_def intro: recorded_start_grows)
  qed
  ultimately show ?thesis using ok g unfolding ids_ok_def Let_def by (meson less_le_trans)
qed

lemma step_ids_recorded:
  assumes "journal_setting W S" and "state_ok W S C (st, hs)" and "ids_ok (journal_name W ` C) ids (st, hs)" and "k < length hs"
    and b: "beforeDispatch W req (hs ! k) st = (Inr i, hk, st')" and "hk_purpose (hs ! k) = Preparation"
  shows "Suc (length (filter (\<lambda>p. fst p = k) ids)) \<le> min (hk_started hk) PREPARATION_CALLS_PER_ATTEMPT"
    and "recorded_start (sj_name (cx_heap st ! hk_journal (hs ! k)) \<in> journal_name W ` C)
      (file_text st' (sj_name (cx_heap st ! hk_journal (hs ! k)))) (hk_interval (hs ! k)) i"
proof -
  have a: "hk_journal (hs ! k) < length (cx_heap st)" using assms(2,4) by (simp add: state_ok_def)
  have count: "length (filter (\<lambda>p. fst p = k) ids) \<le> min (hk_started (hs ! k)) PREPARATION_CALLS_PER_ATTEMPT"
    using assms(3,4,6) by (simp add: ids_ok_def)
  from b show "Suc (length (filter (\<lambda>p. fst p = k) ids)) \<le> min (hk_started hk) PREPARATION_CALLS_PER_ATTEMPT"
    by (cases rule: beforeDispatch_cases) (use assms(6) count in auto)
  from b show "recorded_start (sj_name (cx_heap st ! hk_journal (hs ! k)) \<in> journal_name W ` C)
      (file_text st' (sj_name (cx_heap st ! hk_journal (hs ! k)))) (hk_interval (hs ! k)) i"
  proof (cases rule: beforeDispatch_cases)
    case (recorded st1 i' time)
    have "complete_text (file_text st (sj_name (cx_heap st ! hk_journal (hs ! k))))"
      if "sj_name (cx_heap st ! hk_journal (hs ! k)) \<in> journal_name W ` C"
      using recorded(7) assms(2,6) a that by (auto simp: state_ok_def store_ok_on_def mirrors_def)
    moreover have "file_text st' (sj_name (cx_heap st ! hk_journal (hs ! k))) = file_text st (sj_name (cx_heap st ! hk_journal (hs ! k))) @
        journal_line (start_value Preparation (hk_interval (hs ! k)) i req time) @ []"
      using append_value_simps(4)[OF recorded(1)] assms(1) recorded(3,5) assms(6) by (simp add: journal_setting_def)
    ultimately show ?thesis unfolding recorded_start_def
      by (intro exI[of _ "file_text st (sj_name (cx_heap st ! hk_journal (hs ! k)))"] exI[of _ req] exI[of _ time] exI[of _ "[]"]) simp
  qed (use assms(6) in auto)
qed

lemma step_ids_ok:
  assumes "journal_setting W S" and "state_ok W S C c" and "ids_ok (journal_name W ` C) ids c"
  shows "ids_ok (journal_name W ` C) (ids @ step_ids W op c) (journal_step W op c)"
proof -
  obtain st hs where c: "c = (st, hs)" by (cases c)
  have old: "ids_ok (journal_name W ` C) ids (journal_step W op c)"
    using assms by (intro ids_ok_grows[OF assms(3) journal_step_grows]) (simp add: state_ok_def)
  show ?thesis
  proof (cases "step_ids W op c = []")
    case False
    then obtain k req where op: "op = Before k req" and k: "k < length hs"
      by (cases op) (auto simp: c split: if_splits)
    obtain res hk st' where b: "beforeDispatch W req (hs ! k) st = (res, hk, st')" by (metis prod_cases3)
    then obtain i where i: "res = Inr i" using False by (auto simp: c op k split: sum.splits)
    have step: "journal_step W op c = (st', hs[k := hk])" and ids: "step_ids W op c = [(k, i)]"
      using b k by (simp_all add: c op i)
    note same = beforeDispatch_hook[OF b] beforeDispatch_grows[OF b]
    show ?thesis
    proof (cases "hk_purpose (hs ! k) = Preparation")
      case True
      note recorded = step_ids_recorded[OF assms(1) assms(2)[unfolded c] assms(3)[unfolded c] k b[unfolded i] True]
      have new: "length (filter (\<lambda>p. fst p = j) (ids @ [(k, i)])) \<le> min (hk_started (hs[k := hk] ! j)) PREPARATION_CALLS_PER_ATTEMPT"
        if "j < length hs" "hk_purpose (hs[k := hk] ! j) = Preparation" for j
        using old that k recorded(1) unfolding step ids_ok_def by (cases "j = k") (auto dest: spec[of _ j])
      have "recorded_start (sj_name (cx_heap st' ! hk_journal (hs[k := hk] ! k)) \<in> journal_name W ` C)
          (file_text st' (sj_name (cx_heap st' ! hk_journal (hs[k := hk] ! k)))) (hk_interval (hs[k := hk] ! k)) i"
        using recorded k same assms(2) by (simp add: state_ok_def c)
      with new show ?thesis using old k unfolding step ids ids_ok_def by auto
    next
      case False
      then show ?thesis using old k same unfolding step ids ids_ok_def by (auto simp: nth_list_update)
    qed
  qed (use old in simp)
qed

lemma run_ids_ok:
  assumes "journal_setting W S" and "C \<subseteq> S" and "\<forall>s \<in> C. found_whole files (journal_name W s)"
    and "list_all (op_ok W S) ops"
  shows "ids_ok (journal_name W ` C) (run_ids W ops (fresh_store files t, [])) (journal_run W ops (fresh_store files t, []))"
  using assms(4)
proof (induction ops rule: rev_induct)
  case Nil
  then show ?case by (simp add: ids_ok_def journal_run_def)
next
  case (snoc op ops)
  then have "state_ok W S C (journal_run W ops (fresh_store files t, []))"
    by (intro journal_run_ok[OF assms(1) fresh_store_ok[OF assms(2,3)]]) simp
  from step_ids_ok[OF assms(1) this] snoc show ?case by (simp add: run_ids_snoc journal_run_snoc)
qed

lemma restarted_summary:
  assumes "mirrors W (file_text st (journal_name W s)) calls" and "0x0a \<notin> set tail"
    and "byte_length (file_text st (journal_name W s) @ tail) \<le> MAX_JOURNAL_BYTES" and "\<not> jw_unreadable W (cx_tick st)"
  shows "fst (journal_summary W s (restarted W s tail st)) = summarizeCalls (map snd calls) None"
proof -
  have "load_text W (file_text st (journal_name W s) @ tail) = Some calls"
    using assms(1,2) by (simp add: load_text_torn mirrors_def)
  then show ?thesis using assms(3,4)
    by (simp add: journal_summary_def session_def restarted_def fresh_store_def Let_def loaded_journal_def load_file_def)
qed

section \<open>Properties\<close>

text \<open>
  C11: \<^bold>\<open>The journal survives a crash.\<close> Take any interleaving of opened hooks, dispatches, settlements and
  reads of up to 32 sessions, appends that are refused or torn included, as long as a torn append throws
  (\<open>no_short_writes\<close>) and settled amounts print and read back (\<open>op_ok\<close>). For a session whose file was missing
  or ended in a whole line when the run began and whose journal has no gap, a restart, also one that finds a
  torn line behind the last whole one, shows the summary the session showed before, when the file is still
  readable and within 4 MB. The files of other sessions may have begun torn. For the session's own file the
  condition is needed: \<open>torn_line_hides_journal\<close> below.
\<close>

theorem journal_survives_crash:
  assumes "journal_setting W S" and "list_all (op_ok W S) ops"
    and "journal_run W ops (fresh_store files t, []) = (st, hs)"
    and "s \<in> fst ` set (cx_sessions st)" and "found_whole files (journal_name W s)" and "fst (writable W s st)"
    and "0x0a \<notin> set tail" and "byte_length (file_text st (journal_name W s) @ tail) \<le> MAX_JOURNAL_BYTES"
    and "\<not> jw_unreadable W (cx_tick st)"
  shows "fst (journal_summary W s (restarted W s tail st)) = fst (journal_summary W s st)"
proof -
  have ok: "store_ok_on W S C st" if "C \<subseteq> S" "\<forall>s \<in> C. found_whole files (journal_name W s)" for C
    using journal_run_ok[OF assms(1) fresh_store_ok[OF that, of t] assms(2)] assms(3) by (simp add: state_ok_def)
  have "s \<in> S" using ok[of "{}"] assms(4) by (auto simp: store_ok_on_def)
  with assms(5) have own: "store_ok_on W S {s} st" by (intro ok) simp_all
  obtain a where a: "map_of (cx_sessions st) s = Some a" using assms(4) by (meson map_of_eq_None_iff not_Some_eq)
  then have session: "session W s st = (a, st)" by (simp add: session_def)
  from session_ok[OF assms(1) own \<open>s \<in> S\<close> session] have "a < length (cx_heap st)" "sj_name (cx_heap st ! a) = journal_name W s" by blast+
  moreover have gap: "sj_gap (cx_heap st ! a) = None" using assms(6) by (simp add: writable_def session)
  ultimately have "mirrors W (file_text st (journal_name W s)) (sj_calls (cx_heap st ! a))"
    by (intro store_ok_mirrors[OF own]) simp_all
  from restarted_summary[OF this assms(7-9)] show ?thesis by (simp add: journal_summary_def session gap)
qed

text \<open>
  C12: \<^bold>\<open>No unrecorded preparation.\<close> In every such run, whatever the files were when it began, optional hooks
  hand out at most eight identities, and each one's start line is in its session's file; it is a line of its
  own when the file was missing or ended in a whole line when the run began. In a file that began with a torn
  last line it continues that line (\<open>torn_line_hides_journal\<close> below).
\<close>

theorem preparation_calls_recorded:
  assumes "journal_setting W S" and "list_all (op_ok W S) ops"
    and "journal_run W ops (fresh_store files t, []) = (st, hs)"
    and "k < length hs" and "hk_purpose (hs ! k) = Preparation"
  shows "let name = sj_name (cx_heap st ! hk_journal (hs ! k)) in
    length (filter (\<lambda>p. fst p = k) (run_ids W ops (fresh_store files t, []))) \<le> PREPARATION_CALLS_PER_ATTEMPT \<and>
    name \<in> journal_name W ` S \<and>
    (\<forall>i. (k, i) \<in> set (run_ids W ops (fresh_store files t, [])) \<longrightarrow>
       recorded_start (found_whole files name) (file_text st name) (hk_interval (hs ! k)) i)"
proof -
  define C where "C = {s \<in> S. found_whole files (journal_name W s)}"
  have C: "C \<subseteq> S" "\<forall>s \<in> C. found_whole files (journal_name W s)" by (auto simp: C_def)
  let ?name = "sj_name (cx_heap st ! hk_journal (hs ! k))"
  have state: "state_ok W S C (st, hs)"
    using journal_run_ok[OF assms(1) fresh_store_ok[OF C, of t] assms(2)] assms(3) by simp
  then have "hk_journal (hs ! k) < length (cx_heap st)" using assms(4) by (simp add: state_ok_def)
  then have "?name \<in> set (map sj_name (cx_heap st))" by simp
  also have "map sj_name (cx_heap st) = map (journal_name W) (map fst (cx_sessions st))"
    using state by (simp add: state_ok_def store_ok_on_def)
  finally have named: "?name \<in> journal_name W ` S" using state by (auto simp: state_ok_def store_ok_on_def)
  then have whole: "?name \<in> journal_name W ` C \<longleftrightarrow> found_whole files ?name" by (auto simp: C_def)
  have ids: "ids_ok (journal_name W ` C) (run_ids W ops (fresh_store files t, [])) (st, hs)"
    using run_ids_ok[OF assms(1) C assms(2), of t] assms(3) by simp
  then have "length (filter (\<lambda>p. fst p = k) (run_ids W ops (fresh_store files t, []))) \<le> PREPARATION_CALLS_PER_ATTEMPT"
    using assms(4,5) by (simp add: ids_ok_def)
  moreover have "recorded_start (found_whole files ?name) (file_text st ?name) (hk_interval (hs ! k)) i"
    if "(k, i) \<in> set (run_ids W ops (fresh_store files t, []))" for i
    using ids that assms(5) unfolding ids_ok_def Let_def whole[symmetric] by fastforce
  ultimately show ?thesis using named by (simp add: Let_def)
qed

section \<open>Witnesses\<close>

definition sample_disk :: journal_world where
  "sample_disk = \<lparr>jw_host = plain_host, jw_number = (\<lambda>q. JInt \<lfloor>q\<rfloor>), jw_amount = (\<lambda>n. case n of JInt i \<Rightarrow> of_int i | _ \<Rightarrow> 0),
     jw_unreadable = (\<lambda>_. False), jw_append = (\<lambda>_. Appended), jw_uuid = nat_str, jw_time = (\<lambda>_. js ''now'')\<rparr>"

definition booked_sample_request :: dispatch_request where
  "booked_sample_request = \<lparr>dr_callIndex = 1, dr_phase = Generate, dr_model = js ''m'', dr_writerEffort = None\<rparr>"

definition booked_sample_result :: "jstring \<Rightarrow> dispatch_result" where
  "booked_sample_result i = \<lparr>ds_callIndex = 1, ds_callId = i, ds_phase = Generate, ds_dispatched = True, ds_outcome = CallSuccess,
     ds_elapsedMs = 12, ds_usage = Some \<lparr>wu_input = 7, wu_output = 1, wu_cacheRead = 0, wu_cacheWrite = 0, wu_cacheWrite1h = None,
       wu_reasoning = None, wu_totalTokens = 8, wu_cost = \<lparr>uc_input = 0, uc_output = 0, uc_cacheRead = 0, uc_cacheWrite = 0, uc_total = 3\<rparr>\<rparr>,
     ds_usageComplete = Some True\<rparr>"

definition booked_sample_ops :: "call_purpose \<Rightarrow> journal_op list" where
  "booked_sample_ops p = [OpenHooks (js ''a'') p (js ''none''), Before 0 booked_sample_request, After 0 (booked_sample_result (nat_str 1))]"

lemma booked_sample_setting:
  "journal_setting sample_disk {js ''a''}" "found_whole (\<lambda>_. None) name"
  "list_all (op_ok sample_disk {js ''a''}) (booked_sample_ops p)"
  using plain_numbers plain_reads[of "JNum (JInt i)" for i]
  by (simp_all add: journal_setting_def found_whole_def no_short_writes_def booked_sample_ops_def sample_disk_def billable_def booked_sample_result_def
      usage_amounts_def prints_back_def fromProvider_def)

definition booked_sample_run :: "call_purpose \<Rightarrow> journal_state" where
  "booked_sample_run p = journal_run sample_disk (booked_sample_ops p) (fresh_store (\<lambda>_. None) 0, [])"

definition booked_sample_text :: "call_purpose \<Rightarrow> jstring" where
  "booked_sample_text p = journal_line (start_value p (js ''none'') (nat_str 1) booked_sample_request (js ''now'')) @
     journal_line (settle_value sample_disk (booked_sample_result (nat_str 1)) True)"

definition booked_sample_call :: "call_purpose \<Rightarrow> call_record" where
  "booked_sample_call p = settled_record True True (map_option fromProvider (ds_usage (booked_sample_result []))) (started_record p (js ''none''))"

definition booked_sample_store :: "call_purpose \<Rightarrow> call_store" where
  "booked_sample_store p = \<lparr>cx_files = [journal_name sample_disk (js ''a'') \<mapsto> booked_sample_text p],
     cx_heap = [\<lparr>sj_name = journal_name sample_disk (js ''a''), sj_calls = [(nat_str 1, booked_sample_call p)], sj_gap = None\<rparr>],
     cx_sessions = [(js ''a'', 0)], cx_tick = 3\<rparr>"

lemma sample_disk_simps [simp]:
  "jw_append sample_disk t = Appended" "jw_unreadable sample_disk t = False" "jw_uuid sample_disk = nat_str"
  "jw_time sample_disk t = js ''now''"
  by (simp_all add: sample_disk_def)

lemma booked_sample_run_result:
  "booked_sample_run p = (booked_sample_store p, [\<lparr>hk_journal = 0, hk_purpose = p, hk_interval = js ''none'', hk_open = [],
     hk_started = (if p = Preparation then 1 else 0)\<rparr>])"
  by (simp add: booked_sample_run_def journal_run_def booked_sample_ops_def open_hooks_def session_def fresh_store_def loaded_journal_def
      load_file_def Let_def beforeDispatch_def append_value_def put_journal_def file_text_def afterDispatch_def booked_sample_store_def
      booked_sample_text_def booked_sample_call_def booked_sample_result_def PREPARATION_CALLS_PER_ATTEMPT_def call_whole_def)

lemma booked_sample_text_short: "length (booked_sample_text Compaction_call) < 1000"
  by code_simp

theorem journal_survives_crash_witness:
  "fst (journal_summary sample_disk (js ''a'') (restarted sample_disk (js ''a'') (js ''{'') (booked_sample_store Compaction_call))) =
     fst (journal_summary sample_disk (js ''a'') (booked_sample_store Compaction_call)) \<and>
   u_cost (cs_usage (fst (journal_summary sample_disk (js ''a'') (booked_sample_store Compaction_call)))) = 3"
proof -
  have stored: "file_text (booked_sample_store Compaction_call) (journal_name sample_disk (js ''a'')) = booked_sample_text Compaction_call"
    by (simp add: file_text_def booked_sample_store_def)
  have "byte_length (booked_sample_text Compaction_call @ js ''{'') \<le> MAX_JOURNAL_BYTES"
    using byte_length_upper[of "booked_sample_text Compaction_call @ js ''{''"] booked_sample_text_short by (simp add: MAX_JOURNAL_BYTES_def)
  moreover have "0x0a \<notin> set (js ''{'')" by code_simp
  ultimately have "fst (journal_summary sample_disk (js ''a'') (restarted sample_disk (js ''a'') (js ''{'') (booked_sample_store Compaction_call))) =
     fst (journal_summary sample_disk (js ''a'') (booked_sample_store Compaction_call))"
    using journal_survives_crash[OF booked_sample_setting(1) booked_sample_setting(3)[of Compaction_call]
          booked_sample_run_result[of Compaction_call, unfolded booked_sample_run_def],
        where s = "js ''a''" and tail = "js ''{''"] booked_sample_setting(2)
    by (simp add: stored) (simp add: booked_sample_store_def writable_def session_def)
  moreover have "u_cost (cs_usage (fst (journal_summary sample_disk (js ''a'') (booked_sample_store Compaction_call)))) = 3"
    by (simp add: booked_sample_store_def journal_summary_def session_def summarizeCalls_def summary_step_def booked_sample_call_def
        settled_record_def started_record_def fromProvider_def booked_sample_result_def ZERO_USAGE_def add_usage_def Let_def)
  ultimately show ?thesis by blast
qed

theorem preparation_calls_recorded_witness:
  "run_ids sample_disk (booked_sample_ops Preparation) (fresh_store (\<lambda>_. None) 0, []) = [(0, nat_str 1)] \<and>
   recorded_start True (booked_sample_text Preparation) (js ''none'') (nat_str 1)"
proof -
  have ids: "run_ids sample_disk (booked_sample_ops Preparation) (fresh_store (\<lambda>_. None) 0, []) = [(0, nat_str 1)]"
    by (simp add: booked_sample_ops_def open_hooks_def session_def fresh_store_def loaded_journal_def
        load_file_def Let_def beforeDispatch_def append_value_def put_journal_def PREPARATION_CALLS_PER_ATTEMPT_def)
  with preparation_calls_recorded[OF booked_sample_setting(1) booked_sample_setting(3)[of Preparation]
        booked_sample_run_result[of Preparation, unfolded booked_sample_run_def],
      where k = 0] show ?thesis
    by (simp add: booked_sample_store_def file_text_def found_whole_def Let_def)
qed

section \<open>A torn line is not repaired\<close>

text \<open>
  \<open>load\<close> drops a torn last line from what it returns and leaves it in the file. The next append continues that
  line, so that a second restart finds an invalid line in the middle and takes the whole journal for
  unreadable: the calls before the crash are no longer counted.
\<close>

definition torn_text :: jstring where
  "torn_text = js ''{''"

definition torn_files :: "jstring \<Rightarrow> jstring option" where
  "torn_files = [journal_name sample_disk (js ''a'') \<mapsto> booked_sample_text Compaction_call @ torn_text]"

lemma booked_sample_text_mirrors: "mirrors sample_disk (booked_sample_text p) [(nat_str 1, booked_sample_call p)]"
proof -
  have "state_ok sample_disk {js ''a''} {js ''a''} (booked_sample_run p)"
    unfolding booked_sample_run_def
    by (rule journal_run_ok[OF booked_sample_setting(1) fresh_store_ok booked_sample_setting(3)]) (simp_all add: booked_sample_setting(2))
  then show ?thesis by (simp add: booked_sample_run_result state_ok_def store_ok_on_def booked_sample_store_def file_text_def)
qed

lemma two_braces: "json_parse num (0x7b # 0x7b # s) = None"
  by (simp add: json_parse_def skip_ws_Cons)

lemma torn_first_load: "load_text sample_disk (booked_sample_text Compaction_call @ torn_text) = Some [(nat_str 1, booked_sample_call Compaction_call)]"
proof -
  have "0x0a \<notin> set torn_text" unfolding torn_text_def by code_simp
  then show ?thesis using booked_sample_text_mirrors[of Compaction_call] by (simp add: mirrors_def load_text_torn)
qed

lemma torn_second_load:
  "load_text sample_disk (booked_sample_text Compaction_call @ torn_text @ journal_line (start_value p interval i req time)) = None"
proof -
  let ?v = "start_value p interval i req time"
  have v: "\<exists>s. stringify ?v = 0x7b # s" by (simp add: start_value_def obj_def)
  have torn: "torn_text = [0x7b]" unfolding torn_text_def by code_simp
  have "0x0a \<notin> set (torn_text @ stringify ?v)"
    using load_line_value(2)[OF start_json_ok, of sample_disk p interval i req time] booked_sample_setting(1)
    by (simp add: torn journal_setting_def)
  moreover have "load_line sample_disk (torn_text @ stringify ?v) calls = None" for calls
    using v two_braces by (auto simp: torn load_line_def)
  ultimately show ?thesis
    using load_text_line[of "booked_sample_text Compaction_call" "torn_text @ stringify ?v" sample_disk] booked_sample_text_mirrors[of Compaction_call]
    by (simp add: journal_line_def mirrors_def)
qed

lemma torn_text_short:
  "byte_length (booked_sample_text Compaction_call @ torn_text) \<le> MAX_JOURNAL_BYTES"
  using byte_length_upper[of "booked_sample_text Compaction_call @ torn_text"] booked_sample_text_short by (simp add: torn_text_def MAX_JOURNAL_BYTES_def)

theorem torn_line_hides_journal:
  "case journal_run sample_disk [OpenHooks (js ''a'') Compaction_call (js ''none''), Before 0 booked_sample_request] (fresh_store torn_files 5, []) of
     (st, hs) \<Rightarrow>
       cs_calls (fst (journal_summary sample_disk (js ''a'') st)) = 2 \<and> cs_gap (fst (journal_summary sample_disk (js ''a'') st)) = None \<and>
       cs_calls (fst (journal_summary sample_disk (js ''a'') (restarted sample_disk (js ''a'') [] st))) = 0 \<and>
       cs_gap (fst (journal_summary sample_disk (js ''a'') (restarted sample_disk (js ''a'') [] st))) = Some Unreadable"
proof -
  have other: "nat_str 6 \<noteq> nat_str 1" by code_simp
  show ?thesis
    using torn_text_short other
    by (simp add: journal_run_def open_hooks_def session_def fresh_store_def loaded_journal_def load_file_def torn_files_def
        torn_first_load torn_second_load Let_def beforeDispatch_def append_value_def put_journal_def file_text_def
        journal_summary_def summarizeCalls_def summary_step_def started_record_def booked_sample_call_def settled_record_def
        restarted_def booked_sample_result_def)
qed

end
