(* ===== verification/Call_Store_Writer.thy ===== *)
theory Call_Store_Writer
  imports Call_Store_Run Writer_Session
begin

text \<open>
  The writer and its call journal together. \<open>book_events\<close> hands what the writer's hooks are told (the trace of
  a run) to the hooks of the journal, in order; the identity of a reservation is the one the hook returned.
  With the books of \<open>Writer_Ledger\<close> in order, the summary grows by exactly the calls and the usage of the run.
\<close>

section \<open>Booking a run\<close>

fun book_event :: "journal_world \<Rightarrow> 'q writer_event \<Rightarrow> call_hook \<times> call_store \<Rightarrow> call_hook \<times> call_store" where
  "book_event W (Reserved req i) (hk, st) = snd (beforeDispatch (W\<lparr>jw_uuid := \<lambda>_. i\<rparr>) req hk st)"
| "book_event W (Settled r) (hk, st) = afterDispatch W r hk st"
| "book_event W _ c = c"

definition book_events :: "journal_world \<Rightarrow> 'q writer_event list \<Rightarrow> call_hook \<times> call_store \<Rightarrow> call_hook \<times> call_store" where
  "book_events W es c = fold (book_event W) es c"

fun settlements :: "'q writer_event list \<Rightarrow> dispatch_result list" where
  "settlements [] = []"
| "settlements (Settled r # es) = r # settlements es"
| "settlements (_ # es) = settlements es"

definition booked_record :: "jstring \<Rightarrow> dispatch_result \<Rightarrow> call_record" where
  "booked_record interval r = settled_record (ds_dispatched r) (call_whole r)
     (map_option fromProvider (ds_usage r)) (started_record Compaction_call interval)"

lemma book_events_calls: "book_events W (filter call_event es) c = book_events W es c"
proof (induction es arbitrary: c)
  case (Cons e es)
  then show ?case by (cases e; cases c) (simp_all add: book_events_def)
qed simp

lemma settlements_calls: "settlements (filter call_event es) = settlements es"
proof (induction es)
  case (Cons e es)
  then show ?case by (cases e) simp_all
qed simp

section \<open>The identity of a reservation is the hook's\<close>

lemma load_lines_uuid: "load_lines (W\<lparr>jw_uuid := u\<rparr>) ls calls = load_lines W ls calls"
proof (induction ls arbitrary: calls)
  case (Cons l ls)
  have "amount_of (W\<lparr>jw_uuid := u\<rparr>) v = amount_of W v" "is_count (W\<lparr>jw_uuid := u\<rparr>) v = is_count W v" for v
    by (cases v; simp)+
  then have usage: "callUsage (W\<lparr>jw_uuid := u\<rparr>) v = callUsage W v" for v by (simp add: callUsage_def)
  have "load_value (W\<lparr>jw_uuid := u\<rparr>) v calls = load_value W v calls" for v unfolding load_value_def usage ..
  then have "load_line (W\<lparr>jw_uuid := u\<rparr>) l calls = load_line W l calls" by (simp add: load_line_def)
  with Cons show ?case by (cases "load_line W l calls") simp_all
qed simp

lemma store_ok_uuid: "store_ok (W\<lparr>jw_uuid := u\<rparr>) S st = store_ok W S st"
  by (simp add: store_ok_on_def mirrors_def load_text_def load_lines_uuid journal_name_def)

lemma journal_setting_uuid: "journal_setting (W\<lparr>jw_uuid := u\<rparr>) S = journal_setting W S"
proof -
  have "journal_name (W\<lparr>jw_uuid := u\<rparr>) = journal_name W" by (simp add: fun_eq_iff journal_name_def)
  then show ?thesis by (simp add: journal_setting_def no_short_writes_def)
qed

section \<open>One call\<close>

lemma obj_put_last: "k \<notin> fst ` set ps \<Longrightarrow> obj_put k v (ps @ [(k, w)]) = ps @ [(k, v)]"
  by (induction ps) auto

lemma map_of_last: "k \<notin> fst ` set ps \<Longrightarrow> map_of (ps @ [(k, w)]) k = Some w"
  by (simp add: map_of_eq_None_iff[THEN iffD2] map_add_def)

text \<open>A reservation on a disk that takes every append.\<close>

lemma book_dispatched: "book_event W (Dispatched q) c = c"
  by (cases c) simp

lemma append_value_appends: "\<forall>t. jw_append W t = Appended \<Longrightarrow> append_value W n v st = (written, st') \<Longrightarrow> written"
  by (auto simp: append_value_def)

lemma book_reserved:
  assumes setting: "journal_setting W S" "store_ok W S st" and a: "hk_journal hk < length (cx_heap st)"
    and disk: "\<forall>t. jw_append W t = Appended"
    and hk: "hk_purpose hk = Compaction_call" and fresh: "i \<notin> fst ` set (sj_calls (cx_heap st ! hk_journal hk))"
    and b: "book_event W (Reserved req i) (hk, st) = (hk', st')"
  shows "store_ok W S st' \<and> length (cx_heap st') = length (cx_heap st) \<and> cx_sessions st' = cx_sessions st \<and>
    hk_journal hk' = hk_journal hk \<and> hk_purpose hk' = Compaction_call \<and> hk_interval hk' = hk_interval hk \<and> i \<in> set (hk_open hk') \<and>
    cx_heap st' ! hk_journal hk = (cx_heap st ! hk_journal hk)\<lparr>sj_calls :=
      sj_calls (cx_heap st ! hk_journal hk) @ [(i, started_record Compaction_call (hk_interval hk))]\<rparr>"
proof -
  let ?W = "W\<lparr>jw_uuid := \<lambda>_. i\<rparr>"
  obtain res where b': "beforeDispatch ?W req hk st = (res, hk', st')"
    using b by (cases "beforeDispatch ?W req hk st") simp
  have disk': "\<forall>t. jw_append ?W t = Appended" using disk by simp
  have ok: "store_ok W S st'"
    using beforeDispatch_ok[OF _ _ a b', of S S] setting by (simp add: store_ok_uuid journal_setting_uuid)
  from b' show ?thesis
  proof (cases rule: beforeDispatch_cases)
    case refused
    then show ?thesis using b' hk by (auto simp: beforeDispatch_def Let_def split: prod.splits if_splits)
  next
    case (recorded st1 j time)
    then show ?thesis using ok a hk fresh by (simp add: append_value_simps[OF recorded(1)] obj_put_fresh)
  qed (auto dest: append_value_appends[OF disk'])
qed

lemma book_settled:
  assumes setting: "journal_setting W S" "store_ok W S st" and a: "hk_journal hk < length (cx_heap st)"
    and disk: "\<forall>t. jw_append W t = Appended"
    and hk: "hk_purpose hk = Compaction_call" and bill: "billable W r" and opened: "ds_callId r \<in> set (hk_open hk)"
    and calls: "sj_calls (cx_heap st ! hk_journal hk) = cs @ [(ds_callId r, started_record Compaction_call (hk_interval hk))]"
    and fresh: "ds_callId r \<notin> fst ` set cs"
    and b: "book_event W (Settled r) (hk, st) = (hk', st')"
  shows "store_ok W S st' \<and> length (cx_heap st') = length (cx_heap st) \<and> cx_sessions st' = cx_sessions st \<and>
    hk_journal hk' = hk_journal hk \<and> hk_purpose hk' = Compaction_call \<and> hk_interval hk' = hk_interval hk \<and>
    cx_heap st' ! hk_journal hk = (cx_heap st ! hk_journal hk)\<lparr>sj_calls := cs @ [(ds_callId r, booked_record (hk_interval hk) r)]\<rparr>"
proof -
  have b': "afterDispatch W r hk st = (hk', st')" using b by simp
  have known: "map_of (sj_calls (cx_heap st ! hk_journal hk)) (ds_callId r) = Some (started_record Compaction_call (hk_interval hk))"
    unfolding calls by (rule map_of_last[OF fresh])
  have ok: "store_ok W S st'" using afterDispatch_ok[OF setting a bill b'] by simp
  let ?v = "settle_value W r (call_whole r)"
  obtain st1 where app: "append_value W (sj_name (cx_heap st ! hk_journal hk)) ?v st = (True, st1)"
    using append_value_appends[OF disk] by (metis (full_types) prod.exhaust)
  have "st' = put_journal (hk_journal hk) (\<lambda>j. j\<lparr>sj_calls := cs @ [(ds_callId r, booked_record (hk_interval hk) r)]\<rparr>) st1"
    using b' known opened app obj_put_last[OF fresh] append_value_simps(1)[OF app]
    by (simp add: afterDispatch_def Let_def booked_record_def put_journal_def calls)
  then show ?thesis using ok a hk afterDispatch_hook[OF b'] by (simp add: append_value_simps[OF app])
qed

text \<open>A reservation and its settlement: one more record of the journal.\<close>

lemma book_call:
  assumes setting: "journal_setting W S" "store_ok W S st" and a: "hk_journal hk < length (cx_heap st)"
    and disk: "\<forall>t. jw_append W t = Appended"
    and hk: "hk_purpose hk = Compaction_call" and bill: "billable W r"
    and fresh: "ds_callId r \<notin> fst ` set (sj_calls (cx_heap st ! hk_journal hk))"
    and b: "book_event W (Settled r) (book_event W (Reserved req (ds_callId r)) (hk, st)) = (hk', st')"
  shows "store_ok W S st' \<and> length (cx_heap st') = length (cx_heap st) \<and> cx_sessions st' = cx_sessions st \<and>
    hk_journal hk' = hk_journal hk \<and> hk_purpose hk' = Compaction_call \<and> hk_interval hk' = hk_interval hk \<and>
    cx_heap st' ! hk_journal hk = (cx_heap st ! hk_journal hk)\<lparr>sj_calls :=
      sj_calls (cx_heap st ! hk_journal hk) @ [(ds_callId r, booked_record (hk_interval hk) r)]\<rparr>"
proof -
  obtain hk1 st1 where b1: "book_event W (Reserved req (ds_callId r)) (hk, st) = (hk1, st1)" by (metis prod.exhaust)
  note one = book_reserved[OF setting a disk hk fresh b1]
  have b2: "book_event W (Settled r) (hk1, st1) = (hk', st')" using b b1 by simp
  have "sj_calls (cx_heap st1 ! hk_journal hk1) =
      sj_calls (cx_heap st ! hk_journal hk) @ [(ds_callId r, started_record Compaction_call (hk_interval hk1))]"
    using one by simp
  from book_settled[OF setting(1) _ _ disk _ bill _ this fresh b2] one a show ?thesis by simp
qed

section \<open>A whole run\<close>

lemma booked_settlements:
  "booked n es = Some m \<Longrightarrow> m = n + count_if ds_dispatched (settlements es) \<and>
    (\<forall>r \<in> set (settlements es). \<not> ds_dispatched r \<longrightarrow> ds_usage r = None) \<and>
    settled_usages es = concat (map (\<lambda>r. option_list (ds_usage r)) (settlements es))"
  by (induction n es rule: booked.induct) (auto simp: count_if_def split: if_splits)

definition journaled :: "call_hook \<Rightarrow> dispatch_result list \<Rightarrow> call_store \<Rightarrow> session_journal" where
  "journaled hk rs st = (cx_heap st ! hk_journal hk)\<lparr>sj_calls :=
     sj_calls (cx_heap st ! hk_journal hk) @ map (\<lambda>r. (ds_callId r, booked_record (hk_interval hk) r)) rs\<rparr>"

lemma book_run_call:
  assumes "journal_setting W S" and "\<forall>t. jw_append W t = Appended"
    and "store_ok W S st" and "hk_journal hk < length (cx_heap st)" and "hk_purpose hk = Compaction_call"
    and "distinct (map ds_callId (r # rs))" and "list_all (billable W) (r # rs)"
    and "\<forall>x \<in> set (r # rs). ds_callId x \<notin> fst ` set (sj_calls (cx_heap st ! hk_journal hk))"
    and b: "book_event W (Settled r) (book_event W (Reserved req (ds_callId r)) (hk, st)) = (hk1, st1)"
    and rest: "store_ok W S st1 \<Longrightarrow> hk_journal hk1 < length (cx_heap st1) \<Longrightarrow> hk_purpose hk1 = Compaction_call \<Longrightarrow>
      distinct (map ds_callId rs) \<Longrightarrow> list_all (billable W) rs \<Longrightarrow>
      \<forall>x \<in> set rs. ds_callId x \<notin> fst ` set (sj_calls (cx_heap st1 ! hk_journal hk1)) \<Longrightarrow>
      store_ok W S st' \<and> cx_sessions st' = cx_sessions st1 \<and> cx_heap st' ! hk_journal hk1 = journaled hk1 rs st1"
  shows "store_ok W S st' \<and> cx_sessions st' = cx_sessions st \<and> cx_heap st' ! hk_journal hk = journaled hk (r # rs) st"
proof -
  note call = book_call[OF assms(1,3,4,2,5) _ _ b]
  have one: "store_ok W S st1 \<and> length (cx_heap st1) = length (cx_heap st) \<and> cx_sessions st1 = cx_sessions st \<and>
    hk_journal hk1 = hk_journal hk \<and> hk_purpose hk1 = Compaction_call \<and> hk_interval hk1 = hk_interval hk \<and>
    cx_heap st1 ! hk_journal hk = (cx_heap st ! hk_journal hk)\<lparr>sj_calls :=
      sj_calls (cx_heap st ! hk_journal hk) @ [(ds_callId r, booked_record (hk_interval hk) r)]\<rparr>"
    using call assms(7,8) by simp
  have fresh: "\<forall>x \<in> set rs. ds_callId x \<noteq> ds_callId r" using assms(6) by (simp, metis image_eqI)
  have "store_ok W S st' \<and> cx_sessions st' = cx_sessions st1 \<and> cx_heap st' ! hk_journal hk1 = journaled hk1 rs st1"
    using one assms(4,6-8) fresh by (intro rest) auto
  then show ?thesis using one by (simp add: journaled_def)
qed

lemma book_run:
  fixes es :: "'q writer_event list"
  assumes "booked n es = Some m" and "journal_setting W S" and "\<forall>t. jw_append W t = Appended"
    and "store_ok W S st" and "hk_journal hk < length (cx_heap st)" and "hk_purpose hk = Compaction_call"
    and "distinct (map ds_callId (settlements es))" and "list_all (billable W) (settlements es)"
    and "\<forall>r \<in> set (settlements es). ds_callId r \<notin> fst ` set (sj_calls (cx_heap st ! hk_journal hk))"
    and "book_events W es (hk, st) = (hk', st')"
  shows "store_ok W S st' \<and> cx_sessions st' = cx_sessions st \<and> cx_heap st' ! hk_journal hk = journaled hk (settlements es) st"
  using assms(1,4-)
proof (induction n es arbitrary: hk st rule: booked.induct)
  case (1 n)
  then show ?case by (simp add: book_events_def journaled_def)
next
  case (2 n req i r es)
  then have r: "dr_callIndex req = Suc n \<and> closes req i r \<and> \<not> ds_dispatched r \<and> ds_usage r = None" "ds_callId r = i"
    and rest: "booked n es = Some m" by (auto simp: closes_def split: if_splits)
  obtain hk1 st1 where b: "book_event W (Settled r :: 'q writer_event)
      (book_event W (Reserved req (ds_callId r) :: 'q writer_event) (hk, st)) = (hk1, st1)" by (metis prod.exhaust)
  have es: "book_events W es (hk1, st1) = (hk', st')" using "2.prems"(8) unfolding book_events_def b[symmetric] by (simp add: r(2))
  have "store_ok W S st' \<and> cx_sessions st' = cx_sessions st \<and> cx_heap st' ! hk_journal hk = journaled hk (r # settlements es) st"
    using "2.prems" by (intro book_run_call[OF assms(2,3) _ _ _ _ _ _ b "2.IH"[OF r(1) rest _ _ _ _ _ _ es]]) auto
  then show ?case by simp
next
  case (3 n req i q r es)
  then have r: "dr_callIndex req = Suc n \<and> closes req i r \<and> ds_dispatched r" "ds_callId r = i"
    and rest: "booked (Suc n) es = Some m" by (auto simp: closes_def split: if_splits)
  obtain hk1 st1 where b: "book_event W (Settled r :: 'q writer_event)
      (book_event W (Reserved req (ds_callId r) :: 'q writer_event) (hk, st)) = (hk1, st1)" by (metis prod.exhaust)
  have es: "book_events W es (hk1, st1) = (hk', st')" using "3.prems"(8) unfolding book_events_def b[symmetric] by (simp add: r(2) book_dispatched)
  have "store_ok W S st' \<and> cx_sessions st' = cx_sessions st \<and> cx_heap st' ! hk_journal hk = journaled hk (r # settlements es) st"
    using "3.prems" by (intro book_run_call[OF assms(2,3) _ _ _ _ _ _ b "3.IH"[OF r(1) rest _ _ _ _ _ _ es]]) auto
  then show ?case by simp
qed simp_all

section \<open>The summary after it\<close>

definition bill_usage :: "writer_usage list \<Rightarrow> call_usage \<Rightarrow> call_usage" where
  "bill_usage us = fold (\<lambda>u acc. add_usage acc (fromProvider u)) us"

lemma count_if_append [simp]: "count_if p (xs @ ys) = count_if p xs + count_if p ys"
  by (simp add: count_if_def)

lemma booked_counts:
  "count_if counted (map (booked_record i) rs) = count_if ds_dispatched rs"
  "count_if (\<lambda>r. counted r \<and> cr_purpose r = Preparation) (map (booked_record i) rs) = 0"
  "count_if (\<lambda>r. \<not> cr_settled r) (map (booked_record i) rs) = 0"
  by (induction rs) (auto simp: count_if_def counted_def booked_record_def settled_record_def started_record_def)

lemma booked_usage:
  "\<forall>r \<in> set rs. \<not> ds_dispatched r \<longrightarrow> ds_usage r = None \<Longrightarrow>
   fold (\<lambda>r acc. add_usage acc (the (cr_usage r))) (filter usage_known (map (booked_record i) rs)) acc =
     bill_usage (concat (map (\<lambda>r. option_list (ds_usage r)) rs)) acc"
proof (induction rs arbitrary: acc)
  case (Cons r rs)
  have "usage_known (booked_record i r) \<longleftrightarrow> ds_usage r \<noteq> None"
    using Cons.prems by (auto simp: usage_known_def counted_def booked_record_def settled_record_def)
  moreover have "cr_usage (booked_record i r) = map_option fromProvider (ds_usage r)"
    by (simp add: booked_record_def settled_record_def)
  ultimately show ?case using Cons by (cases "ds_usage r") (simp_all add: bill_usage_def)
qed (simp add: bill_usage_def)

lemma booked_summary:
  assumes "\<forall>r \<in> set rs. \<not> ds_dispatched r \<longrightarrow> ds_usage r = None"
  shows "let old = summarizeCalls cs gap; new = summarizeCalls (cs @ map (booked_record i) rs) gap
    in cs_calls new = cs_calls old + count_if ds_dispatched rs \<and> cs_preparationCalls new = cs_preparationCalls old \<and>
       cs_unsettled new = cs_unsettled old \<and> cs_gap new = cs_gap old \<and>
       cs_usage new = bill_usage (concat (map (\<lambda>r. option_list (ds_usage r)) rs)) (cs_usage old)"
  using booked_usage[OF assms, of i "total_usage cs"]
  by (simp add: summarizeCalls_eq summary_of_def booked_counts total_usage_def)

section \<open>Property\<close>

text \<open>
  C13: \<^bold>\<open>The writer's calls reach the journal.\<close> Whatever the host answers and however the run of \<open>writeMemory\<close>
  ends, when a disk takes every append and the identities are new, the journal's summary grows by exactly the
  calls the run made and the usage it collected, leaves nothing unsettled and opens no gap; and a restart shows
  the same.
\<close>

theorem writer_calls_journaled:
  assumes "journal_setting W S" and "store_ok W S st" and "s \<in> S" and "\<forall>t. jw_append W t = Appended"
    and hk: "open_hooks W s Compaction_call interval st = (hk, st0)"
    and T: "T = snd (writeMemory h doc (V\<lparr>ww_hooks := Some callHooks\<rparr>) opts opened)"
    and ids: "distinct (map ds_callId (settlements (ws_trace T)))" "list_all (billable W) (settlements (ws_trace T))"
      "\<forall>r \<in> set (settlements (ws_trace T)). ds_callId r \<notin> fst ` set (sj_calls (cx_heap st0 ! hk_journal hk))"
    and b: "book_events W (ws_trace T) (hk, st0) = (hk', st')"
  shows "let old = fst (journal_summary W s st0); new = fst (journal_summary W s st') in
      cs_calls new = cs_calls old + ws_calls T \<and> cs_preparationCalls new = cs_preparationCalls old \<and>
      cs_unsettled new = cs_unsettled old \<and> cs_gap new = cs_gap old \<and>
      cs_usage new = bill_usage (ws_usages T) (cs_usage old) \<and>
      (cs_gap old = None \<and> byte_length (file_text st' (journal_name W s)) \<le> MAX_JOURNAL_BYTES \<and> \<not> jw_unreadable W (cx_tick st') \<longrightarrow>
         fst (journal_summary W s (restarted W s [] st')) = new)"
proof -
  let ?es = "filter call_event (ws_trace T)" and ?rs = "settlements (ws_trace T)"
  have books: "booked 0 ?es = Some (ws_calls T)" "ws_usages T = settled_usages ?es"
    using writeMemory_booked[where h = h and doc = doc and W = V and hk = callHooks and opts = opts and opened = opened] unfolding T by simp_all
  obtain a where a: "session W s st = (a, st0)" and hk_a: "hk = \<lparr>hk_journal = a, hk_purpose = Compaction_call, hk_interval = interval, hk_open = [], hk_started = 0\<rparr>"
    using hk by (cases "session W s st") (auto simp: open_hooks_def)
  note st0 = session_ok[OF assms(1-3) a]
  have run: "store_ok W S st' \<and> cx_sessions st' = cx_sessions st0 \<and> cx_heap st' ! a = journaled hk ?rs st0"
    using book_run[OF books(1) assms(1,4) st0(1), of hk hk' st'] st0(2) ids b
    by (simp add: hk_a settlements_calls book_events_calls)
  have counts: "ws_calls T = count_if ds_dispatched ?rs" "\<forall>r \<in> set ?rs. \<not> ds_dispatched r \<longrightarrow> ds_usage r = None"
    "ws_usages T = concat (map (\<lambda>r. option_list (ds_usage r)) ?rs)"
    using booked_settlements[OF books(1)] books(2) by (simp_all add: settlements_calls)
  let ?j = "cx_heap st0 ! a"
  have old: "fst (journal_summary W s st0) = summarizeCalls (map snd (sj_calls ?j)) (sj_gap ?j)"
    using st0(5) by (simp add: journal_summary_def session_def)
  have new: "fst (journal_summary W s st') = summarizeCalls (map snd (sj_calls ?j) @ map (booked_record interval) ?rs) (sj_gap ?j)"
    using run st0(5) by (simp add: journal_summary_def session_def journaled_def hk_a comp_def)
  have gap: "cs_gap (fst (journal_summary W s st0)) = sj_gap ?j" by (simp add: old summarizeCalls_eq summary_of_def)
  have session': "session W s st' = (a, st')" using run st0(5) by (simp add: session_def)
  have again: "fst (journal_summary W s (restarted W s [] st')) = fst (journal_summary W s st')"
    if "sj_gap ?j = None" "byte_length (file_text st' (journal_name W s)) \<le> MAX_JOURNAL_BYTES" "\<not> jw_unreadable W (cx_tick st')"
  proof -
    note st' = session_ok[OF assms(1) conjunct1[OF run] assms(3) session']
    have "mirrors W (file_text st' (journal_name W s)) (sj_calls (cx_heap st' ! a))"
      using run st' that(1) assms(3) by (intro store_ok_mirrors[OF st'(1)]) (simp_all add: journaled_def hk_a)
    from restarted_summary[OF this, of "[]"] that run show ?thesis
      by (simp add: journal_summary_def session' journaled_def hk_a)
  qed
  from booked_summary[OF counts(2), of "map snd (sj_calls ?j)" "sj_gap ?j" interval] again gap show ?thesis
    by (simp add: Let_def old new counts(1,3))
qed

section \<open>A run\<close>

text \<open>A session writer whose provider refuses the request: a call that was sent, and of unknown usage.\<close>

definition refusing_world :: writer_world where
  "refusing_world = sample_world\<lparr>ww_onProgress := None, ww_hooks := None, ww_now := \<lambda>_. 0\<rparr>"

definition refusing_transport :: "(writer_request, unit) writer_transport" where
  "refusing_transport = sample_transport\<lparr>wt_dispatch := \<lambda>_ _. (None, Inl (Err Foreign (js ''503'')))\<rparr>"

definition refused_result :: dispatch_result where
  "refused_result = \<lparr>ds_callIndex = 1, ds_callId = js ''c1'', ds_phase = Generate, ds_dispatched = True, ds_outcome = CallFailed,
     ds_elapsedMs = 0, ds_usage = None, ds_usageComplete = Some False\<rparr>"

lemma floor_half: "\<lfloor>1 / 2 :: rat\<rfloor> = 0"
  by (rule floor_unique) simp_all

lemma refusing_complete:
  assumes "we_world x = refusing_world\<lparr>ww_hooks := Some sample_hooks\<rparr>" "we_transport x = refusing_transport"
    "ws_calls s = 0" "ws_phase s = Generate" "ws_trace s = []" "ws_usages s = []"
  shows "\<exists>t req. complete x q effort s = (Inl (Thrown (Err Foreign (js ''503''))), t) \<and> ws_calls t = 1 \<and> ws_usages t = [] \<and>
     ws_trace t = [Reserved req (js ''c1''), Dispatched q, Settled refused_result]"
  using assms
  by (simp add: complete_def bind_act_def throwIfAborted_def reserve_def Let_def reserved_call_def now_def send_call_def dispatch_call_def
      report_def settle_call_def polled_def settlement_def tick_def log_event_def put_detail_def put_sent_def
      refusing_world_def refusing_transport_def sample_world_def sample_hooks_def sample_transport_def js_def refused_result_def outcome_of_def floor_half)

definition refused_run :: "writer_request writer_state" where
  "refused_run = snd (writeMemory plain_host plain_doc (refusing_world\<lparr>ww_hooks := Some sample_hooks\<rparr>) sample_options (Inr refusing_transport))"

lemma refused_run_trace:
  "\<exists>req q. ws_calls refused_run = 1 \<and> ws_usages refused_run = [] \<and>
    ws_trace refused_run = [Reserved req (js ''c1''), Dispatched q, Settled refused_result]"
proof -
  define x :: "(writer_request, unit) writer_env" where "x = \<lparr>we_host = plain_host, we_doc = plain_doc,
    we_world = refusing_world\<lparr>ww_hooks := Some sample_hooks\<rparr>, we_transport = refusing_transport, we_options = frozen_options sample_options\<rparr>"
  have x: "we_world x = refusing_world\<lparr>ww_hooks := Some sample_hooks\<rparr>" "we_transport x = refusing_transport" by (simp_all add: x_def)
  have T: "wt_prefixTokens refusing_transport = Some 0" "wt_session refusing_transport"
    "wt_contextWindow refusing_transport = wt_contextWindow sample_transport"
    "wt_maxOutputTokens refusing_transport = wt_maxOutputTokens sample_transport"
    by (simp_all add: refusing_transport_def sample_transport_def)
  have sources: "filter (\<lambda>r. 0 < length (sourceText r)) (wo_uncovered (we_options x)) = [sample_user]"
    using sample_options_simps(4) by (simp add: x_def frozen_options_def Let_def)
  have limits: "note_limit (we_options x) = 500" "wo_uncovered (we_options x) = wo_uncovered sample_options"
    using sample_options_simps(2) by (simp_all add: x_def frozen_options_def Let_def MAX_NOTE_TOKENS_def token_count_def)
  have "\<exists>t \<in> set (handovers x [sample_user]). 0 + output_tokens x + int (textTokens t) \<le> wt_contextWindow (we_transport x)"
    using sample_room limits sample_options_simps(2) by (simp add: handovers_def Let_def output_tokens_def x(2) T x_def)
  then obtain t where t: "find (\<lambda>t. 0 + output_tokens x + int (textTokens t) \<le> wt_contextWindow (we_transport x)) (handovers x [sample_user]) = Some t"
    by (metis (mono_tags, lifting) find_None_iff not_Some_eq)
  have alive: "throwIfAborted x first_state = (Inr (), tick first_state)"
    by (simp add: throwIfAborted_def x refusing_world_def sample_world_def)
  obtain u req where u: "complete x (wt_request (we_transport x) (HandoverRequest t (wt_effort (we_transport x)) (output_tokens x)))
      (wt_effort (we_transport x)) (tick first_state) = (Inl (Thrown (Err Foreign (js ''503''))), u)"
    "ws_calls u = 1" "ws_usages u = []" "\<exists>q. ws_trace u = [Reserved req (js ''c1''), Dispatched q, Settled refused_result]"
    using refusing_complete[OF x, of "tick first_state"] by (fastforce simp: first_state_def tick_def)
  have "writeWithSession x first_state = (Inl (Thrown (Err Foreign (js ''503''))), u)"
    unfolding writeWithSession_def Let_def x(2) T option.case sources
    using alive u(1) t by (simp add: then_act_def bind_act_def x(2) T)
  then have "refused_run = u"
    by (simp add: refused_run_def writeMemory_def sample_options_simps run_writer_def bind_act_def flip: x_def)
      (simp add: x T bind_act_def)
  with u show ?thesis by blast
qed

theorem writer_calls_journaled_witness:
  "\<exists>hk st0 hk' st'. open_hooks sample_disk (js ''a'') Compaction_call (js ''none'') (fresh_store (\<lambda>_. None) 0) = (hk, st0) \<and>
     book_events sample_disk (ws_trace refused_run) (hk, st0) = (hk', st') \<and>
     cs_calls (fst (journal_summary sample_disk (js ''a'') st')) = 1 \<and> cs_unsettled (fst (journal_summary sample_disk (js ''a'') st')) = 0"
proof -
  obtain hk st0 where hk: "open_hooks sample_disk (js ''a'') Compaction_call (js ''none'') (fresh_store (\<lambda>_. None) 0) = (hk, st0)"
    by (metis prod.exhaust)
  obtain hk' st' where b: "book_events sample_disk (ws_trace refused_run) (hk, st0) = (hk', st')" by (metis prod.exhaust)
  have st: "store_ok sample_disk {js ''a''} (fresh_store (\<lambda>_. None) 0)"
    using fresh_store_ok[of "{js ''a''}" "{js ''a''}" "\<lambda>_. None" sample_disk 0] booked_sample_setting(2) by (simp add: state_ok_def)
  have start: "sj_calls (cx_heap st0 ! hk_journal hk) = []"
    "summarizeCalls [] None = fst (journal_summary sample_disk (js ''a'') st0)"
    using hk by (auto simp: open_hooks_def session_def fresh_store_def loaded_journal_def load_file_def Let_def journal_summary_def)
  have settled: "settlements (ws_trace refused_run) = [refused_result]" "ws_calls refused_run = 1" using refused_run_trace by auto
  have bill: "billable sample_disk refused_result" using plain_reads[of "JNum (JInt 0)"] by (simp add: billable_def refused_result_def sample_disk_def)
  have zero: "cs_calls (fst (journal_summary sample_disk (js ''a'') st0)) = 0"
    "cs_unsettled (fst (journal_summary sample_disk (js ''a'') st0)) = 0"
    unfolding start(2)[symmetric] by (simp_all add: summarizeCalls_def)
  show ?thesis
    using writer_calls_journaled[OF booked_sample_setting(1) st _ _ hk refused_run_def _ _ _ b] settled bill start(1) zero hk b
    by (simp add: Let_def)
qed

end
