(* ===== verification/Render_Projection.thy ===== *)
theory Render_Projection
  imports Notes Lines
begin

text \<open>
  \<^bold>\<open>preview/render-projection.ts\<close> of the extension: the checkpoint text the model sees, derived from the
  stored summary, its note and the branch. No candidate selected gives the stored bytes; each candidate
  changes only what it names.
\<close>

section \<open>The switch\<close>

datatype render_candidate = FoldedFailedPaths | LineageOnce | CitedRoles

fun candidate_name :: "render_candidate \<Rightarrow> jstring" where
  "candidate_name FoldedFailedPaths = js ''folded-failed-paths''"
| "candidate_name LineageOnce = js ''lineage-once''"
| "candidate_name CitedRoles = js ''cited-roles''"

definition RENDER_CANDIDATES :: "render_candidate list" where
  "RENDER_CANDIDATES = [FoldedFailedPaths, LineageOnce, CitedRoles]"

record rendering_switch =
  rn_enabled :: bool
  rn_candidates :: "render_candidate list"
  rn_invalid :: bool

definition RENDERING_OFF :: rendering_switch where
  "RENDERING_OFF = \<lparr>rn_enabled = False, rn_candidates = [], rn_invalid = False\<rparr>"

definition render_candidate_of :: "jsval \<Rightarrow> render_candidate option" where
  "render_candidate_of v = find (\<lambda>c. v = JStr (candidate_name c)) RENDER_CANDIDATES"

text \<open>The loop over the items: \<open>None\<close> at the first unknown one, a repeated one once.\<close>

fun switch_candidates :: "render_candidate list \<Rightarrow> jsval list \<Rightarrow> render_candidate list option" where
  "switch_candidates cs [] = Some cs"
| "switch_candidates cs (v # vs) = (case render_candidate_of v of
       None \<Rightarrow> None
     | Some c \<Rightarrow> switch_candidates (if c \<in> set cs then cs else cs @ [c]) vs)"

definition renderingSwitch :: "jsval \<Rightarrow> rendering_switch" where
  "renderingSwitch v =
     (let invalid = \<lparr>rn_enabled = False, rn_candidates = [], rn_invalid = True\<rparr>;
          enabled = jfield v ''enabled''; raw = jfield v ''candidates''
      in if v = JUndef then RENDERING_OFF
         else if \<not> isRecord v then invalid
         else if enabled \<noteq> JUndef \<and> (\<forall>b \<in> {True, False}. enabled \<noteq> JBool b) then invalid
         else if raw \<noteq> JUndef \<and> as_arr raw = None then invalid
         else case switch_candidates [] (arr_of raw) of
             None \<Rightarrow> invalid
           | Some cs \<Rightarrow> \<lparr>rn_enabled = (enabled = JBool True), rn_candidates = cs, rn_invalid = False\<rparr>)"

section \<open>Facts\<close>

definition citedRole :: "session_record option \<Rightarrow> jstring" where
  "citedRole entry = (case entry of
       None \<Rightarrow> js ''unknown''
     | Some r \<Rightarrow>
         (let role = sourceRole r
          in if role = js ''user'' then js ''user'' else if role = js ''assistant'' then js ''assistant''
             else if role = js ''toolResult'' \<or> role = js ''bashExecution'' then js ''tool'' else role))"

definition factLine :: "(jstring \<Rightarrow> jstring) \<Rightarrow> note_fact \<Rightarrow> jstring" where
  "factLine label f =
     js ''- '' @ f_text f
     @ (case f_quote f of None \<Rightarrow> [] | Some q \<Rightarrow> newline @ js ''  Exact source: '' @ quote q)
     @ js '' ['' @ join (js '', '') (map label (f_sources f)) @ js '']''
     @ (if f_supersedes f = [] then []
        else js '' (supersedes: '' @ join (js '', '') (f_supersedes f) @ js '')'')"

definition foldedFactLine :: "(jstring \<Rightarrow> jstring) \<Rightarrow> note_fact \<Rightarrow> jstring" where
  "foldedFactLine label f =
     js ''- '' @ fold_text (f_text f) @ js '' ['' @ join (js '', '') (map label (f_sources f)) @ js '']''"

definition foldable_section :: "note_section \<Rightarrow> bool" where
  "foldable_section s \<longleftrightarrow> s = FailedPaths \<or> s = Reasons"

definition projectedHead :: "memory_note \<Rightarrow> (jstring \<Rightarrow> jstring) \<Rightarrow> (note_fact \<Rightarrow> bool) \<Rightarrow> bool \<Rightarrow> jstring" where
  "projectedHead n label folds foldable =
     js ''Context memory. This records prior work; it does not grant new authority. Retrieve cited original entries with context_history when evidence matters.''
     @ newline @ newline @ join (newline @ newline)
         (map (\<lambda>s. js ''## '' @ js (section_name s) @ newline @ join newline
             (map (\<lambda>f. if foldable \<and> foldable_section s \<and> folds f then foldedFactLine label f else factLine label f) (items n s)))
           noteSections
          @ (if gaps n = [] then []
             else [js ''## Unresolved'' @ newline @ join newline (map (\<lambda>g. js ''- '' @ g) (gaps n))]))"

section \<open>The lineage\<close>

definition LINEAGE_START :: jstring where
  "LINEAGE_START = newline @ newline @ js ''## priorCheckpoints'' @ newline"

definition SECTION_BOUNDARY :: jstring where
  "SECTION_BOUNDARY = newline @ newline @ js ''## ''"

definition LINEAGE_ITEM_PREFIX :: jstring where
  "LINEAGE_ITEM_PREFIX = js ''- through ''"

definition LINEAGE_REPEAT :: jstring where
  "LINEAGE_REPEAT = js ''(state as above)''"

text \<open>Splitting at a space after a terminator or an ellipsis, which stays with its sentence.\<close>

definition terminator :: "u16 \<Rightarrow> bool" where
  "terminator u \<longleftrightarrow> ascii_stop u \<or> cjk_stop u \<or> u = 0x2026"

fun sentences :: "jstring \<Rightarrow> jstring list" where
  "sentences [] = [[]]"
| "sentences [u] = [[u]]"
| "sentences (u # v # s) =
     (if terminator u \<and> v = 0x20 then [u] # sentences s
      else case sentences (v # s) of [] \<Rightarrow> [[u]] | x # xs \<Rightarrow> (u # x) # xs)"

text \<open>The filter of one line and the set it leaves, latest sentence first.\<close>

fun unseen :: "jstring list \<Rightarrow> jstring list \<Rightarrow> jstring list \<times> jstring list" where
  "unseen seen [] = ([], seen)"
| "unseen seen (x # xs) =
     (if x \<in> set seen then unseen seen xs else apfst ((#) x) (unseen (x # seen) xs))"

text \<open>A line read as an item: its anchor part and its sentences.\<close>

definition lineage_line :: "jstring \<Rightarrow> (jstring \<times> jstring list) option" where
  "lineage_line line =
     (if \<not> starts_with LINEAGE_ITEM_PREFIX line then None
      else case index_from (js '': '') line (length LINEAGE_ITEM_PREFIX) of
          None \<Rightarrow> None
        | Some separator \<Rightarrow> Some (take separator line, sentences (drop (separator + 2) line)))"

definition folded_item :: "jstring \<Rightarrow> jstring list \<Rightarrow> jstring" where
  "folded_item a kept = a @ js '': '' @ (if kept \<noteq> [] then join [0x20] kept else LINEAGE_REPEAT)"

fun fold_lines :: "jstring list \<Rightarrow> jstring list \<Rightarrow> jstring list" where
  "fold_lines seen [] = []"
| "fold_lines seen (line # lines) = (case lineage_line line of
       None \<Rightarrow> line # fold_lines seen lines
     | Some (a, ss) \<Rightarrow> (case unseen seen ss of
           (kept, seen') \<Rightarrow> folded_item a kept # fold_lines seen' lines))"

definition foldLineage :: "jstring \<Rightarrow> jstring" where
  "foldLineage tail = (case index_of LINEAGE_START tail of
       None \<Rightarrow> tail
     | Some start \<Rightarrow>
         (let bodyStart = start + length LINEAGE_START;
              stop = (case index_from SECTION_BOUNDARY tail bodyStart of None \<Rightarrow> length tail | Some e \<Rightarrow> e)
          in take bodyStart tail @ join newline (fold_lines [] (text_lines (slice bodyStart stop tail))) @ drop stop tail))"

section \<open>The projection\<close>

record projection_input =
  pj_summary :: jstring
  pj_note :: memory_note
  pj_entryId :: jstring
  pj_branch :: "session_record list"
  pj_candidates :: "render_candidate list"

definition role_label :: "session_record list \<Rightarrow> jstring \<Rightarrow> jstring" where
  "role_label branch i = i @ js '' ('' @ citedRole (map_option ((!) branch) (first_at branch i)) @ js '')''"

text \<open>The last compaction before the checkpoint's own entry.\<close>

definition previous_compaction :: "session_record list \<Rightarrow> jstring \<Rightarrow> nat option" where
  "previous_compaction branch i =
     Option.bind (first_at branch i) (\<lambda>k. find_last_index is_compaction (take k branch))"

definition old_fact :: "session_record list \<Rightarrow> jstring \<Rightarrow> note_fact \<Rightarrow> bool" where
  "old_fact branch entryId f = (case previous_compaction branch entryId of
       None \<Rightarrow> False
     | Some previous \<Rightarrow> list_all (\<lambda>i. case first_at branch i of None \<Rightarrow> False | Some k \<Rightarrow> k < previous) (f_sources f))"

definition projectSummary :: "projection_input \<Rightarrow> jstring" where
  "projectSummary p =
     (let head = renderNote (pj_note p) []; cs = pj_candidates p
      in if cs = [] \<or> \<not> starts_with head (pj_summary p) then pj_summary p
         else
           (let label = (if CitedRoles \<in> set cs then role_label (pj_branch p) else id);
                foldable = (FoldedFailedPaths \<in> set cs);
                folds = (\<lambda>f. foldable \<and> old_fact (pj_branch p) (pj_entryId p) f);
                rest = drop (length head) (pj_summary p)
            in (if foldable \<or> CitedRoles \<in> set cs then projectedHead (pj_note p) label folds foldable else head)
               @ (if LineageOnce \<in> set cs then foldLineage rest else rest)))"

section \<open>Facts on the head\<close>

lemma factLine_id: "factLine id f = render_fact f"
  by (simp add: factLine_def render_fact_def)

lemma projectedHead_id:
  assumes "\<And>s f. f \<in> set (items n s) \<Longrightarrow> \<not> (foldable \<and> foldable_section s \<and> folds f)"
  shows "projectedHead n id folds foldable = renderNote n []"
proof -
  have lines: "map (\<lambda>f. if foldable \<and> foldable_section s \<and> folds f then foldedFactLine id f else factLine id f) (items n s)
      = map render_fact (items n s)" for s
    using assms by (intro map_cong) (auto simp: factLine_id)
  have "(\<lambda>s. js ''## '' @ js (section_name s) @ newline @ join newline
      (map (\<lambda>f. if foldable \<and> foldable_section s \<and> folds f then foldedFactLine id f else factLine id f) (items n s))) = render_section n"
    unfolding lines by (simp add: fun_eq_iff render_section_def)
  then show ?thesis unfolding projectedHead_def renderNote_def by simp
qed

section \<open>Facts on the lineage\<close>

text \<open>The first occurrences of a list, in order.\<close>

fun firsts :: "'a set \<Rightarrow> 'a list \<Rightarrow> 'a list" where
  "firsts A [] = []"
| "firsts A (x # xs) = (if x \<in> A then firsts A xs else x # firsts (insert x A) xs)"

lemma firsts_append: "firsts A (xs @ ys) = firsts A xs @ firsts (A \<union> set xs) ys"
  by (induction xs arbitrary: A) (auto simp: insert_absorb)

lemma firsts_distinct: "distinct (firsts A xs) \<and> set (firsts A xs) = set xs - A"
  by (induction xs arbitrary: A) auto

lemma unseen_firsts: "fst (unseen seen xs) = firsts (set seen) xs \<and> set (snd (unseen seen xs)) = set seen \<union> set xs"
  by (induction xs arbitrary: seen) auto

lemma sentences_not_Nil [simp]: "sentences s \<noteq> []"
  by (induction s rule: sentences.induct) (simp_all split: list.split)

lemma join_sentences: "join [0x20] (sentences s) = s"
proof (induction s rule: sentences.induct)
  case (3 u v s)
  obtain x xs where a: "sentences s = x # xs" by (cases "sentences s") auto
  obtain y ys where b: "sentences (v # s) = y # ys" by (cases "sentences (v # s)") auto
  show ?case using 3 a b by (cases xs; cases ys) auto
qed simp_all

lemma lineage_line_parts:
  assumes "lineage_line line = Some (a, ss)"
  shows "line = a @ js '': '' @ join [0x20] ss \<and> starts_with LINEAGE_ITEM_PREFIX a \<and> ss \<noteq> []"
proof -
  obtain k where pre: "starts_with LINEAGE_ITEM_PREFIX line" and k: "index_from (js '': '') line (length LINEAGE_ITEM_PREFIX) = Some k"
    and a: "a = take k line" and ss: "ss = sentences (drop (k + 2) line)"
    using assms by (auto simp: lineage_line_def split: if_splits option.splits)
  have len: "length LINEAGE_ITEM_PREFIX \<le> length line" using pre by (auto simp: starts_with_def dest: arg_cong[where f = length])
  with k obtain d where d: "k = length LINEAGE_ITEM_PREFIX + d" and "index_of (js '': '') (drop (length LINEAGE_ITEM_PREFIX) line) = Some d"
    by (auto simp: index_from_def Let_def min_def)
  then have "starts_with (js '': '') (drop k line)" by (auto simp: index_of_Some add.commute)
  then have "drop k line = js '': '' @ drop (k + 2) line"
    using append_take_drop_id[of 2 "drop k line"] by (simp add: starts_with_def add.commute numeral_2_eq_2)
  then have "line = a @ js '': '' @ join [0x20] ss" by (metis a ss append_take_drop_id join_sentences)
  moreover have "starts_with LINEAGE_ITEM_PREFIX a" using pre by (simp add: a d starts_with_def)
  ultimately show ?thesis by (simp add: ss)
qed

text \<open>What is shown of a line once its kept sentences are chosen.\<close>

definition shown_line :: "jstring \<Rightarrow> jstring list \<Rightarrow> jstring" where
  "shown_line line kept = (case lineage_line line of None \<Rightarrow> line | Some (a, _) \<Rightarrow> folded_item a kept)"

definition line_sentences :: "jstring \<Rightarrow> jstring list" where
  "line_sentences line = (case lineage_line line of None \<Rightarrow> [] | Some (_, ss) \<Rightarrow> ss)"

lemma fold_lines_shown:
  "\<exists>ks. length ks = length ls \<and> fold_lines seen ls = map2 shown_line ls ks \<and>
    concat ks = firsts (set seen) (concat (map line_sentences ls)) \<and>
    (\<forall>i < length ls. set (ks ! i) \<subseteq> set (line_sentences (ls ! i)))"
proof (induction ls arbitrary: seen)
  case (Cons l ls)
  show ?case
  proof (cases "lineage_line l")
    case None
    from Cons[of seen] obtain ks where ks: "length ks = length ls" "fold_lines seen ls = map2 shown_line ls ks"
      "concat ks = firsts (set seen) (concat (map line_sentences ls))"
      "\<forall>i < length ls. set (ks ! i) \<subseteq> set (line_sentences (ls ! i))" by blast
    have "shown_line l [] = l" "line_sentences l = []" using None by (simp_all add: shown_line_def line_sentences_def)
    then show ?thesis using None ks
      by (intro exI[of _ "[] # ks"]) (auto simp: nth_Cons split: nat.split)
  next
    case (Some p)
    obtain a ss where p: "p = (a, ss)" by (cases p)
    obtain kept seen' where u: "unseen seen ss = (kept, seen')" by (cases "unseen seen ss")
    from unseen_firsts[of seen ss] u have kept: "kept = firsts (set seen) ss" "set seen' = set seen \<union> set ss" by simp_all
    from Cons[of seen'] obtain ks where ks: "length ks = length ls" "fold_lines seen' ls = map2 shown_line ls ks"
      "concat ks = firsts (set seen') (concat (map line_sentences ls))"
      "\<forall>i < length ls. set (ks ! i) \<subseteq> set (line_sentences (ls ! i))" by blast
    have "set kept \<subseteq> set ss" using firsts_distinct[of "set seen" ss] kept by auto
    moreover have "shown_line l kept = folded_item a kept" "line_sentences l = ss" using Some p by (simp_all add: shown_line_def line_sentences_def)
    ultimately show ?thesis using Some ks kept u p
      by (intro exI[of _ "kept # ks"]) (auto simp: firsts_append nth_Cons split: nat.split)
  qed
qed simp

section \<open>Properties\<close>

text \<open>
  C17: \<^bold>\<open>The lineage is shown once.\<close> With the lineage candidate alone, a summary with a lineage section keeps
  everything outside that section byte for byte; inside it every line stays in its place, a line that is no item
  unchanged and an item with its anchor; and the sentences the items show, in order, are exactly the distinct
  sentences the stored items hold, each at its first place.
\<close>

theorem lineage_shown_once:
  assumes "pj_candidates p = [LineageOnce]" and "pj_summary p = renderNote (pj_note p) [] @ front @ LINEAGE_START @ body @ back"
    and "index_of LINEAGE_START (front @ LINEAGE_START @ body @ back) = Some (length front)"
    and "case index_of SECTION_BOUNDARY (body @ back) of None \<Rightarrow> back = [] | Some e \<Rightarrow> e = length body"
  shows "\<exists>ks. length ks = length (text_lines body) \<and>
    projectSummary p = renderNote (pj_note p) [] @ front @ LINEAGE_START @ join newline (map2 shown_line (text_lines body) ks) @ back \<and>
    concat ks = firsts {} (concat (map line_sentences (text_lines body))) \<and>
    (\<forall>i < length ks. set (ks ! i) \<subseteq> set (line_sentences (text_lines body ! i)))"
proof -
  let ?rest = "front @ LINEAGE_START @ body @ back" and ?at = "length front + length LINEAGE_START"
  obtain ks where ks: "length ks = length (text_lines body)" "fold_lines [] (text_lines body) = map2 shown_line (text_lines body) ks"
      "concat ks = firsts {} (concat (map line_sentences (text_lines body)))"
      "\<forall>i < length (text_lines body). set (ks ! i) \<subseteq> set (line_sentences (text_lines body ! i))"
    using fold_lines_shown[of "text_lines body" "[]"] by auto
  have "(case index_from SECTION_BOUNDARY ?rest ?at of None \<Rightarrow> length ?rest | Some e \<Rightarrow> e) = ?at + length body"
    using assms(4) by (auto simp: index_from_def Let_def split: option.splits)
  then have "foldLineage ?rest = front @ LINEAGE_START @ join newline (map2 shown_line (text_lines body) ks) @ back"
    unfolding foldLineage_def assms(3) option.case Let_def ks(2)[symmetric] by (simp add: slice_def)
  then have "projectSummary p = renderNote (pj_note p) [] @ front @ LINEAGE_START @ join newline (map2 shown_line (text_lines body) ks) @ back"
    by (simp add: projectSummary_def Let_def assms(1,2) starts_with_def)
  with ks show ?thesis by (intro exI[of _ ks]) simp
qed

text \<open>
  \<^bold>\<open>Only old failures fold.\<close> Without the role candidate, when no failed path and no reason has all its
  sources before the previous checkpoint, and the lineage is not folded, the model sees the stored summary
  byte for byte.
\<close>

theorem projectSummary_stable:
  assumes "CitedRoles \<notin> set (pj_candidates p)" and "LineageOnce \<notin> set (pj_candidates p)"
    and "\<forall>s f. f \<in> set (items (pj_note p) s) \<and> old_fact (pj_branch p) (pj_entryId p) f \<longrightarrow> s \<noteq> FailedPaths \<and> s \<noteq> Reasons"
  shows "projectSummary p = pj_summary p"
proof (cases "starts_with (renderNote (pj_note p) []) (pj_summary p)")
  case True
  then have "renderNote (pj_note p) [] @ drop (length (renderNote (pj_note p) [])) (pj_summary p) = pj_summary p"
    by (metis append_take_drop_id starts_with_def)
  moreover have "projectedHead (pj_note p) id (\<lambda>f. FoldedFailedPaths \<in> set (pj_candidates p) \<and> old_fact (pj_branch p) (pj_entryId p) f)
      (FoldedFailedPaths \<in> set (pj_candidates p)) = renderNote (pj_note p) []"
    using assms(3) by (intro projectedHead_id) (auto simp: foldable_section_def)
  ultimately show ?thesis using assms(1,2)
    by (cases "FoldedFailedPaths \<in> set (pj_candidates p)") (simp_all add: projectSummary_def Let_def)
qed (simp add: projectSummary_def Let_def)

section \<open>Witnesses\<close>

definition bare_note :: memory_note where
  "bare_note = JObj []"

definition sample_lineage :: jstring where
  "sample_lineage = js ''- through a: Port open. Build red.'' @ newline @ js ''- through b: Build red.''"

definition lineage_projection :: "render_candidate \<Rightarrow> projection_input" where
  "lineage_projection c = \<lparr>pj_summary = renderNote bare_note [] @ LINEAGE_START @ sample_lineage, pj_note = bare_note,
     pj_entryId = js ''k'', pj_branch = [], pj_candidates = [c]\<rparr>"

lemma sample_lineage_facts:
  "index_of LINEAGE_START (LINEAGE_START @ sample_lineage) = Some 0" "index_of SECTION_BOUNDARY sample_lineage = None"
  "length (text_lines sample_lineage) = 2"
  "concat (map line_sentences (text_lines sample_lineage)) = [js ''Port open.'', js ''Build red.'', js ''Build red.'']"
  by code_simp+

theorem lineage_shown_once_witness:
  "\<exists>ks. length ks = 2 \<and> projectSummary (lineage_projection LineageOnce) = renderNote bare_note [] @ LINEAGE_START @
     join newline (map2 shown_line (text_lines sample_lineage) ks) \<and> concat ks = [js ''Port open.'', js ''Build red.'']"
proof -
  have "\<exists>ks. length ks = length (text_lines sample_lineage) \<and>
      projectSummary (lineage_projection LineageOnce) = renderNote (pj_note (lineage_projection LineageOnce)) [] @ [] @ LINEAGE_START @
        join newline (map2 shown_line (text_lines sample_lineage) ks) @ [] \<and>
      concat ks = firsts {} (concat (map line_sentences (text_lines sample_lineage))) \<and>
      (\<forall>i < length ks. set (ks ! i) \<subseteq> set (line_sentences (text_lines sample_lineage ! i)))"
    by (rule lineage_shown_once) (simp_all add: lineage_projection_def sample_lineage_facts)
  moreover have "firsts {} [js ''Port open.'', js ''Build red.'', js ''Build red.''] = [js ''Port open.'', js ''Build red.'']" by simp
  ultimately show ?thesis
    unfolding sample_lineage_facts(3,4) by (simp add: lineage_projection_def) blast
qed

theorem projectSummary_stable_witness:
  "projectSummary (lineage_projection FoldedFailedPaths) = renderNote bare_note [] @ LINEAGE_START @ sample_lineage"
proof -
  have "projectSummary (lineage_projection FoldedFailedPaths) = pj_summary (lineage_projection FoldedFailedPaths)"
    by (rule projectSummary_stable) (simp_all add: lineage_projection_def items_def arr_of_def bare_note_def)
  then show ?thesis by (simp add: lineage_projection_def)
qed

end
