(* ===== verification/Host_Codecs.thy ===== *)
theory Host_Codecs
  imports History
begin

text \<open>
  The two history adapters, \<^bold>\<open>compaction-dsh\<close> and \<^bold>\<open>compaction-opencode\<close>: how a native log becomes the
  snapshot the history tools search. A native event, message or part is the JSON value it is stored as; it is
  canonicalized and parsed again before it is read, so that its key order is settled. \<open>iso_time\<close> is
  \<open>new Date(time).toISOString()\<close>, which may throw.

  The locale \<open>history_codec\<close> states what the history tools need of an adapter; both satisfy it, and a cursor
  made over a log stays good when the log grows.
\<close>

section \<open>Reading a native value\<close>

definition source_invalid :: "string \<Rightarrow> 'a res" where
  "source_invalid m = throw HISTORY_SOURCE_INVALID m"

text \<open>\<open>JSON.parse(canonicalize(input))\<close>\<close>

definition reparse :: "host \<Rightarrow> jsval \<Rightarrow> jsval res" where
  "reparse h v = bind_res (canonicalize v) (\<lambda>s. case json_parse (read_number h) s of
       None \<Rightarrow> throw PlainError ''SyntaxError''
     | Some w \<Rightarrow> Inr w)"

abbreviation s_field :: "jsval \<Rightarrow> string \<Rightarrow> jstring" where
  "s_field v k \<equiv> str_of (jfield v k)"

text \<open>\<open>String(value)\<close> of a number.\<close>

definition number_name :: "jsval \<Rightarrow> jstring" where
  "number_name v = (case v of JNum n \<Rightarrow> num_str n | _ \<Rightarrow> [])"

definition leaf_id :: "session_record list \<Rightarrow> jstring option" where
  "leaf_id rs = (if rs = [] then None else Some (r_id (last rs)))"

definition snapshot_of :: "host \<Rightarrow> jstring \<Rightarrow> session_record list \<Rightarrow> history_snapshot" where
  "snapshot_of h sessionId rs = \<lparr>hs_sessionId = sessionId, hs_leafId = leaf_id rs, hs_scopeHash = hash_native h rs, hs_entries = rs\<rparr>"

definition base_fields :: "jstring \<Rightarrow> jstring option \<Rightarrow> jstring \<Rightarrow> (string \<times> jsval) list" where
  "base_fields i parent time = [(''id'', JStr i), (''parentId'', parent_json parent), (''timestamp'', JStr time)]"

definition custom_entry :: "jstring \<Rightarrow> jstring option \<Rightarrow> jstring \<Rightarrow> jstring \<Rightarrow> jsval \<Rightarrow> session_record" where
  "custom_entry i parent time kind data = \<lparr>r_id = i, r_parent = parent, r_time = time, r_body = Custom kind data,
     r_native = obj (base_fields i parent time @
       [(''type'', JStr (js ''custom'')), (''customType'', JStr kind), (''data'', data)])\<rparr>"

text \<open>A message literal: its role and content, and a tool result's call, name and error flag.\<close>

definition tool_fields :: "jstring \<Rightarrow> jstring option \<Rightarrow> bool \<Rightarrow> message \<Rightarrow> message" where
  "tool_fields callId name failed m = m\<lparr>m_toolCallId := Some callId, m_toolName := name, m_isError := Some failed\<rparr>"

definition plain_message :: "jstring \<Rightarrow> block list \<Rightarrow> message" where
  "plain_message role blocks = \<lparr>m_role = role, m_content = Some (Blocks blocks), m_stopReason = None, m_errorMessage = None,
     m_toolCallId = None, m_toolName = None, m_isError = None, m_command = None, m_output = None, m_exitCode = None,
     m_fullOutputPath = None, m_excludeFromContext = None\<rparr>"

definition message_entry :: "jstring \<Rightarrow> jstring option \<Rightarrow> jstring \<Rightarrow> message \<Rightarrow> session_record" where
  "message_entry i parent time m = \<lparr>r_id = i, r_parent = parent, r_time = time, r_body = Message m,
     r_native = obj (base_fields i parent time @ [(''type'', JStr (js ''message'')), (''message'', JObj (present (messageFields m)))])\<rparr>"

lemma entry_ids [simp]:
  "r_id (custom_entry i p t k d) = i" "r_id (message_entry i p t m) = i"
  "r_parent (custom_entry i p t k d) = p" "r_parent (message_entry i p t m) = p"
  by (simp_all add: custom_entry_def message_entry_def)

section \<open>The DSH log\<close>

definition text_of_block :: "jsval \<Rightarrow> block list" where
  "text_of_block b = (if jfield b ''type'' = JStr (js ''text'')
     then [obj [(''type'', JStr (js ''text'')), (''text'', jfield b ''text'')]] else [])"

text \<open>\<open>content[0].nativeEvent = event\<close>\<close>

definition attach_first :: "string \<Rightarrow> jsval \<Rightarrow> block list \<Rightarrow> block list" where
  "attach_first k v bs = (case bs of [] \<Rightarrow> [] | b # rest \<Rightarrow> jset b k v # rest)"

definition dsh_message :: "jsval \<Rightarrow> jsval" where
  "dsh_message event =
     (if jfield event ''type'' = JStr (js ''user/message'') then jfield event ''data''
      else if jfield event ''type'' = JStr (js ''assistant/message'') \<or> jfield event ''type'' = JStr (js ''tool/result'')
        then jfield (jfield event ''data'') ''message'' else JUndef)"

definition dsh_role :: "jsval \<Rightarrow> jstring" where
  "dsh_role m =
     (if s_field m ''role'' = js ''tool'' then js ''toolResult''
      else if s_field m ''role'' = js ''user'' \<and> jfield (jfield m ''source'') ''kind'' \<noteq> JStr (js ''user'') then js ''context''
      else s_field m ''role'')"

definition dsh_entry :: "jstring \<Rightarrow> (jstring \<times> jstring) list \<Rightarrow> jstring option \<Rightarrow> jsval \<Rightarrow> session_record" where
  "dsh_entry time toolNames parent event =
     (let i = number_name (jfield event ''seq''); m = dsh_message event;
          blocks = concat (map text_of_block (arr_of (jfield m ''content'')));
          custom = custom_entry i parent time (js ''dsh:'' @ s_field event ''type'') event
      in if \<not> isRecord m \<or> blocks = [] then custom
         else
           (let callId = s_field m ''toolCallId'';
                plain = plain_message (dsh_role m) (attach_first ''nativeEvent'' event blocks)
            in message_entry i parent time
                 (if s_field m ''role'' = js ''tool''
                  then tool_fields callId (map_of toolNames callId) (jfield m ''isError'' = JBool True) plain else plain)))"

definition dsh_tool_names :: "jsval \<Rightarrow> (jstring \<times> jstring) list \<Rightarrow> (jstring \<times> jstring) list" where
  "dsh_tool_names event toolNames =
     (if jfield event ''type'' = JStr (js ''tool/call'')
      then obj_put (s_field (jfield event ''data'') ''callId'') (s_field (jfield event ''data'') ''name'') toolNames
      else toolNames)"

fun dsh_loop :: "host \<Rightarrow> (jsval \<Rightarrow> jstring res) \<Rightarrow> session_record list \<Rightarrow> (jstring \<times> jstring) list \<Rightarrow> jsval list
    \<Rightarrow> session_record list res" where
  "dsh_loop h iso_time entries toolNames [] = Inr entries"
| "dsh_loop h iso_time entries toolNames (input # rest) =
     (if jfield input ''seq'' \<noteq> JNum (JInt (int (length entries)))
      then source_invalid ''HISTORY_SOURCE_INVALID: expected the complete contiguous DSH log''
      else bind_res (reparse h input) (\<lambda>event. bind_res (iso_time (jfield event ''time'')) (\<lambda>time.
        dsh_loop h iso_time (entries @ [dsh_entry time (dsh_tool_names event toolNames) (leaf_id entries) event])
          (dsh_tool_names event toolNames) rest)))"

text \<open>Every event pushes one entry, so the index of an event is the number of entries before it.\<close>

definition dshHistorySnapshot :: "host \<Rightarrow> (jsval \<Rightarrow> jstring res) \<Rightarrow> jstring \<Rightarrow> jsval list \<Rightarrow> history_snapshot res" where
  "dshHistorySnapshot h iso_time sessionId events =
     bind_res (dsh_loop h iso_time [] [] events) (\<lambda>entries. Inr (snapshot_of h sessionId entries))"

section \<open>The OpenCode messages\<close>

definition native_id :: "session_record list \<Rightarrow> jstring \<Rightarrow> unit res" where
  "native_id entries i =
     (if i = [] \<or> 64 < length i \<or> i \<in> set (map r_id entries)
      then source_invalid ''HISTORY_SOURCE_INVALID: invalid or duplicate native ID'' else Inr ())"

definition part_entry :: "jsval \<Rightarrow> jstring \<Rightarrow> jstring option \<Rightarrow> jsval \<Rightarrow> session_record" where
  "part_entry info time parent part =
     (let i = s_field part ''id''; kind = s_field part ''type''; state = jfield part ''state''; status = s_field state ''status'';
          block = (\<lambda>t. [obj [(''type'', JStr (js ''text'')), (''text'', t), (''nativePart'', part)]])
      in if kind = js ''text'' \<and> jfield part ''ignored'' \<noteq> JBool True then
           message_entry i parent time (plain_message
             (if jfield part ''synthetic'' = JBool True \<or> s_field info ''role'' = js ''assistant'' \<and> jfield info ''summary'' = JBool True
              then js ''context'' else s_field info ''role'') (block (jfield part ''text'')))
         else if kind = js ''tool'' \<and> (status = js ''completed'' \<or> status = js ''error'') then
           message_entry i parent time
             (tool_fields (s_field part ''callID'') (Some (s_field part ''tool'')) (status = js ''error'')
               (plain_message (js ''toolResult'')
                 (block (if status = js ''completed'' then jfield state ''output'' else jfield state ''error''))))
         else custom_entry i parent time (js ''opencode:'' @ kind) part)"

fun part_loop :: "jstring \<Rightarrow> jsval \<Rightarrow> jstring \<Rightarrow> session_record list \<Rightarrow> jsval list \<Rightarrow> session_record list res" where
  "part_loop sessionId info time entries [] = Inr entries"
| "part_loop sessionId info time entries (part # rest) =
     (if jfield part ''sessionID'' \<noteq> JStr sessionId \<or> jfield part ''messageID'' \<noteq> jfield info ''id''
      then throw HISTORY_SCOPE_DENIED ''HISTORY_SCOPE_DENIED: part belongs to another message or session''
      else bind_res (native_id entries (s_field part ''id'')) (\<lambda>_.
        part_loop sessionId info time (entries @ [part_entry info time (leaf_id entries) part]) rest))"

fun message_loop :: "host \<Rightarrow> (jsval \<Rightarrow> jstring res) \<Rightarrow> jstring \<Rightarrow> session_record list \<Rightarrow> jsval list \<Rightarrow> session_record list res" where
  "message_loop h iso_time sessionId entries [] = Inr entries"
| "message_loop h iso_time sessionId entries (input # rest) =
     bind_res (reparse h input) (\<lambda>envelope.
       let info = jfield envelope ''info''; i = s_field info ''id''
       in if jfield info ''sessionID'' \<noteq> JStr sessionId
          then throw HISTORY_SCOPE_DENIED ''HISTORY_SCOPE_DENIED: message belongs to another session''
          else bind_res (native_id entries i) (\<lambda>_. bind_res (iso_time (jfield (jfield info ''time'') ''created'')) (\<lambda>time.
            bind_res (part_loop sessionId info time (entries @ [custom_entry i (leaf_id entries) time (js ''opencode:message'') info])
                (arr_of (jfield envelope ''parts'')))
              (\<lambda>entries'. message_loop h iso_time sessionId entries' rest))))"

definition openCodeHistorySnapshot :: "host \<Rightarrow> (jsval \<Rightarrow> jstring res) \<Rightarrow> jstring \<Rightarrow> jsval list \<Rightarrow> history_snapshot res" where
  "openCodeHistorySnapshot h iso_time sessionId messages =
     bind_res (message_loop h iso_time sessionId [] messages) (\<lambda>entries. Inr (snapshot_of h sessionId entries))"

section \<open>What an adapter promises\<close>

locale history_codec =
  fixes h :: host and sessionId :: jstring and ok :: "jsval \<Rightarrow> bool" and snapshot :: "jsval list \<Rightarrow> history_snapshot res"
  assumes session_kept: "snapshot es = Inr s \<Longrightarrow> hs_sessionId s = sessionId"
    and leaf_last: "snapshot es = Inr s \<Longrightarrow> hs_leafId s = leaf_id (hs_entries s)"
    and scope_hashed: "snapshot es = Inr s \<Longrightarrow> hs_scopeHash s = hash_native h (hs_entries s)"
    and ids_distinct: "list_all ok es \<Longrightarrow> snapshot es = Inr s \<Longrightarrow> distinct (map r_id (hs_entries s))"
    and log_grows: "snapshot (es @ later) = Inr t \<Longrightarrow> \<exists>s rs. snapshot es = Inr s \<and> hs_entries t = hs_entries s @ rs"
begin

lemma cursor_survives_growth:
  assumes "documented_codec codec" and "documented_numbers h" and "list_all ok es"
    and s: "snapshot es = Inr s" and t: "snapshot (es @ later) = Inr t"
    and "queryHistory h codec s request budget = Inr page" and "hp_cursor page = Some cursor"
    and "jfield request ''cursor'' = JUndef" and "jfield follow ''cursor'' = JStr cursor"
    and "query_signature h follow = query_signature h request"
    and "hs_entries s \<noteq> []" and "int (length (hs_entries s)) \<le> max_safe_integer"
    and "list_all (\<lambda>r. int (length (sourceText r)) \<le> max_safe_integer) (hs_entries s)"
    and "hs_scopeHash t \<noteq> hs_scopeHash s"
  shows "queryHistory h codec t follow budget' = queryHistory h codec s follow budget'"
proof -
  obtain rs where "hs_entries t = hs_entries s @ rs" using log_grows[OF t] s by auto
  then show ?thesis
    using assms leaf_last[OF s] scope_hashed[OF s] ids_distinct[OF assms(3) s] session_kept[OF s] session_kept[OF t]
    by (intro cursor_pinned[where request = request and page = page and budget = budget and cursor = cursor and later = rs])
      (simp_all add: leaf_id_def)
qed

end

section \<open>What reading again keeps\<close>

text \<open>The properties of every object in enumeration order.\<close>

fun remake :: "jsval \<Rightarrow> jsval" where
  "remake (JArr xs) = JArr (map remake xs)"
| "remake (JObj ps) = JObj (js_object (map (\<lambda>p. (fst p, remake (snd p))) ps))"
| "remake v = v"

lemma js_object_Nil [simp]: "js_object [] = []"
  by (simp add: js_object_def key_order_def write_props_def)

lemma apfst_apfst: "apfst f (apfst g p) = apfst (\<lambda>x. f (g x)) p"
  by (cases p) simp

lemma parse_remake:
  "parse_val js_object num f s = map_option (apfst remake) (parse_val id num f s)"
  "parse_elems js_object num f s = map_option (apfst (map remake)) (parse_elems id num f s)"
  "parse_members js_object num f s = map_option (apfst (map (\<lambda>p. (fst p, remake (snd p))))) (parse_members id num f s)"
proof (induction f arbitrary: s)
  case (Suc f)
  {
    case 1
    show ?case using Suc by (auto simp: option.map_comp comp_def parse_num_def Let_def apfst_apfst split: list.split)
  next
    case 2
    show ?case using Suc by (auto simp: option.map_comp comp_def apfst_apfst split: list.split option.split prod.split)
  next
    case 3
    show ?case using Suc by (auto simp: option.map_comp comp_def apfst_apfst split: list.split option.split prod.split)
  }
qed simp_all

lemma map_of_snd: "map_of (map (\<lambda>p. (fst p, f (snd p))) ps) k = map_option f (map_of ps k)"
  by (induction ps) auto

lemma map_of_same_set:
  "distinct (map fst ps) \<Longrightarrow> mset qs = mset ps \<Longrightarrow> map_of qs = map_of ps"
  by (metis map_of_inject_set mset_eq_imp_distinct_iff mset_map set_mset_mset)

lemma jget_sorted_form:
  assumes "distinct (map fst ps)"
  shows "jget (sorted_form (JObj ps)) k = sorted_form (jget (JObj ps) k)"
proof -
  have "map_of (sort_key fst (map (\<lambda>p. (fst p, sorted_form (snd p))) ps)) = map_of (map (\<lambda>p. (fst p, sorted_form (snd p))) ps)"
    using assms by (intro map_of_same_set) (simp_all add: comp_def)
  then have "map_of (sort_key fst (map (\<lambda>p. (fst p, sorted_form (snd p))) ps)) k = map_option sorted_form (map_of ps k)"
    by (simp only: map_of_snd)
  then show ?thesis by (simp add: jget_JObj split: option.split)
qed

lemma jget_remake:
  assumes "distinct (map fst ps)"
  shows "jget (remake (JObj ps)) k = remake (jget (JObj ps) k)"
proof -
  have "map_of (js_object (map (\<lambda>p. (fst p, remake (snd p))) ps)) = map_of (map (\<lambda>p. (fst p, remake (snd p))) ps)"
    using assms by (intro map_of_same_set mset_js_object) (simp_all add: comp_def)
  then have "map_of (js_object (map (\<lambda>p. (fst p, remake (snd p))) ps)) k = map_option remake (map_of ps k)"
    by (simp only: map_of_snd)
  then show ?thesis by (simp add: jget_JObj split: option.split)
qed

text \<open>Reading a JSON value again succeeds with the same fields, up to the key order inside them.\<close>

lemma sorted_reads: "reads_by mk num v \<Longrightarrow> reads_by id num (sorted_form v)"
proof (induction v)
  case (JObj ps)
  have "reads_by id num (sorted_form v)" if "(k, v) \<in> set ps" for k v
    using JObj.prems that by (intro JObj.IH[OF that]) auto
  then show ?case by (auto simp: id_def)
qed (auto simp: id_def)

lemma reparse_value:
  assumes "json_reads (read_number h) v" and "reparse h v = Inr w"
  shows "w = remake (sorted_form v)"
proof -
  obtain s where s: "canonicalize v = Inr s" "json_parse (read_number h) s = Some w"
    using assms(2) by (auto simp: reparse_def split: option.splits)
  have "s = stringify (sorted_form v)" by (rule canonicalize_stringify[OF s(1)])
  moreover have "parse_val id (read_number h) (Suc (length (stringify (sorted_form v)))) (stringify (sorted_form v)) = Some (sorted_form v, [])"
    using parse_stringify(1)[OF sorted_reads[OF assms(1)], of "Suc (length (stringify (sorted_form v)))" "[]"] by simp
  ultimately have "parse_val js_object (read_number h) (Suc (length s)) s = Some (remake (sorted_form v), [])"
    by (simp only: parse_remake(1)) simp
  then show ?thesis using s(2) by (simp only: json_parse_def) (simp add: skip_ws_def)
qed

lemma reparse_number:
  assumes "json_reads (read_number h) v" and "reparse h v = Inr w" and "jget v k = JNum n"
  shows "jget w k = JNum n"
proof -
  obtain ps where ps: "v = JObj ps" using assms(3) by (cases v) (simp_all add: jget_def)
  have "distinct (map fst ps)" using assms(1) by (simp add: ps js_object_fixed_distinct)
  define qs where "qs = sort_key fst (map (\<lambda>p. (fst p, sorted_form (snd p))) ps)"
  have qs: "sorted_form v = JObj qs" by (simp add: ps qs_def)
  have "mset (map fst qs) = mset (map fst ps)" by (simp add: qs_def image_mset.compositionality comp_def)
  with \<open>distinct (map fst ps)\<close> have "distinct (map fst qs)" by (metis mset_eq_imp_distinct_iff)
  then have "jget w k = remake (jget (sorted_form v) k)"
    using jget_remake[of qs k] reparse_value[OF assms(1,2)] by (simp only: qs)
  also have "\<dots> = JNum n" using jget_sorted_form[OF \<open>distinct (map fst ps)\<close>, of k] assms(3) by (simp add: ps)
  finally show ?thesis .
qed

section \<open>The DSH adapter\<close>

text \<open>An entry carries a native value: as its data, or under \<open>k\<close> on its first block.\<close>

definition carries :: "string \<Rightarrow> session_record \<Rightarrow> jsval \<Rightarrow> bool" where
  "carries k r event = (case r_body r of
       Custom _ d \<Rightarrow> d = event
     | Message m \<Rightarrow> (case m_content m of Some (Blocks (b # bs)) \<Rightarrow> jfield b k = event | _ \<Rightarrow> False)
     | _ \<Rightarrow> False)"

lemma text_of_block_obj: "b \<in> set (text_of_block c) \<Longrightarrow> \<exists>ps. b = JObj ps \<and> jfield b ''type'' = JStr (js ''text'')"
  by (auto simp: text_of_block_def obj_def split: if_splits)

definition dsh_human :: "jsval \<Rightarrow> bool" where
  "dsh_human event \<longleftrightarrow> s_field (dsh_message event) ''role'' = js ''user'' \<and>
     jfield (jfield (dsh_message event) ''source'') ''kind'' = JStr (js ''user'')"

definition dsh_text :: "jsval \<Rightarrow> jstring" where
  "dsh_text event = join newline (map (\<lambda>b. s_field b ''text'')
     (filter (\<lambda>b. jfield b ''type'' = JStr (js ''text'')) (arr_of (jfield (dsh_message event) ''content''))))"

text \<open>
  An entry stands for a native value: it carries it, only a human's message has the role of the user, and
  the text it is searched by is the text of the native value.
\<close>

definition stands_for :: "string \<Rightarrow> session_record \<Rightarrow> jsval \<Rightarrow> bool \<Rightarrow> jstring \<Rightarrow> bool" where
  "stands_for k r v human words \<longleftrightarrow> carries k r v \<and> (sourceRole r = js ''user'' \<longrightarrow> human) \<and>
     (sourceRole r = js ''bashExecution'' \<or> sourceText r = [] \<or> sourceText r = words)"

abbreviation dsh_own :: "session_record \<Rightarrow> jsval \<Rightarrow> bool" where
  "dsh_own r event \<equiv> stands_for ''nativeEvent'' r event (dsh_human event) (dsh_text event)"

lemma block_text_text: "jfield b ''type'' = JStr (js ''text'') \<Longrightarrow> block_text b = s_field b ''text''"
  by (simp add: block_text_def b_type_def b_str_def str_of_def)

lemma custom_stands: "stands_for k (custom_entry i parent time kind d) d human words"
  by (simp add: stands_for_def carries_def custom_entry_def sourceRole_def sourceText_def)

lemma message_stands:
  assumes "m_content m = Some (Blocks (b # bs))" and "jfield b k = v" and "m_role m = js ''user'' \<Longrightarrow> human"
    and "join newline (map block_text (b # bs)) = words"
  shows "stands_for k (message_entry i parent time m) v human words"
  using assms by (simp add: stands_for_def carries_def message_entry_def sourceRole_def sourceText_def message_text_def)

lemma text_blocks_text:
  "map block_text (concat (map text_of_block bs)) = map (\<lambda>b. s_field b ''text'') (filter (\<lambda>b. jfield b ''type'' = JStr (js ''text'')) bs)"
  by (induction bs) (auto simp: text_of_block_def block_text_text obj_def)

lemma dsh_role_user: "dsh_role m = js ''user'' \<Longrightarrow>
    s_field m ''role'' = js ''user'' \<and> jfield (jfield m ''source'') ''kind'' = JStr (js ''user'')"
  by (auto simp: dsh_role_def split: if_splits)

lemma dsh_entry_ids:
  "r_id (dsh_entry time names parent event) = number_name (jfield event ''seq'')"
  "r_parent (dsh_entry time names parent event) = parent"
  by (simp_all add: dsh_entry_def Let_def)

lemma dsh_entry_own: "dsh_own (dsh_entry time names parent event) event"
proof -
  let ?blocks = "concat (map text_of_block (arr_of (jfield (dsh_message event) ''content'')))"
  show ?thesis
  proof (cases "\<not> isRecord (dsh_message event) \<or> ?blocks = []")
    case True
    then show ?thesis by (auto simp: dsh_entry_def Let_def custom_stands)
  next
    case False
    then obtain b bs where b: "?blocks = b # bs" by (cases ?blocks) auto
    then have "b \<in> set ?blocks" by simp
    then obtain ps where ps: "b = JObj ps" and type: "jfield b ''type'' = JStr (js ''text'')"
      using text_of_block_obj by fastforce
    let ?b = "jset b ''nativeEvent'' event"
    have fields: "jfield ?b ''nativeEvent'' = event" "jfield ?b ''type'' = jfield b ''type''" "jfield ?b ''text'' = jfield b ''text''"
      by (simp_all add: jfield_jset ps isRecord_def)
    have "map block_text (?b # bs) = map block_text ?blocks" using type by (simp add: b block_text_text fields)
    then have words: "join newline (map block_text (?b # bs)) = dsh_text event" by (simp only: text_blocks_text dsh_text_def)
    show ?thesis using False dsh_role_user unfolding dsh_entry_def Let_def b
      by (auto simp: attach_first_def tool_fields_def plain_message_def dsh_human_def
          intro!: message_stands[OF _ fields(1) _ words])
  qed
qed

text \<open>The entries of the first events of a log.\<close>

definition dsh_faithful :: "host \<Rightarrow> jsval list \<Rightarrow> session_record list \<Rightarrow> bool" where
  "dsh_faithful h events rs \<longleftrightarrow> length rs = length events \<and>
     (\<forall>i < length events. jfield (events ! i) ''seq'' = JNum (JInt (int i)) \<and> r_id (rs ! i) = nat_str i \<and> r_parent (rs ! i) = (if i = 0 then None else Some (nat_str (i - 1))) \<and>
        (\<exists>event. reparse h (events ! i) = Inr event \<and> dsh_own (rs ! i) event))"

lemma dsh_faithful_snoc:
  assumes "dsh_faithful h events rs" and "reparse h e = Inr event" and "r_id r = nat_str (length rs)" and "r_parent r = leaf_id rs"
    and "jfield e ''seq'' = JNum (JInt (int (length rs)))" and "dsh_own r event"
  shows "dsh_faithful h (events @ [e]) (rs @ [r])"
proof -
  have len: "length rs = length events" using assms(1) by (simp add: dsh_faithful_def)
  have "leaf_id rs = (if length rs = 0 then None else Some (nat_str (length rs - 1)))"
    using assms(1) by (auto simp: dsh_faithful_def leaf_id_def last_conv_nth)
  then show ?thesis using assms len
    by (auto simp: dsh_faithful_def nth_append less_Suc_eq)
qed

lemma dsh_loop_faithful:
  "dsh_loop h iso_time acc names es = Inr rs \<Longrightarrow> list_all (json_reads (read_number h)) es \<Longrightarrow> dsh_faithful h done acc \<Longrightarrow> dsh_faithful h (done @ es) rs"
proof (induction es arbitrary: acc names "done")
  case (Cons e es)
  obtain event time where e: "jfield e ''seq'' = JNum (JInt (int (length acc)))" "reparse h e = Inr event"
    and rest: "dsh_loop h iso_time (acc @ [dsh_entry time (dsh_tool_names event names) (leaf_id acc) event]) (dsh_tool_names event names) es = Inr rs"
    using Cons.prems(1) by (auto simp: source_invalid_def throw_def split: if_splits)
  have "jfield event ''seq'' = JNum (JInt (int (length acc)))"
    using Cons.prems(2) by (intro reparse_number[OF _ e(2,1)]) simp
  then have "dsh_faithful h (done @ [e]) (acc @ [dsh_entry time (dsh_tool_names event names) (leaf_id acc) event])"
    using Cons.prems(3) e(2)
    by (intro dsh_faithful_snoc[OF _ _ _ _ e(1) dsh_entry_own]) (simp_all add: dsh_entry_ids number_name_def int_str_def)
  from Cons.IH[OF rest _ this] Cons.prems(2) show ?case by simp
qed simp

lemma dsh_loop_extends: "dsh_loop h iso_time acc names es = Inr rs \<Longrightarrow> \<exists>more. rs = acc @ more"
proof (induction es arbitrary: acc names)
  case (Cons e es)
  then show ?case by (fastforce simp: source_invalid_def throw_def split: if_splits)
qed simp

lemma dsh_loop_prefix: "dsh_loop h iso_time acc names (es @ fs) = Inr rs \<Longrightarrow> \<exists>ms more. dsh_loop h iso_time acc names es = Inr ms \<and> rs = ms @ more"
proof (induction es arbitrary: acc names)
  case Nil
  then show ?case using dsh_loop_extends by fastforce
next
  case (Cons e es)
  then show ?case by (fastforce simp: source_invalid_def throw_def split: if_splits)
qed

lemma nat_str_eqD: "nat_str a = nat_str b \<Longrightarrow> a = b"
  by (metis digits_value_nat_str option.inject)

lemma dsh_snapshot_Inr:
  "dshHistorySnapshot h iso_time sessionId es = Inr s \<longleftrightarrow> (\<exists>rs. dsh_loop h iso_time [] [] es = Inr rs \<and> s = snapshot_of h sessionId rs)"
  by (auto simp: dshHistorySnapshot_def bind_res_eq_Inr)

lemma dsh_snapshot_ids:
  assumes "list_all (json_reads (read_number h)) es" and "dshHistorySnapshot h iso_time sessionId es = Inr s"
  shows "dsh_faithful h es (hs_entries s)" and "distinct (map r_id (hs_entries s))"
proof -
  obtain rs where rs: "dsh_loop h iso_time [] [] es = Inr rs" "s = snapshot_of h sessionId rs" using assms(2) by (auto simp: dsh_snapshot_Inr)
  show f: "dsh_faithful h es (hs_entries s)"
    using dsh_loop_faithful[OF rs(1) assms(1), of "[]"] by (simp add: rs(2) snapshot_of_def dsh_faithful_def)
  then have "map r_id (hs_entries s) = map nat_str [0..<length es]"
    by (intro nth_equalityI) (simp_all add: dsh_faithful_def)
  then show "distinct (map r_id (hs_entries s))" by (simp add: distinct_map inj_on_def nat_str_eqD)
qed

interpretation dsh: history_codec h sessionId "json_reads (read_number h)" "dshHistorySnapshot h iso_time sessionId"
  for h iso_time sessionId
proof
  fix es s
  assume s: "dshHistorySnapshot h iso_time sessionId es = Inr s"
  then show "hs_sessionId s = sessionId" "hs_leafId s = leaf_id (hs_entries s)" "hs_scopeHash s = hash_native h (hs_entries s)"
    by (auto simp: dsh_snapshot_Inr snapshot_of_def)
  assume "list_all (json_reads (read_number h)) es"
  then show "distinct (map r_id (hs_entries s))" by (rule dsh_snapshot_ids(2)[OF _ s])
next
  fix es later t
  assume "dshHistorySnapshot h iso_time sessionId (es @ later) = Inr t"
  then obtain rs where rs: "dsh_loop h iso_time [] [] (es @ later) = Inr rs" "t = snapshot_of h sessionId rs" by (auto simp: dsh_snapshot_Inr)
  from dsh_loop_prefix[OF rs(1)] obtain ms more where "dsh_loop h iso_time [] [] es = Inr ms" "rs = ms @ more" by blast
  then show "\<exists>s rs. dshHistorySnapshot h iso_time sessionId es = Inr s \<and> hs_entries t = hs_entries s @ rs"
    by (auto simp: dsh_snapshot_Inr rs(2) snapshot_of_def)
qed

section \<open>The OpenCode adapter\<close>

text \<open>Distinct short ids, each entry's parent the one before it.\<close>

definition native_chain :: "session_record list \<Rightarrow> bool" where
  "native_chain rs \<longleftrightarrow> distinct (map r_id rs) \<and> (\<forall>r \<in> set rs. r_id r \<noteq> [] \<and> length (r_id r) \<le> 64) \<and>
     (\<forall>i < length rs. r_parent (rs ! i) = leaf_id (take i rs))"

lemma native_chain_snoc:
  assumes "native_chain rs" and "native_id rs (r_id r) = Inr u" and "r_parent r = leaf_id rs"
  shows "native_chain (rs @ [r])"
  using assms by (auto simp: native_chain_def native_id_def source_invalid_def throw_def nth_append less_Suc_eq split: if_splits)

text \<open>The native values of a message: its info and its parts, all of the same session.\<close>

definition natives :: "jsval \<Rightarrow> (jsval \<times> jsval) list" where
  "natives envelope = map (Pair (jfield envelope ''info'')) (jfield envelope ''info'' # arr_of (jfield envelope ''parts''))"

definition own_message :: "jstring \<Rightarrow> jsval \<Rightarrow> bool" where
  "own_message sessionId envelope \<longleftrightarrow> jfield (jfield envelope ''info'') ''sessionID'' = JStr sessionId \<and>
     list_all (\<lambda>part. jfield part ''sessionID'' = JStr sessionId \<and> jfield part ''messageID'' = jfield (jfield envelope ''info'') ''id'')
       (arr_of (jfield envelope ''parts''))"

text \<open>A native value with the info of its message.\<close>

definition open_human :: "jsval \<times> jsval \<Rightarrow> bool" where
  "open_human v \<longleftrightarrow> s_field (fst v) ''role'' = js ''user'' \<and> jfield (snd v) ''type'' = JStr (js ''text'') \<and>
     jfield (snd v) ''synthetic'' \<noteq> JBool True \<and> jfield (snd v) ''ignored'' \<noteq> JBool True"

definition open_text :: "jsval \<Rightarrow> jstring" where
  "open_text part =
     (let state = jfield part ''state''
      in if jfield part ''type'' = JStr (js ''text'') then s_field part ''text''
         else if s_field state ''status'' = js ''completed'' then s_field state ''output'' else s_field state ''error'')"

abbreviation open_own :: "session_record \<Rightarrow> jsval \<times> jsval \<Rightarrow> bool" where
  "open_own r v \<equiv> r_id r = s_field (snd v) ''id'' \<and> stands_for ''nativePart'' r (snd v) (open_human v) (open_text (snd v))"

lemma str_of_js: "s \<noteq> [] \<Longrightarrow> str_of v = s \<longleftrightarrow> v = JStr s"
  by (cases v) (auto simp: str_of_def)

lemma part_entry_ids:
  "r_id (part_entry info time parent part) = s_field part ''id''" "r_parent (part_entry info time parent part) = parent"
  by (simp_all add: part_entry_def Let_def)

lemma part_entry_own: "open_own (part_entry info time parent part) (info, part)"
proof -
  have "stands_for ''nativePart'' (message_entry i parent time m) part human words"
    if "m_content m = Some (Blocks [obj [(''type'', JStr (js ''text'')), (''text'', t), (''nativePart'', part)]])"
      "m_role m = js ''user'' \<Longrightarrow> human" "words = str_of t" for i m t human words
    using that by (intro message_stands) (auto simp: block_text_text obj_def)
  note message = this
  show ?thesis
    by (auto simp: part_entry_ids) (auto simp: part_entry_def Let_def custom_stands plain_message_def tool_fields_def str_of_js
        open_human_def open_text_def intro!: message)
qed

lemma part_loop_Inr:
  "part_loop sessionId info time acc parts = Inr rs \<Longrightarrow> native_chain acc \<Longrightarrow>
   \<exists>more. rs = acc @ more \<and> native_chain rs \<and> list_all2 open_own more (map (Pair info) parts) \<and>
     list_all (\<lambda>part. jfield part ''sessionID'' = JStr sessionId \<and> jfield part ''messageID'' = jfield info ''id'') parts"
proof (induction parts arbitrary: acc)
  case (Cons part parts)
  obtain u where u: "native_id acc (s_field part ''id'') = Inr u"
    and own: "jfield part ''sessionID'' = JStr sessionId" "jfield part ''messageID'' = jfield info ''id''"
    and rest: "part_loop sessionId info time (acc @ [part_entry info time (leaf_id acc) part]) parts = Inr rs"
    using Cons.prems(1) by (auto simp: throw_def split: if_splits)
  have "native_chain (acc @ [part_entry info time (leaf_id acc) part])"
    using Cons.prems(2) u by (intro native_chain_snoc[where u = u]) (simp_all add: part_entry_ids)
  from Cons.IH[OF rest this] own part_entry_own show ?case by fastforce
qed simp

lemma message_loop_Inr:
  "message_loop h iso_time sessionId acc es = Inr rs \<Longrightarrow> native_chain acc \<Longrightarrow>
   \<exists>more envelopes. rs = acc @ more \<and> native_chain rs \<and> map_res (reparse h) es = Inr envelopes \<and>
     list_all2 open_own more (concat (map natives envelopes)) \<and> list_all (own_message sessionId) envelopes"
proof (induction es arbitrary: acc)
  case (Cons e es)
  obtain w where w: "reparse h e = Inr w" using Cons.prems(1) by auto
  let ?info = "jfield w ''info''"
  let ?head = "\<lambda>time. custom_entry (s_field ?info ''id'') (leaf_id acc) time (js ''opencode:message'') ?info"
  obtain u time ms where time: "iso_time (jfield (jfield ?info ''time'') ''created'') = Inr time" and own: "jfield ?info ''sessionID'' = JStr sessionId" and u: "native_id acc (s_field ?info ''id'') = Inr u"
    and parts: "part_loop sessionId ?info time (acc @ [?head time]) (arr_of (jfield w ''parts'')) = Inr ms"
    and rest: "message_loop h iso_time sessionId ms es = Inr rs"
    using Cons.prems(1) w by (auto simp: Let_def throw_def split: if_splits)
  have "native_chain (acc @ [?head time])"
    using Cons.prems(2) u by (intro native_chain_snoc[where u = u]) simp_all
  from part_loop_Inr[OF parts this] obtain more where more: "ms = acc @ ?head time # more" "native_chain ms"
      "list_all2 open_own more (map (Pair ?info) (arr_of (jfield w ''parts'')))" "own_message sessionId w"
    using own by (auto simp: own_message_def)
  from Cons.IH[OF rest more(2)] obtain tail envelopes where tail: "rs = ms @ tail" "native_chain rs" "map_res (reparse h) es = Inr envelopes"
      "list_all2 open_own tail (concat (map natives envelopes))" "list_all (own_message sessionId) envelopes" by blast
  have "list_all2 open_own (?head time # more @ tail) (concat (map natives (w # envelopes)))"
    using more(3) tail(4) custom_stands by (simp add: natives_def list_all2_appendI)
  then show ?case using w more tail by (intro exI[of _ "?head time # more @ tail"] exI[of _ "w # envelopes"]) simp
qed simp

lemma message_loop_prefix:
  "message_loop h iso_time sessionId acc (es @ fs) = Inr rs \<Longrightarrow> native_chain acc \<Longrightarrow>
   \<exists>ms more. message_loop h iso_time sessionId acc es = Inr ms \<and> rs = ms @ more"
proof (induction es arbitrary: acc)
  case Nil
  then show ?case using message_loop_Inr by fastforce
next
  case (Cons e es)
  obtain w where w: "reparse h e = Inr w" using Cons.prems(1) by auto
  let ?info = "jfield w ''info''"
  let ?head = "\<lambda>time. custom_entry (s_field ?info ''id'') (leaf_id acc) time (js ''opencode:message'') ?info"
  obtain u time ms where time: "iso_time (jfield (jfield ?info ''time'') ''created'') = Inr time" and own: "jfield ?info ''sessionID'' = JStr sessionId" and u: "native_id acc (s_field ?info ''id'') = Inr u"
    and parts: "part_loop sessionId ?info time (acc @ [?head time]) (arr_of (jfield w ''parts'')) = Inr ms"
    and rest: "message_loop h iso_time sessionId ms (es @ fs) = Inr rs"
    using Cons.prems(1) w by (auto simp: Let_def throw_def split: if_splits)
  have "native_chain (acc @ [?head time])"
    using Cons.prems(2) u by (intro native_chain_snoc[where u = u]) simp_all
  from part_loop_Inr[OF parts this] have "native_chain ms" by blast
  from Cons.IH[OF rest this] show ?case using w own u time parts by (simp add: Let_def)
qed

lemma native_chain_Nil: "native_chain []"
  by (simp add: native_chain_def)

lemma open_snapshot_Inr:
  "openCodeHistorySnapshot h iso_time sessionId es = Inr s \<longleftrightarrow>
     (\<exists>rs. message_loop h iso_time sessionId [] es = Inr rs \<and> s = snapshot_of h sessionId rs)"
  by (auto simp: openCodeHistorySnapshot_def bind_res_eq_Inr)

text \<open>Every message and every part, in order, is one entry under its own identity.\<close>

definition open_faithful :: "host \<Rightarrow> jstring \<Rightarrow> jsval list \<Rightarrow> session_record list \<Rightarrow> bool" where
  "open_faithful h sessionId messages rs \<longleftrightarrow> native_chain rs \<and>
     (\<exists>envelopes. map_res (reparse h) messages = Inr envelopes \<and> list_all (own_message sessionId) envelopes \<and>
        list_all2 open_own rs (concat (map natives envelopes)))"

lemma open_snapshot_faithful:
  "openCodeHistorySnapshot h iso_time sessionId es = Inr s \<Longrightarrow> open_faithful h sessionId es (hs_entries s)"
  using message_loop_Inr[OF _ native_chain_Nil]
  by (fastforce simp: open_snapshot_Inr snapshot_of_def open_faithful_def)

interpretation opencode: history_codec h sessionId "\<lambda>_. True" "openCodeHistorySnapshot h iso_time sessionId"
  for h iso_time sessionId
proof
  fix es s
  assume s: "openCodeHistorySnapshot h iso_time sessionId es = Inr s"
  then show "hs_sessionId s = sessionId" "hs_leafId s = leaf_id (hs_entries s)" "hs_scopeHash s = hash_native h (hs_entries s)"
    by (auto simp: open_snapshot_Inr snapshot_of_def)
  show "distinct (map r_id (hs_entries s))" using open_snapshot_faithful[OF s] by (simp add: open_faithful_def native_chain_def)
next
  fix es later t
  assume "openCodeHistorySnapshot h iso_time sessionId (es @ later) = Inr t"
  then obtain rs where rs: "message_loop h iso_time sessionId [] (es @ later) = Inr rs" "t = snapshot_of h sessionId rs"
    by (auto simp: open_snapshot_Inr)
  from message_loop_prefix[OF rs(1) native_chain_Nil]
  show "\<exists>s rs. openCodeHistorySnapshot h iso_time sessionId es = Inr s \<and> hs_entries t = hs_entries s @ rs"
    by (auto simp: open_snapshot_Inr rs(2) snapshot_of_def)
qed

end
