(* ===== verification/Host_History.thy ===== *)
theory Host_History
  imports Host_Codecs
begin

text \<open>
  The readers of the two adapters, \<^bold>\<open>compaction-dsh/src/history.ts\<close> and \<^bold>\<open>compaction-opencode/src/history.ts\<close>: the
  checks of the session, the stored log they read and the page of the history tool. The store, the client and the
  abort signal are parameters; the number given to \<open>aborted\<close> counts the reads of the signal.
\<close>

section \<open>The DSH reader\<close>

record dsh_handle =
  dh_id :: jstring
  dh_headerId :: jstring
  dh_isSeeded :: bool
  dh_read :: "jsval list res"
  dh_close :: "unit res"

record dsh_host =
  dw_aborted :: "nat \<Rightarrow> bool"
  dw_reason :: err
  dw_flush :: "jstring \<Rightarrow> bool res"
  dw_open :: "jstring \<Rightarrow> dsh_handle res"

definition unless_aborted :: "bool \<Rightarrow> err \<Rightarrow> unit res" where
  "unless_aborted aborted reason = (if aborted then Inl reason else Inr ())"

text \<open>The body of the \<open>try\<close>, and the reader that closes the handle after it.\<close>

definition dsh_page :: "host \<Rightarrow> cursor_codec \<Rightarrow> (jsval \<Rightarrow> jstring res) \<Rightarrow> dsh_host \<Rightarrow> dsh_handle \<Rightarrow> jstring \<Rightarrow> jsval
    \<Rightarrow> history_page res" where
  "dsh_page h codec iso_time W handle sessionId request =
     (if dh_id handle \<noteq> sessionId \<or> dh_headerId handle \<noteq> sessionId \<or> dh_isSeeded handle
      then throw HISTORY_SCOPE_DENIED ''HISTORY_SCOPE_DENIED: only the current unseeded session is supported''
      else bind_res (dh_read handle) (\<lambda>events.
        bind_res (unless_aborted (dw_aborted W 2) (dw_reason W)) (\<lambda>_.
        bind_res (dshHistorySnapshot h iso_time sessionId events) (\<lambda>s. queryHistory h codec s request 4000))))"

definition readDshHistory :: "host \<Rightarrow> cursor_codec \<Rightarrow> (jsval \<Rightarrow> jstring res) \<Rightarrow> dsh_host \<Rightarrow> jstring \<Rightarrow> jsval
    \<Rightarrow> history_page res" where
  "readDshHistory h codec iso_time W sessionId request =
     bind_res (unless_aborted (dw_aborted W 0) (dw_reason W)) (\<lambda>_.
     bind_res (dw_flush W sessionId) (\<lambda>flushed.
       if \<not> flushed then throw HISTORY_PERSISTENCE_REQUIRED ''HISTORY_PERSISTENCE_REQUIRED''
       else bind_res (unless_aborted (dw_aborted W 1) (dw_reason W)) (\<lambda>_.
         bind_res (dw_open W sessionId) (\<lambda>handle.
           let result = dsh_page h codec iso_time W handle sessionId request
           in bind_res (dh_close handle) (\<lambda>_. result)))))"

section \<open>The OpenCode reader\<close>

record open_client =
  oc_aborted :: "nat \<Rightarrow> bool"
  oc_reason :: err
  oc_session :: "jstring \<Rightarrow> jstring \<Rightarrow> jsval res"
  oc_messages :: "jstring \<Rightarrow> jstring \<Rightarrow> jsval list option res"

text \<open>\<open>messages.findIndex(...)\<close>: the calling message.\<close>

definition open_boundary :: "jstring \<Rightarrow> jstring \<Rightarrow> jsval list \<Rightarrow> nat option" where
  "open_boundary sessionId beforeMessageId = find_index (\<lambda>m. jfield (jfield m ''info'') ''id'' = JStr beforeMessageId \<and>
     jfield (jfield m ''info'') ''sessionID'' = JStr sessionId)"

definition readOpenCodeHistory :: "host \<Rightarrow> cursor_codec \<Rightarrow> (jsval \<Rightarrow> jstring res) \<Rightarrow> open_client \<Rightarrow> jstring \<Rightarrow> jstring \<Rightarrow> jstring
    \<Rightarrow> jsval \<Rightarrow> history_page res" where
  "readOpenCodeHistory h codec iso_time C sessionId directory beforeMessageId request =
     bind_res (unless_aborted (oc_aborted C 0) (oc_reason C)) (\<lambda>_.
     bind_res (oc_session C sessionId directory) (\<lambda>session.
       if \<not> isRecord session \<or> jfield session ''id'' \<noteq> JStr sessionId \<or>
          jfield session ''parentID'' \<notin> {JUndef, JNull, JStr []}
       then throw HISTORY_SCOPE_DENIED ''HISTORY_SCOPE_DENIED: only the current non-forked session is supported''
       else bind_res (oc_messages C sessionId directory) (\<lambda>messages.
         bind_res (unless_aborted (oc_aborted C 1) (oc_reason C)) (\<lambda>_. case messages of
             None \<Rightarrow> source_invalid ''HISTORY_SOURCE_INVALID: missing native history''
           | Some ms \<Rightarrow> (case open_boundary sessionId beforeMessageId ms of
                 None \<Rightarrow> source_invalid ''HISTORY_SOURCE_INVALID: calling message is missing from native history''
               | Some boundary \<Rightarrow>
                   bind_res (openCodeHistorySnapshot h iso_time sessionId (take boundary ms))
                     (\<lambda>s. queryHistory h codec s request 4000))))))"

section \<open>Excerpts of native data\<close>

text \<open>What an excerpt says of the native value it is quoted from.\<close>

definition quotes_native :: "history_excerpt \<Rightarrow> bool \<Rightarrow> jstring \<Rightarrow> bool" where
  "quotes_native x human words \<longleftrightarrow> he_text x \<noteq> [] \<and> (he_role x = js ''user'' \<longrightarrow> human) \<and>
     (he_role x = js ''bashExecution'' \<or> slice (he_offset x) (he_offset x + length (he_text x)) words = he_text x)"

lemma stands_quotes:
  assumes "stands_for k r v human words" and "he_role x = sourceRole r" and "he_text x \<noteq> []"
    and "slice (he_offset x) (he_offset x + length (he_text x)) (sourceText r) = he_text x"
  shows "quotes_native x human words"
  using assms by (auto simp: stands_for_def quotes_native_def slice_def)

lemma unless_aborted_Inr [simp]: "unless_aborted a e = Inr u \<longleftrightarrow> \<not> a"
  by (simp add: unless_aborted_def)

lemma page_at:
  assumes "queryHistory h codec s request budget = Inr page" and "x \<in> set (hp_entries page)"
  shows "he_position x < length (hs_entries s)" and "he_entryId x = r_id (hs_entries s ! he_position x)"
    and "he_role x = sourceRole (hs_entries s ! he_position x)" and "he_text x \<noteq> []"
    and "slice (he_offset x) (he_offset x + length (he_text x)) (sourceText (hs_entries s ! he_position x)) = he_text x"
  using page_verbatim[OF assms(1)] assms(2) by (simp_all add: list_all_iff Let_def)

section \<open>Properties\<close>

text \<open>
  C14: The DSH tool quotes the stored log. When it answers, the session was flushed, the log read is the
  unseeded log of that session, and every excerpt at position \<open>i\<close> is a nonempty verbatim piece of the text of
  the \<open>i\<close>-th event, under the event's sequence number; an excerpt attributed to the user is from a message a
  human wrote, never from injected context. The model's \<open>bashExecution\<close> role, which DSH does not have, aside.
\<close>

theorem readDshHistory_verbatim:
  assumes "\<And>handle events. dw_open W sessionId = Inr handle \<Longrightarrow> dh_read handle = Inr events \<Longrightarrow>
      list_all (json_reads (read_number h)) events"
    and "readDshHistory h codec iso_time W sessionId request = Inr page"
  shows "dw_flush W sessionId = Inr True \<and> (\<exists>handle events. dw_open W sessionId = Inr handle \<and> dh_id handle = sessionId \<and>
     \<not> dh_isSeeded handle \<and> dh_read handle = Inr events \<and>
     list_all (\<lambda>x. he_position x < length events \<and> he_entryId x = nat_str (he_position x) \<and>
       (\<exists>event. reparse h (events ! he_position x) = Inr event \<and> quotes_native x (dsh_human event) (dsh_text event)))
       (hp_entries page))"
proof -
  obtain handle events s where W: "dw_flush W sessionId = Inr True" "dw_open W sessionId = Inr handle" "dh_id handle = sessionId"
      "\<not> dh_isSeeded handle" "dh_read handle = Inr events"
    and s: "dshHistorySnapshot h iso_time sessionId events = Inr s" and page: "queryHistory h codec s request 4000 = Inr page"
    using assms(2) by (auto simp: readDshHistory_def dsh_page_def Let_def split: if_splits)
  have faithful: "dsh_faithful h events (hs_entries s)" by (rule dsh_snapshot_ids(1)[OF assms(1) s]) (rule W)+
  have "he_position x < length events \<and> he_entryId x = nat_str (he_position x) \<and>
      (\<exists>event. reparse h (events ! he_position x) = Inr event \<and> quotes_native x (dsh_human event) (dsh_text event))"
    if x: "x \<in> set (hp_entries page)" for x
    using page_at[OF page x] faithful stands_quotes[OF _ page_at(3-5)[OF page x]] by (auto simp: dsh_faithful_def)
  with W show ?thesis by (auto simp: list_all_iff)
qed

text \<open>
  C15: The OpenCode tool quotes the stored messages before the calling one. When it answers, the session the client
  returned is the current one and has no parent, every message read belongs to it, the native data of the messages are the
  entries in order, and every excerpt is a nonempty verbatim piece of the text, output or error of the native
  part whose identity it names; an excerpt attributed to the user is a text part of a user message that is
  neither synthetic nor ignored.
\<close>

theorem readOpenCodeHistory_verbatim:
  assumes "readOpenCodeHistory h codec iso_time C sessionId directory beforeMessageId request = Inr page"
  shows "\<exists>session messages boundary envelopes. oc_session C sessionId directory = Inr session \<and>
     jfield session ''id'' = JStr sessionId \<and> jfield session ''parentID'' \<in> {JUndef, JNull, JStr []} \<and>
     oc_messages C sessionId directory = Inr (Some messages) \<and>
     open_boundary sessionId beforeMessageId messages = Some boundary \<and>
     map_res (reparse h) (take boundary messages) = Inr envelopes \<and> list_all (own_message sessionId) envelopes \<and>
     (let vs = concat (map natives envelopes) in list_all (\<lambda>x. he_position x < length vs \<and>
       he_entryId x = s_field (snd (vs ! he_position x)) ''id'' \<and>
       quotes_native x (open_human (vs ! he_position x)) (open_text (snd (vs ! he_position x)))) (hp_entries page))"
proof -
  obtain session messages boundary s where C: "oc_session C sessionId directory = Inr session"
      "jfield session ''id'' = JStr sessionId" "jfield session ''parentID'' \<in> {JUndef, JNull, JStr []}"
      "oc_messages C sessionId directory = Inr (Some messages)"
      "open_boundary sessionId beforeMessageId messages = Some boundary"
    and s: "openCodeHistorySnapshot h iso_time sessionId (take boundary messages) = Inr s"
    and page: "queryHistory h codec s request 4000 = Inr page"
    using assms by (auto simp: readOpenCodeHistory_def source_invalid_def split: if_splits option.splits)
  obtain envelopes where e: "map_res (reparse h) (take boundary messages) = Inr envelopes" "list_all (own_message sessionId) envelopes"
      "list_all2 open_own (hs_entries s) (concat (map natives envelopes))"
    using open_snapshot_faithful[OF s] by (auto simp: open_faithful_def)
  let ?vs = "concat (map natives envelopes)"
  have "he_position x < length ?vs \<and> he_entryId x = s_field (snd (?vs ! he_position x)) ''id'' \<and>
      quotes_native x (open_human (?vs ! he_position x)) (open_text (snd (?vs ! he_position x)))"
    if x: "x \<in> set (hp_entries page)" for x
    using page_at[OF page x] stands_quotes[OF _ page_at(3-5)[OF page x]] list_all2_lengthD[OF e(3)]
      list_all2_nthD[OF e(3) page_at(1)[OF page x]] by auto
  with C e show ?thesis by (intro exI conjI) (auto simp: list_all_iff Let_def)
qed

text \<open>
  C16: A cursor of the OpenCode tool survives the conversation. A page made over some stored messages names a
  cursor; used after further messages were stored, it gives the page it gives over the messages it was made for.
  The page is the first one of its query, and the hashes of the two histories are assumed to differ.
\<close>

theorem openCode_cursor_survives:
  assumes "documented_codec codec" and "documented_numbers h"
    and "openCodeHistorySnapshot h iso_time sessionId messages = Inr s"
    and "openCodeHistorySnapshot h iso_time sessionId (messages @ later) = Inr t"
    and "queryHistory h codec s request budget = Inr page" and "hp_cursor page = Some cursor"
    and "jfield request ''cursor'' = JUndef" and "jfield follow ''cursor'' = JStr cursor"
    and "query_signature h follow = query_signature h request"
    and "hs_entries s \<noteq> []" and "int (length (hs_entries s)) \<le> max_safe_integer"
    and "list_all (\<lambda>r. int (length (sourceText r)) \<le> max_safe_integer) (hs_entries s)"
    and "hs_scopeHash t \<noteq> hs_scopeHash s"
  shows "queryHistory h codec t follow budget' = queryHistory h codec s follow budget'"
  by (rule opencode.cursor_survives_growth[OF assms(1,2) _ assms(3-13)]) (simp add: list_all_iff)

section \<open>Witnesses\<close>

definition plain_time :: "jsval \<Rightarrow> jstring res" where
  "plain_time v = Inr (js ''now'')"

definition sample_event :: jsval where
  "sample_event = obj [(''data'', obj [(''content'', JArr [obj [(''text'', JStr (js ''Port 80.'')), (''type'', JStr (js ''text''))]]),
     (''role'', JStr (js ''user'')), (''source'', obj [(''kind'', JStr (js ''user''))])]),
     (''seq'', JNum (JInt 0)), (''time'', JNum (JInt 0)), (''type'', JStr (js ''user/message''))]"

definition sample_message :: "string \<Rightarrow> string \<Rightarrow> string \<Rightarrow> jsval" where
  "sample_message i p t = obj [(''info'', obj [(''id'', JStr (js i)), (''role'', JStr (js ''user'')), (''sessionID'', JStr (js ''s'')),
     (''time'', obj [(''created'', JNum (JInt 0))])]),
     (''parts'', JArr [obj [(''id'', JStr (js p)), (''messageID'', JStr (js i)), (''sessionID'', JStr (js ''s'')),
       (''text'', JStr (js t)), (''type'', JStr (js ''text''))]])]"

definition long_text :: string where
  "long_text = replicate 330 CHR ''k''"

definition sample_dsh :: dsh_host where
  "sample_dsh = \<lparr>dw_aborted = (\<lambda>_. False), dw_reason = Err PlainError [], dw_flush = (\<lambda>_. Inr True),
     dw_open = (\<lambda>i. Inr \<lparr>dh_id = i, dh_headerId = i, dh_isSeeded = False, dh_read = Inr [sample_event], dh_close = Inr ()\<rparr>)\<rparr>"

definition sample_client :: open_client where
  "sample_client = \<lparr>oc_aborted = (\<lambda>_. False), oc_reason = Err PlainError [], oc_session = (\<lambda>i d. Inr (obj [(''id'', JStr i)])),
     oc_messages = (\<lambda>i d. Inr (Some [sample_message ''m1'' ''p1'' ''Port 80.'', sample_message ''m2'' ''p2'' ''Ask'']))\<rparr>"

text \<open>A read of a record with some text gives a page, and a cursor when the text is longer than the page.\<close>

lemma some_page:
  assumes "distinct (map r_id (hs_entries s))" and "k < length (hs_entries s)" and "sourceText (hs_entries s ! k) \<noteq> []"
    and "r_id (hs_entries s ! k) = i" and "i \<noteq> []" and "check plain_host historyQuerySchema (read_request i None)"
  shows "\<exists>page. queryHistory plain_host plain_codec s (read_request i None) budget = Inr page \<and>
    (2 * (max 512 (min 4000 budget) - 350) < int (length (sourceText (hs_entries s ! k))) \<longrightarrow> hp_cursor page \<noteq> None)"
proof -
  from read_page[OF assms(1,2), of 0 plain_host plain_codec None budget]
  obtain page and e :: jstring where
    "history_page_at plain_host plain_codec s (read_request i None) budget 0 0 = Inr page"
    "int (length e) \<le> 2 * (max 512 (min 4000 budget) - 350)"
    "hp_cursor page = (if 0 + length e < length (sourceText (hs_entries s ! k))
      then Some (cc_encode plain_codec (stringify (cursor_json s (query_signature plain_host (read_request i None)) 0 (0 + length e)))) else None)"
    using assms(3-5) by auto
  then show ?thesis using assms(6) by (intro exI[of _ page]) (auto simp: queryHistory_def)
qed

lemma read_accepted_short: "i \<noteq> [] \<Longrightarrow> length i \<le> 64 \<Longrightarrow> check plain_host historyQuerySchema (read_request i None)"
  by (simp add: plain_host_def historyQuerySchema_def read_request_def conforms_simps)

lemma sample_dsh_loop:
  "\<exists>r. dsh_loop plain_host plain_time [] [] [sample_event] = Inr [r] \<and> r_id r = js ''0'' \<and> sourceText r = js ''Port 80.''"
proof -
  have "(case dsh_loop plain_host plain_time [] [] [sample_event] of Inl _ \<Rightarrow> False | Inr rs \<Rightarrow>
     map r_id rs = [js ''0''] \<and> map sourceText rs = [js ''Port 80.''])"
    by code_simp
  then show ?thesis by (auto split: sum.splits simp: map_eq_Cons_conv)
qed

lemma sample_event_ok: "json_reads (read_number plain_host) sample_event"
  by (rule plain_reads) code_simp

theorem readDshHistory_verbatim_witness:
  "\<exists>page. readDshHistory plain_host plain_codec plain_time sample_dsh (js ''s'') (read_request (js ''0'') None) = Inr page \<and>
     list_all (\<lambda>x. he_entryId x = js ''0'') (hp_entries page)"
proof -
  obtain r where r: "dsh_loop plain_host plain_time [] [] [sample_event] = Inr [r]" "r_id r = js ''0''" "sourceText r = js ''Port 80.''"
    using sample_dsh_loop by blast
  let ?s = "snapshot_of plain_host (js ''s'') [r]"
  have s: "dshHistorySnapshot plain_host plain_time (js ''s'') [sample_event] = Inr ?s"
    by (simp only: dshHistorySnapshot_def r(1) bind_res_simps)
  have "\<exists>page. queryHistory plain_host plain_codec ?s (read_request (js ''0'') None) 4000 = Inr page"
    using some_page[of ?s 0 "js ''0''" 4000] r(2,3) by (auto simp: snapshot_of_def read_accepted_short)
  then obtain page where page: "readDshHistory plain_host plain_codec plain_time sample_dsh (js ''s'') (read_request (js ''0'') None) = Inr page"
    using s by (auto simp: readDshHistory_def dsh_page_def sample_dsh_def unless_aborted_def)
  have "\<exists>handle events. dw_open sample_dsh (js ''s'') = Inr handle \<and> dh_read handle = Inr events \<and>
      list_all (\<lambda>x. he_position x < length events \<and> he_entryId x = nat_str (he_position x)) (hp_entries page)"
    using readDshHistory_verbatim[OF _ page] sample_event_ok
    by (fastforce simp: sample_dsh_def list_all_iff)
  moreover have "nat_str 0 = js ''0''" by code_simp
  ultimately have "list_all (\<lambda>x. he_entryId x = js ''0'') (hp_entries page)" by (auto simp: sample_dsh_def list_all_iff)
  with page show ?thesis by blast
qed

lemma sample_order:
  "js ''id'' \<le> js ''messageID''" "js ''messageID'' \<le> js ''sessionID''" "js ''sessionID'' \<le> js ''text''" "js ''text'' \<le> js ''type''"
  "js ''id'' \<le> js ''role''" "js ''role'' \<le> js ''sessionID''" "js ''sessionID'' \<le> js ''time''" "js ''info'' \<le> js ''parts''"
  by code_simp+

lemma sample_names:
  "index_key (js ''id'') = None" "index_key (js ''role'') = None" "index_key (js ''sessionID'') = None" "index_key (js ''time'') = None"
  "index_key (js ''messageID'') = None" "index_key (js ''text'') = None" "index_key (js ''type'') = None" "index_key (js ''info'') = None"
  "index_key (js ''parts'') = None" "index_key (js ''created'') = None"
  by code_simp+

lemma scan_units_plain: "list_all (\<lambda>u. \<not> high_surrogate u \<and> \<not> low_surrogate u) s \<Longrightarrow> scan_units s = Inr ()"
  by (induction s rule: scan_units.induct) auto

lemma stringLiteral_js: "stringLiteral (js s) = Inr (quote (js s))"
proof -
  have "list_all (\<lambda>u. \<not> high_surrogate u \<and> \<not> low_surrogate u) (js s)"
    using js_plain[of _ s] by (auto simp: list_all_iff plain_unit_def)
  from scan_units_plain[OF this] show ?thesis by (simp add: stringLiteral_def)
qed

lemma map_res_total: "\<forall>x \<in> set xs. \<exists>y. f x = Inr y \<Longrightarrow> \<exists>ys. map_res f xs = Inr ys"
  by (induction xs) auto

text \<open>An object of printable members prints.\<close>

lemma canonicalize_members:
  assumes "\<forall>p \<in> set ps. (\<exists>k. fst p = js k) \<and> (\<exists>s. canonicalize (snd p) = Inr s)"
  shows "\<exists>s. canonicalize (JObj ps) = Inr s"
proof -
  have "\<exists>ys. map_res (\<lambda>p. canonical_member (fst p, canonicalize (snd p))) (sort_key fst ps) = Inr ys"
    using assms by (intro map_res_total) (fastforce simp: canonical_member_def stringLiteral_js)
  then show ?thesis by (auto simp only: canonicalize_obj bind_res_simps)
qed

lemma sample_canonical:
  "\<exists>s. canonicalize (sample_message i p t) = Inr s"
proof -
  have str: "\<exists>s. canonicalize (JStr (js x)) = Inr s" for x by (simp add: stringLiteral_js)
  have num: "\<exists>s. canonicalize (JNum (JInt 0)) = Inr s" by simp
  have time: "\<exists>s. canonicalize (JObj [(js ''created'', JNum (JInt 0))]) = Inr s"
    by (rule canonicalize_members) (use num in auto)
  have info: "\<exists>s. canonicalize (JObj [(js ''id'', JStr (js i)), (js ''role'', JStr (js ''user'')), (js ''sessionID'', JStr (js ''s'')),
      (js ''time'', JObj [(js ''created'', JNum (JInt 0))])]) = Inr s"
    by (rule canonicalize_members) (use str time in \<open>auto simp del: canonicalize.simps\<close>)
  have "\<exists>s. canonicalize (JObj [(js ''id'', JStr (js p)), (js ''messageID'', JStr (js i)), (js ''sessionID'', JStr (js ''s'')),
      (js ''text'', JStr (js t)), (js ''type'', JStr (js ''text''))]) = Inr s"
    by (rule canonicalize_members) (use str in \<open>auto simp del: canonicalize.simps\<close>)
  then have parts: "\<exists>s. canonicalize (JArr [JObj [(js ''id'', JStr (js p)), (js ''messageID'', JStr (js i)), (js ''sessionID'', JStr (js ''s'')),
      (js ''text'', JStr (js t)), (js ''type'', JStr (js ''text''))]]) = Inr s"
    by (auto simp only: canonicalize.simps(6) canonical_elems.simps bind_res_simps)
  show ?thesis unfolding sample_message_def obj_def list.map apfst_conv
    by (rule canonicalize_members) (use info parts in \<open>auto simp del: canonicalize.simps\<close>)
qed

lemma sample_sorted_form: "sorted_form (sample_message i p t) = sample_message i p t"
  by (simp add: sample_message_def obj_def sample_order)

lemma sample_reparse: "reparse plain_host (sample_message i p t) = Inr (sample_message i p t)"
proof -
  have "canonicalize (sample_message i p t) = Inr (stringify (sample_message i p t))"
    using sample_canonical[of i p t] canonicalize_stringify[of "sample_message i p t"] by (auto simp only: sample_sorted_form)
  moreover have "json_reads (read_number plain_host) (sample_message i p t)"
    by (rule plain_reads) (simp add: sample_message_def obj_def js_object_names sample_names)
  then have "json_parse (read_number plain_host) (stringify (sample_message i p t)) = Some (sample_message i p t)"
    by (rule json_parse_stringify)
  ultimately show ?thesis by (simp add: reparse_def)
qed

definition sample_info :: "string \<Rightarrow> jsval" where
  "sample_info i = jfield (sample_message i i i) ''info''"

definition sample_part :: "string \<Rightarrow> string \<Rightarrow> string \<Rightarrow> jsval" where
  "sample_part i p t = hd (arr_of (jfield (sample_message i p t) ''parts''))"

text \<open>The two entries of a sample message after the given ones.\<close>

definition sample_entries :: "jstring option \<Rightarrow> string \<Rightarrow> string \<Rightarrow> string \<Rightarrow> session_record list" where
  "sample_entries parent i p t =
     [custom_entry (js i) parent (js ''now'') (js ''opencode:message'') (sample_info i),
      part_entry (sample_info i) (js ''now'') (Some (js i)) (sample_part i p t)]"

lemma sample_message_fields:
  "jfield (sample_message i p t) ''info'' = sample_info i" "arr_of (jfield (sample_message i p t) ''parts'') = [sample_part i p t]"
  "s_field (sample_info i) ''id'' = js i" "jfield (sample_info i) ''sessionID'' = JStr (js ''s'')" "jfield (sample_info i) ''id'' = JStr (js i)"
  "s_field (sample_part i p t) ''id'' = js p" "jfield (sample_part i p t) ''sessionID'' = JStr (js ''s'')"
  "jfield (sample_part i p t) ''messageID'' = JStr (js i)"
  by (simp_all add: sample_message_def sample_info_def sample_part_def obj_def arr_of_def str_of_def)

lemma sample_entries_simps:
  "map r_id (sample_entries parent i p t) = [js i, js p]" "map sourceText (sample_entries parent i p t) = [[], js t]"
  "sample_entries parent i p t \<noteq> []" "length (sample_entries parent i p t) = 2"
  "r_id (last (sample_entries parent i p t)) = js p" "sample_entries parent i p t ! Suc 0 = last (sample_entries parent i p t)"
  "sourceText (last (sample_entries parent i p t)) = js t" "r_id (hd (sample_entries parent i p t)) = js i"
proof -
  have part: "part_entry (sample_info i) time par (sample_part i p t) = message_entry (js p) par time
      (plain_message (js ''user'') [obj [(''type'', JStr (js ''text'')), (''text'', JStr (js t)), (''nativePart'', sample_part i p t)]])" for time par
    by (simp add: part_entry_def Let_def sample_message_fields) (simp add: sample_message_def sample_info_def sample_part_def obj_def arr_of_def str_of_def)
  show "map sourceText (sample_entries parent i p t) = [[], js t]" "sourceText (last (sample_entries parent i p t)) = js t"
    by (simp_all add: sample_entries_def part) (simp_all add: custom_entry_def message_entry_def sourceText_def message_text_def
        plain_message_def block_text_text obj_def str_of_def)
qed (simp_all add: sample_entries_def part_entry_ids sample_message_fields)

lemma sample_loop:
  assumes "i \<noteq> []" "p \<noteq> []" "length i \<le> 64" "length p \<le> 64" "js i \<noteq> js p" "js i \<notin> set (map r_id acc)" "js p \<notin> set (map r_id acc)"
  shows "message_loop plain_host plain_time (js ''s'') acc (sample_message i p t # rest) =
    message_loop plain_host plain_time (js ''s'') (acc @ sample_entries (leaf_id acc) i p t) rest"
  using assms by (simp add: sample_reparse Let_def sample_message_fields plain_time_def native_id_def sample_entries_def leaf_id_def)

lemma sample_stored:
  "openCodeHistorySnapshot plain_host plain_time (js ''s'') [sample_message ''m1'' ''p1'' t] =
      Inr (snapshot_of plain_host (js ''s'') (sample_entries None ''m1'' ''p1'' t))"
    "openCodeHistorySnapshot plain_host plain_time (js ''s'') ([sample_message ''m1'' ''p1'' t] @ [sample_message ''m2'' ''p2'' ''Ask'']) =
      Inr (snapshot_of plain_host (js ''s'') (sample_entries None ''m1'' ''p1'' t @ sample_entries (Some (js ''p1'')) ''m2'' ''p2'' ''Ask''))"
proof -
  have m1: "message_loop plain_host plain_time (js ''s'') [] (sample_message ''m1'' ''p1'' t # rest) =
      message_loop plain_host plain_time (js ''s'') (sample_entries None ''m1'' ''p1'' t) rest" for rest
    by (subst sample_loop) (simp_all add: leaf_id_def)
  have m2: "message_loop plain_host plain_time (js ''s'') (sample_entries None ''m1'' ''p1'' t) [sample_message ''m2'' ''p2'' ''Ask''] =
      Inr (sample_entries None ''m1'' ''p1'' t @ sample_entries (Some (js ''p1'')) ''m2'' ''p2'' ''Ask'')"
    by (subst sample_loop) (simp_all add: sample_entries_simps leaf_id_def del: set_map)
  show "openCodeHistorySnapshot plain_host plain_time (js ''s'') [sample_message ''m1'' ''p1'' t] =
      Inr (snapshot_of plain_host (js ''s'') (sample_entries None ''m1'' ''p1'' t))"
    by (simp only: openCodeHistorySnapshot_def m1 message_loop.simps(1) bind_res_simps)
  show "openCodeHistorySnapshot plain_host plain_time (js ''s'') ([sample_message ''m1'' ''p1'' t] @ [sample_message ''m2'' ''p2'' ''Ask'']) =
      Inr (snapshot_of plain_host (js ''s'') (sample_entries None ''m1'' ''p1'' t @ sample_entries (Some (js ''p1'')) ''m2'' ''p2'' ''Ask''))"
    by (simp only: openCodeHistorySnapshot_def m1 m2 append_Cons append_Nil bind_res_simps)
qed

lemma sample_page:
  assumes "t \<noteq> []"
  shows "\<exists>page. queryHistory plain_host plain_codec (snapshot_of plain_host (js ''s'') (sample_entries None ''m1'' ''p1'' t))
      (read_request (js ''p1'') None) budget = Inr page \<and>
    (2 * (max 512 (min 4000 budget) - 350) < int (length t) \<longrightarrow> hp_cursor page \<noteq> None)"
  using some_page[of "snapshot_of plain_host (js ''s'') (sample_entries None ''m1'' ''p1'' t)" 1 "js ''p1''" budget] assms
  by (simp add: snapshot_of_def sample_entries_simps read_accepted_short del: distinct_map)

theorem readOpenCodeHistory_verbatim_witness:
  "\<exists>page. readOpenCodeHistory plain_host plain_codec plain_time sample_client (js ''s'') [] (js ''m2'') (read_request (js ''p1'') None) = Inr page \<and>
     list_all (\<lambda>x. he_entryId x \<in> {js ''m1'', js ''p1''} \<and> he_text x \<noteq> []) (hp_entries page)"
proof -
  have boundary: "open_boundary (js ''s'') (js ''m2'') [sample_message ''m1'' ''p1'' ''Port 80.'', sample_message ''m2'' ''p2'' ''Ask''] = Some 1"
    by code_simp
  obtain page where page:
    "readOpenCodeHistory plain_host plain_codec plain_time sample_client (js ''s'') [] (js ''m2'') (read_request (js ''p1'') None) = Inr page"
    using sample_page[of "''Port 80.''" 4000] boundary sample_stored(1)[of "''Port 80.''"]
    by (auto simp: readOpenCodeHistory_def sample_client_def unless_aborted_def obj_def isRecord_def simp del: openCodeHistorySnapshot_def)
  from readOpenCodeHistory_verbatim[OF page]
  have "let vs = concat (map natives [sample_message ''m1'' ''p1'' ''Port 80.'']) in list_all (\<lambda>x. he_position x < length vs \<and>
       he_entryId x = s_field (snd (vs ! he_position x)) ''id'' \<and> he_text x \<noteq> []) (hp_entries page)"
    using boundary by (auto simp: sample_reparse sample_client_def Let_def list_all_iff quotes_native_def)
  then have "list_all (\<lambda>x. he_entryId x \<in> {js ''m1'', js ''p1''} \<and> he_text x \<noteq> []) (hp_entries page)"
    by (auto simp: natives_def sample_message_fields list_all_iff Let_def nth_Cons split: nat.splits)
  with page show ?thesis by blast
qed

lemma native_bytes: "frames serializeNative b rs = Inr (b @ concat (map (\<lambda>r. utf8 (stringify (r_native r)) @ utf8 newline) rs))"
  by (induction rs arbitrary: b) (simp_all add: serializeNative_def)

lemma newline_bytes: "length (utf8 newline) = 1"
  by code_simp

lemma plain_scope_grows: "rs \<noteq> [] \<Longrightarrow> hash_native plain_host (qs @ rs) \<noteq> hash_native plain_host qs"
  by (cases rs) (auto simp: hash_native_def hashEntries_def hash_frames_def native_bytes plain_host_def newline_bytes dest!: nat_str_eqD)

theorem openCode_cursor_survives_witness:
  "\<exists>s t page cursor. openCodeHistorySnapshot plain_host plain_time (js ''s'') [sample_message ''m1'' ''p1'' long_text] = Inr s \<and>
     openCodeHistorySnapshot plain_host plain_time (js ''s'') ([sample_message ''m1'' ''p1'' long_text] @ [sample_message ''m2'' ''p2'' ''Ask'']) = Inr t \<and>
     queryHistory plain_host plain_codec s (read_request (js ''p1'') None) 0 = Inr page \<and> hp_cursor page = Some cursor \<and>
     queryHistory plain_host plain_codec t (read_request (js ''p1'') (Some cursor)) 0
       = queryHistory plain_host plain_codec s (read_request (js ''p1'') (Some cursor)) 0"
proof -
  let ?m = "[sample_message ''m1'' ''p1'' long_text]" and ?later = "[sample_message ''m2'' ''p2'' ''Ask'']"
  let ?es = "sample_entries None ''m1'' ''p1'' long_text" and ?more = "sample_entries (Some (js ''p1'')) ''m2'' ''p2'' ''Ask''"
  let ?s = "snapshot_of plain_host (js ''s'') ?es" and ?t = "snapshot_of plain_host (js ''s'') (?es @ ?more)"
  have snapshots: "openCodeHistorySnapshot plain_host plain_time (js ''s'') ?m = Inr ?s"
      "openCodeHistorySnapshot plain_host plain_time (js ''s'') (?m @ ?later) = Inr ?t"
    by (rule sample_stored)+
  have long: "length long_text = 330" by (simp add: long_text_def)
  then have "long_text \<noteq> []" by auto
  then obtain page cursor where page: "queryHistory plain_host plain_codec ?s (read_request (js ''p1'') None) 0 = Inr page" "hp_cursor page = Some cursor"
    using sample_page[of long_text 0] long by auto
  have texts: "list_all (\<lambda>r. int (length (sourceText r)) \<le> max_safe_integer) ?es"
  proof -
    have "list_all (\<lambda>x. int (length x) \<le> max_safe_integer) (map sourceText ?es)"
      by (simp only: sample_entries_simps(2)) (simp add: long max_safe_integer_def)
    then show ?thesis by (simp only: list.pred_map comp_def)
  qed
  have "queryHistory plain_host plain_codec ?t (read_request (js ''p1'') (Some cursor)) 0
      = queryHistory plain_host plain_codec ?s (read_request (js ''p1'') (Some cursor)) 0"
    by (rule openCode_cursor_survives[OF plain_codec_documented plain_numbers snapshots page])
      (use texts in \<open>simp_all add: snapshot_of_def sample_entries_simps max_safe_integer_def read_signature[of _ _ "Some _"] plain_scope_grows\<close>)
  with snapshots page show ?thesis by blast
qed

end
