(* ===== verification/Spec2Isabelle.thy ===== *)
theory Spec2Isabelle
  imports Checkpoints Call_Journal Cuts Guards Reduction Quote_Diagnostics Scope_Diagnostics Schema_Diagnostics
    Note_Envelope Work_Notes Sources_Repair Preparation Events History_View Excerpts Writer_Session
    Call_Store_Writer Render_Projection Host_History
begin

text \<open>
  A model of the host-neutral context-compaction core, \<open>packages/compaction-core/src\<close>, of the call journal and
  the rendering projection of the agent's extension (\<open>preview/\<close> below
  \<open>packages/coding-agent/src/extensions/context-memory\<close>) and of the two history adapters
  (\<open>packages/compaction-dsh\<close>, \<open>packages/compaction-opencode\<close>), with the properties that make them correct.
  The core decides what a coding agent's session may forget: it reads the session's records, asks a
  writer model for a memory note about the records to be released, and accepts the note only when every
  fact cites the originals. Its promises are about evidence: a checkpoint matches the records it replaces,
  a quotation is in the cited text, a repair or a merge loses no ruling of the user, and what was released
  stays readable through the history tools.

  \<^bold>\<open>Conventions.\<close> A JavaScript string is a list of UTF-16 code units (\<open>jstring\<close>), so lengths, slices
  and surrogate halves are the source's; bytes are counted in UTF-8 (\<open>Utf8\<close>). A JSON value is \<open>jsval\<close>
  with \<open>JSON.stringify\<close> as \<open>stringify\<close> and \<open>JSON.parse\<close> as \<open>json_parse\<close> (\<open>Json\<close>, \<open>Json_Parse\<close>); an object is
  its properties in enumeration order. A thrown error is \<open>Inl (Err code message)\<close> (\<open>Prelude\<close>). A note or a
  fact stays the value the schema admitted, read through selectors. Token counts are those of the source:
  a third of the UTF-8 bytes, rounded up.

  \<^bold>\<open>What is outside.\<close> SHA-256, the schema validator, Unicode normalization, case and categories, the
  reading of number texts (record \<open>host\<close>) and \<open>base64url\<close> (record \<open>cursor_codec\<close>) are parameters; what a
  theorem needs of them is a hypothesis that states documented behaviour: \<open>documented_check\<close> (the validator
  decides the schema's meaning), \<open>documented_codec\<close> (decoding inverts encoding), \<open>documented_numbers\<close>
  (the text of a safe integer is read as that integer); where a value with other numbers is read back, each of its
  numbers is required to be read as it was printed (\<open>json_reads\<close>). The disk of the call journal is the record
  \<open>journal_world\<close>: any append may be refused, or stop after any number of units with or without an error, and any
  read may throw; \<open>journal_setting\<close> says that the file names of at most 32 sessions differ, that safe integers
  print and read back and that an append which wrote a part of its line throws. The stores of the adapters are
  the records \<open>dsh_host\<close> and \<open>open_client\<close>. A theorem about hashes says "or a collision is at hand", with two
  exceptions that assume the digest tells two texts apart: the file names of the journal's sessions, and the
  scope hashes of a branch and its continuation in \<open>cursor_pins_branch\<close> and \<open>openCode_cursor_survives\<close>.

  \<^bold>\<open>Theories and sources.\<close>
  \<^item> \<open>Records\<close>: records.ts and the readings \<open>sourceText\<close>, \<open>sourceRole\<close>, \<open>inProgressRequests\<close> of notes.ts. \<open>Canonical\<close>:
    canonical.ts and the hashes of identity.ts, with the locale \<open>line_serializer\<close> for any framed
    serialization; \<open>canonicalize_normal_form\<close>, \<open>canonical_hash_tamper_evident\<close> and the one-pass prefix hashes.
  \<^item> \<open>Config\<close>: config.ts, the note budgets and the memory budget with their bounds.
  \<^item> \<open>Notes\<close>: notes.ts up to rendering: the schema, exact validation, each error's cause, the lineage section.
    \<open>Checkpoints\<close>: the two validations of stored checkpoints, latest only and all with prebuilt indices,
    proved to agree; a checkpoint they return is sound.
  \<^item> \<open>Work_Notes\<close>: work-notes.ts: notes written along the way, their merge, and the user's own messages carried in
    a summary.
  \<^item> \<open>Reduction\<close>, \<open>Guards\<close>, \<open>Cuts\<close>, \<open>Call_Journal\<close>: reduction.ts, guards.ts, cuts.ts, call-journal.ts: the reduced view of a
    branch, the request-side protections, where to cut, and what calls cost.
  \<^item> \<open>Quote_Diagnostics\<close>, \<open>Scope_Diagnostics\<close>, \<open>Schema_Diagnostics\<close>, \<open>Note_Envelope\<close>: the diagnoses of a refused note, each
    proved to agree with the validator it explains. \<open>Quote_Repair\<close>, \<open>Sources_Repair\<close>: the splices of a
    repair's answer, both instances of the locale \<open>splice\<close>.
  \<^item> \<open>Preparation\<close>: preparation-candidate.ts: freezing, finishing, classifying and reusing a prepared note.
  \<^item> \<open>Events\<close>: the closed set of error classes of events.ts, over the backtracking matcher of \<open>Regex\<close>.
  \<^item> \<open>History\<close>: history.ts: ranked search and paged reads with pinned cursors. \<open>View_Text\<close>, \<open>History_View\<close>: history-view.ts:
    what a full read costs, low-detail reads, and the typed list of facts, edits and errors.
  \<^item> \<open>Excerpts\<close>: excerpts.ts: the identifiers of a prompt, the secret filter and the appended excerpts.
  \<^item> \<open>Writer_Parts\<close>: the stateless half of writer.ts: the source chunks, the instruction and rules texts, the
    evidence of each request, reading an answer, the sums of usage, what a size repair must keep.
    \<open>Writer\<close>: the stateful half: one provider call (\<open>complete\<close>) from its reservation to its settlement, the
    checks of a candidate, the three repairs, the declined tool call, \<open>writeWithFixedWriter\<close>,
    \<open>writeWithSession\<close> and \<open>writeMemory\<close>. \<open>Writer_Ledger\<close>: the abstract ledger machine of calls, repairs and
    settlements, the refinement of it by every operation of the writer, and its invariants.
    \<open>Writer_Result\<close>: what a returned note satisfies. \<open>Writer_Session\<close>: an honest host gets its note after one call.
  \<^item> \<open>Lines\<close>, \<open>Call_Store\<close>: preview/call-journal.ts: the append-only file of calls, its loading, the hooks of a call.
    \<open>Call_Store_Run\<close>: runs of hooks over several sessions, restarts, and what a crash keeps. \<open>Call_Store_Writer\<close>: the
    journal as the hooks of the writer.
  \<^item> \<open>Render_Projection\<close>: preview/render-projection.ts: the summary as the model sees it.
  \<^item> \<open>Host_Codecs\<close>: the two codec.ts: a native log as a snapshot; the locale \<open>history_codec\<close> states what the history
    tools need of an adapter, both satisfy it, and cursors survive the growth of a log. \<open>Host_History\<close>: the two
    history.ts: what a tool's answer says of the native log.

  \<^bold>\<open>How the parts meet.\<close> The writer calls the validator of \<open>Notes\<close>; a refusal goes to the diagnosis that
  explains it and, when eligible, to one repair, whose answer \<open>Quote_Repair\<close> or \<open>Sources_Repair\<close> splices and the
  validator checks again. \<open>Preparation\<close> freezes a written note over a prefix of the branch; a committed
  checkpoint is what \<open>Checkpoints\<close> validates on every later read, \<open>Cuts\<close> and \<open>Reduction\<close> release records
  behind it, and \<open>History\<close>, \<open>History_View\<close> and \<open>Excerpts\<close> read the released ones back. The hooks the writer calls
  around each dispatch are those of \<open>Call_Store\<close>, whose summary is \<open>Call_Journal\<close>'s; \<open>Render_Projection\<close> rewrites the
  text of a stored checkpoint and never its note; \<open>Host_History\<close> runs \<open>History\<close> over the logs of other agents.

  \<^bold>\<open>Asynchrony.\<close> The writer awaits every call before the next, so its run is one sequence of steps. The
  host is a record of functions of a \<open>tick\<close> that counts the reads of the signal, the clock, the observers
  and the transport: whatever a signal, a hook or a provider may do between two steps is some such
  record, and the theorems of \<open>Writer_Ledger\<close> and \<open>Writer_Result\<close> hold for all of them.

  \<^bold>\<open>Loops.\<close> Loops over lists are structural; \<open>upper_loop\<close>, \<open>fit_search\<close>, \<open>shrink_excerpt\<close>, \<open>shrink_part\<close>, \<open>chunk_entry\<close>, \<open>shorten_sentence\<close>,
  \<open>all_matches\<close> and \<open>occurrence_from\<close> carry a measure. Following cursors (\<open>read_loop\<close>, \<open>full_read_cost\<close>) is a
  \<open>partial_function\<close>, and \<open>read_pages\<close> and \<open>list_pages\<close> take fuel; \<open>readTokens_exact\<close>, \<open>read_pages_complete\<close> and
  \<open>list_pages_complete\<close> prove that they return: a page of a read has at least one unit, a page of a
  list at least one item.

  \<^bold>\<open>Not modelled.\<close> The JSON Schema document the schema library builds for a schema (the parameter \<open>doc\<close> of the
  writer's texts); contracts.ts, which holds types of the adapters and no operation; \<open>Object.freeze\<close> and
  \<open>structuredClone\<close>, which are the identity on values; the event records that only the host writes; the
  caches of \<open>pricer\<close> and \<open>selectExcerpts\<close>, which never change a result. A thrown value is an \<open>Error\<close>
  throughout, the synchronous members of a transport other than its dispatch (\<open>request\<close>, \<open>declineToolCalls\<close>,
  \<open>prefixTokens\<close>, \<open>summarizeUsage\<close>) return, and values are of their declared types: a DSH user message has its \<open>source\<close>, and a
  record has no member that is \<open>undefined\<close> where its type has a value. Provider costs are exact rationals instead of floating point. Of the extension
  only the two preview files above are modelled, of the adapters not the registration of the tool; the agent, its
  terminal interface and the model providers are outside this development.
\<close>

end
